(* ===== verification/Prelude_C.thy ===== *)
theory Prelude_C
  imports Main "HOL-Library.Word"
begin

unbundle bit_operations_syntax

text \<open>
  The part of C and of its standard library that the sources rely on, shared by every component.

  \<^item> A pointer into an object is the list of the bytes from the pointed-to byte to the end of the
    object; advancing the pointer drops bytes. Reading the empty list is reading past the end of
    the object, and every function below reports it as a fault instead of inventing a byte.
  \<^item> A C function that may fault returns a value of type \<open>c_fault + 'a\<close>: \<open>Inl\<close> is undefined
    behaviour of the C program (named), \<open>Inr\<close> its result. Error codes are results, not faults.
  \<^item> \<open>int\<close> is Isabelle's \<open>int\<close> with \<open>int32\<close> written where the arithmetic can leave the range;
    \<open>size_t\<close> is \<open>64 word\<close> where its wrap-around is visible.
\<close>

section \<open>Collections\<close>

named_theorems c_string_simps \<open>evaluation of the string functions on well-formed strings\<close>
named_theorems c_result_splits \<open>case splits for results that may fault\<close>
named_theorems c_cases \<open>a case distinction that has a given value, as the disjunction of its branches\<close>

lemmas [c_result_splits] = sum.split sum.split_asm option.split option.split_asm
  if_split if_split_asm prod.split prod.split_asm

section \<open>Bytes, faults and machine integers\<close>

datatype c_fault =
    Out_of_bounds     \<comment> \<open>a read outside the object\<close>
  | Buffer_overflow   \<comment> \<open>a write outside the object\<close>
  | Null_deref        \<comment> \<open>a null pointer is dereferenced\<close>
  | Uninitialised     \<comment> \<open>an object is used before anything is stored in it\<close>
  | Use_after_free    \<comment> \<open>an object is used after \<open>free\<close>\<close>
  | Bad_format        \<comment> \<open>a conversion of \<open>printf\<close> whose argument is missing or of another type\<close>
  | Diverges          \<comment> \<open>a loop whose exit condition can never become true\<close>

type_synonym 'a c_result = "c_fault + 'a"
type_synonym ptr = "char list"
type_synonym size_t = "64 word"

abbreviation NUL :: char where "NUL \<equiv> CHR 0x00"
abbreviation TAB :: char where "TAB \<equiv> CHR 0x09"
abbreviation LF :: char where "LF \<equiv> CHR 0x0A"
abbreviation CR :: char where "CR \<equiv> CHR 0x0D"
abbreviation SPACE :: char where "SPACE \<equiv> CHR 0x20"

text \<open>What the allocator does: which requests it grants, and what bytes fresh memory holds.\<close>

record allocator =
  can_alloc :: "nat \<Rightarrow> bool"
  junk :: "nat \<Rightarrow> char"

text \<open>The value an \<open>int\<close> object holds after a computation whose exact result is \<open>z\<close>.\<close>

definition int32 :: "int \<Rightarrow> int" where
  "int32 z = (z + 2 ^ 31) mod 2 ^ 32 - 2 ^ 31"

definition c_then :: "'a c_result \<Rightarrow> ('a \<Rightarrow> 'b c_result) \<Rightarrow> 'b c_result" where
  "c_then m f = (case m of Inl e \<Rightarrow> Inl e | Inr x \<Rightarrow> f x)"

section \<open>Strings\<close>

text \<open>The string a pointer denotes: the bytes before the terminator.\<close>

definition cstr :: "ptr \<Rightarrow> string" where
  "cstr p = takeWhile (\<lambda>c. c \<noteq> NUL) p"

fun c_strlen :: "ptr \<Rightarrow> nat c_result" where
  "c_strlen [] = Inl Out_of_bounds"
| "c_strlen (c # p) = (if c = NUL then Inr 0 else c_then (c_strlen p) (\<lambda>n. Inr (Suc n)))"

text \<open>The bytes \<open>strncat\<close> and \<open>strncpy\<close> take from their source.\<close>

fun c_strn :: "ptr \<Rightarrow> nat \<Rightarrow> string c_result" where
  "c_strn p 0 = Inr []"
| "c_strn [] (Suc n) = Inl Out_of_bounds"
| "c_strn (c # p) (Suc n) =
     (if c = NUL then Inr [] else c_then (c_strn p n) (\<lambda>s. Inr (c # s)))"

definition c_strncat :: "ptr \<Rightarrow> ptr \<Rightarrow> nat \<Rightarrow> ptr c_result" where
  "c_strncat dst src n =
     c_then (c_strlen dst) (\<lambda>k. c_then (c_strn src n) (\<lambda>s.
       if k + length s + 1 \<le> length dst
       then Inr (take k dst @ s @ [NUL] @ drop (k + length s + 1) dst)
       else Inl Buffer_overflow))"

text \<open>\<open>memcpy\<close> and \<open>memmove\<close> into the object at \<open>dst\<close>; \<open>src\<close> is read before anything is written.\<close>

definition c_memcpy :: "ptr \<Rightarrow> ptr \<Rightarrow> nat \<Rightarrow> ptr c_result" where
  "c_memcpy dst src n =
     (if length src < n then Inl Out_of_bounds
      else if length dst < n then Inl Buffer_overflow
      else Inr (take n src @ drop n dst))"

definition c_realloc :: "allocator \<Rightarrow> char list \<Rightarrow> nat \<Rightarrow> char list option" where
  "c_realloc m old n =
     (if can_alloc m n then Some (take n old @ map (junk m) [length old..<n]) else None)"

definition c_calloc :: "allocator \<Rightarrow> nat \<Rightarrow> char list option" where
  "c_calloc m n = (if can_alloc m n then Some (replicate n NUL) else None)"

text \<open>Position of the first occurrence of a string in another (\<open>strstr\<close>).\<close>

fun find_sub :: "string \<Rightarrow> string \<Rightarrow> nat option" where
  "find_sub sub [] = (if sub = [] then Some 0 else None)"
| "find_sub sub (c # s) =
     (if take (length sub) (c # s) = sub then Some 0 else map_option Suc (find_sub sub s))"

section \<open>Numbers in strings\<close>

definition is_digit :: "char \<Rightarrow> bool" where
  "is_digit c \<longleftrightarrow> 48 \<le> (of_char c :: nat) \<and> (of_char c :: nat) \<le> 57"

definition digit_val :: "char \<Rightarrow> nat" where
  "digit_val c = (of_char c :: nat) - 48"

definition digit_char :: "nat \<Rightarrow> char" where
  "digit_char d = char_of (48 + d)"

definition is_space :: "char \<Rightarrow> bool" where
  "is_space c \<longleftrightarrow> c \<in> set [SPACE, TAB, LF, CHR 0x0B, CHR 0x0C, CR]"

text \<open>\<open>%d\<close> and \<open>%ld\<close>.\<close>

fun dec_nat :: "nat \<Rightarrow> string" where
  "dec_nat n = (if n < 10 then [digit_char n] else dec_nat (n div 10) @ [digit_char (n mod 10)])"

definition dec_int :: "int \<Rightarrow> string" where
  "dec_int z = (if z < 0 then CHR ''-'' # dec_nat (nat (- z)) else dec_nat (nat z))"

text \<open>\<open>atoi\<close> is \<open>(int) strtol(p, NULL, 10)\<close>: white space, a sign, digits, then clamped to
  \<open>long\<close> and cut to \<open>int\<close>.\<close>

fun c_skip_space :: "ptr \<Rightarrow> ptr c_result" where
  "c_skip_space [] = Inl Out_of_bounds"
| "c_skip_space (c # p) = (if is_space c then c_skip_space p else Inr (c # p))"

fun c_digits :: "nat \<Rightarrow> ptr \<Rightarrow> nat c_result" where
  "c_digits acc [] = Inl Out_of_bounds"
| "c_digits acc (c # p) =
     (if is_digit c then c_digits (10 * acc + digit_val c) p else Inr acc)"

definition strtol_clamp :: "int \<Rightarrow> int" where
  "strtol_clamp z = max (- (2 ^ 63)) (min (2 ^ 63 - 1) z)"

fun c_signed :: "ptr \<Rightarrow> int c_result" where
  "c_signed [] = Inl Out_of_bounds"
| "c_signed (c # p) =
     (if c = CHR ''-'' then c_then (c_digits 0 p) (\<lambda>n. Inr (- int n))
      else if c = CHR ''+'' then c_then (c_digits 0 p) (\<lambda>n. Inr (int n))
      else c_then (c_digits 0 (c # p)) (\<lambda>n. Inr (int n)))"

definition c_atoi :: "ptr \<Rightarrow> int c_result" where
  "c_atoi p = c_then (c_skip_space p) (\<lambda>q. c_then (c_signed q)
     (\<lambda>z. Inr (int32 (strtol_clamp z))))"

text \<open>\<open>atoi\<close> of a string held in an object of its own.\<close>

definition atoi_str :: "string \<Rightarrow> int" where
  "atoi_str s = (case c_atoi (s @ [NUL]) of Inr z \<Rightarrow> z | Inl _ \<Rightarrow> 0)"

section \<open>Laws\<close>

lemma c_then_simps [simp]:
  "c_then (Inl e) f = Inl e"
  "c_then (Inr x) f = f x"
  by (simp_all add: c_then_def)

lemma c_then_cong [fundef_cong]:
  "m = m' \<Longrightarrow> (\<And>x. m' = Inr x \<Longrightarrow> f x = f' x) \<Longrightarrow> c_then m f = c_then m' f'"
  by (cases m') simp_all

lemma c_then_Inr:
  "c_then m f = Inr y \<longleftrightarrow> (\<exists>x. m = Inr x \<and> f x = Inr y)"
  by (cases m) simp_all

lemma case_option_eq [c_cases]:
  "(case v of None \<Rightarrow> a | Some x \<Rightarrow> f x) = y \<longleftrightarrow> v = None \<and> a = y \<or> (\<exists>x. v = Some x \<and> f x = y)"
  by (cases v) simp_all

lemma case_sum_eq [c_cases]:
  "(case v of Inl x \<Rightarrow> f x | Inr x \<Rightarrow> g x) = y \<longleftrightarrow> (\<exists>x. v = Inl x \<and> f x = y) \<or> (\<exists>x. v = Inr x \<and> g x = y)"
  by (cases v) simp_all

lemma case_prod_eq [c_cases]: "(case v of (a, b) \<Rightarrow> f a b) = y \<longleftrightarrow> (\<exists>a b. v = (a, b) \<and> f a b = y)"
  by (cases v) simp

lemmas [c_cases] = c_then_Inr

lemma int32_id [simp]: "- (2 ^ 31) \<le> z \<Longrightarrow> z < 2 ^ 31 \<Longrightarrow> int32 z = z"
  by (simp add: int32_def)

lemma int32_range: "- (2 ^ 31) \<le> int32 z" "int32 z < 2 ^ 31"
  unfolding int32_def using pos_mod_bound [of "2 ^ 32" "z + 2 ^ 31"] by simp_all

lemma atoi_str_range: "- (2 ^ 31) \<le> atoi_str s" "atoi_str s < 2 ^ 31"
  using int32_range by (auto simp: atoi_str_def c_atoi_def c_then_def split: sum.splits)

lemma int32_sint: "int32 z = sint (word_of_int z :: 32 word)"
  by (simp add: int32_def sint_sbintrunc' signed_take_bit_eq_take_bit_shift take_bit_eq_mod)

lemma unat_of_nat64 [simp]: "n < 2 ^ 64 \<Longrightarrow> unat (of_nat n :: size_t) = n"
  by (simp add: unat_of_nat)

lemma unat_lt64: "unat (x :: size_t) < 2 ^ 64"
  using unsigned_less [where 'a = nat, of x] by simp

lemma sint_small64:
  assumes "unat (x :: size_t) < 2 ^ 63"
  shows "sint x = int (unat x)"
proof -
  have "int (unat x) < int (2 ^ 63)" using assms by (simp only: of_nat_less_iff)
  then have u: "uint x < 2 ^ 63" by simp
  have "- (2 ^ 63) \<le> uint x" by (rule order_trans [OF _ uint_ge_0]) simp
  then have "signed_take_bit 63 (uint x) = uint x" using u by (rule signed_take_bit_int_eq_self)
  then show ?thesis by (simp add: sint_uint)
qed

subsection \<open>Strings in memory\<close>

lemma cstr_terminated [c_string_simps, simp]: "NUL \<notin> set s \<Longrightarrow> cstr (s @ NUL # r) = s"
  unfolding cstr_def by (induction s) auto

lemma cstr_noNUL [simp]: "NUL \<notin> set (cstr p)"
  unfolding cstr_def by (auto dest: set_takeWhileD)

lemma cstr_split:
  assumes "NUL \<in> set p"
  obtains r where "p = cstr p @ NUL # r"
proof -
  from assms obtain s r where p: "p = s @ NUL # r" and s: "NUL \<notin> set s"
    by (meson split_list_first)
  from s have "cstr p = s" unfolding p by simp
  with p show thesis by (intro that) simp
qed

lemma length_cstr: "NUL \<in> set p \<Longrightarrow> length (cstr p) < length p"
  by (metis cstr_noNUL cstr_split length_append length_Cons less_add_Suc1 add_Suc_right)

lemma c_strlen_terminated [c_string_simps, simp]:
  "NUL \<notin> set s \<Longrightarrow> c_strlen (s @ NUL # r) = Inr (length s)"
  by (induction s) auto

lemma c_strlen_cstr: "NUL \<in> set p \<Longrightarrow> c_strlen p = Inr (length (cstr p))"
  by (erule cstr_split) (metis c_strlen_terminated cstr_noNUL)

lemma c_strn_whole [c_string_simps, simp]:
  "NUL \<notin> set s \<Longrightarrow> c_strn (s @ r) (length s) = Inr s"
  by (induction s) auto

lemma c_strn_whole' [simp]:
  "NUL \<notin> set s \<Longrightarrow> c_strn s (length s) = Inr s"
  using c_strn_whole [of s "[]"] by simp

lemma c_strn_prefix: "NUL \<notin> set s \<Longrightarrow> c_strn (s @ r) (length s) = Inr s"
  by (induction s) auto

subsection \<open>Numbers\<close>

lemma digit_char_digit [simp]: "d < 10 \<Longrightarrow> is_digit (digit_char d)"
  unfolding is_digit_def digit_char_def by simp

lemma digit_val_char [simp]: "d < 10 \<Longrightarrow> digit_val (digit_char d) = d"
  unfolding digit_val_def digit_char_def by simp

lemma digit_char_0 [simp]: "digit_char 0 = CHR ''0''"
  unfolding digit_char_def by code_simp

declare dec_nat.simps [simp del]

lemma dec_nat_small [simp]: "n < 10 \<Longrightarrow> dec_nat n = [digit_char n]"
  by (simp add: dec_nat.simps)

lemma dec_nat_digits: "c \<in> set (dec_nat n) \<Longrightarrow> is_digit c"
proof (induction n rule: dec_nat.induct)
  case (1 n)
  show ?case
  proof (cases "n < 10")
    case True
    with 1(2) show ?thesis by (simp add: dec_nat.simps)
  next
    case False
    with 1 show ?thesis by (auto simp: dec_nat.simps [of n])
  qed
qed

lemma not_digit [simp]:
  "\<not> is_digit LF" "\<not> is_digit NUL" "\<not> is_digit (CHR ''-'')" "\<not> is_digit (CHR ''+'')"
  "\<not> is_digit SPACE" "\<not> is_digit CR" "\<not> is_digit TAB" "\<not> is_digit (CHR ''_'')"
  "\<not> is_digit (CHR ''/'')"
  unfolding is_digit_def by simp_all

lemma digit_not_space: "is_digit c \<Longrightarrow> \<not> is_space c"
  unfolding is_digit_def is_space_def by auto

lemma dec_nat_noNUL [simp]: "NUL \<notin> set (dec_nat n)"
  using dec_nat_digits not_digit by blast

lemma dec_nat_noLF [simp]: "LF \<notin> set (dec_nat n)"
  using dec_nat_digits not_digit by blast

lemma dec_nat_nonempty [simp]: "dec_nat n \<noteq> []"
  by (subst dec_nat.simps) simp

lemma c_digits_dec_nat:
  "c_digits acc (dec_nat n @ r) = c_digits (acc * 10 ^ length (dec_nat n) + n) r"
proof (induction n arbitrary: acc r rule: dec_nat.induct)
  case (1 n)
  show ?case
  proof (cases "n < 10")
    case True
    then show ?thesis by (simp add: mult.commute)
  next
    case False
    then have "c_digits acc (dec_nat n @ r)
      = c_digits acc (dec_nat (n div 10) @ digit_char (n mod 10) # r)"
      by (simp add: dec_nat.simps [of n])
    also have "\<dots> = c_digits (acc * 10 ^ length (dec_nat (n div 10)) + n div 10)
        (digit_char (n mod 10) # r)"
      using False by (rule 1)
    also have "\<dots> = c_digits (10 * (acc * 10 ^ length (dec_nat (n div 10)) + n div 10) + n mod 10) r"
      by simp
    also have "10 * (acc * 10 ^ length (dec_nat (n div 10)) + n div 10) + n mod 10
        = acc * 10 ^ length (dec_nat n) + n"
      using False by (simp add: dec_nat.simps [of n])
    finally show ?thesis .
  qed
qed

lemma c_signed_dec_nat:
  assumes "\<not> is_digit c"
  shows "c_signed (dec_nat n @ c # r) = Inr (int n)"
proof -
  obtain d ds where d: "dec_nat n = d # ds" by (cases "dec_nat n") auto
  then have "is_digit d" using dec_nat_digits [of d n] by simp
  then have "d \<noteq> CHR ''-''" "d \<noteq> CHR ''+''" using not_digit by metis+
  then have "c_signed (dec_nat n @ c # r) = c_then (c_digits 0 (dec_nat n @ c # r)) (\<lambda>n. Inr (int n))"
    using d by simp
  then show ?thesis using assms by (simp add: c_digits_dec_nat)
qed

lemma c_skip_space_dec_nat: "c_skip_space (dec_nat n @ r) = Inr (dec_nat n @ r)"
proof -
  obtain d ds where d: "dec_nat n = d # ds" by (cases "dec_nat n") auto
  then have "is_digit d" using dec_nat_digits [of d n] by simp
  then show ?thesis using d by (simp add: digit_not_space)
qed

text \<open>Printing a non-negative \<open>int\<close> and reading it back gives the number.\<close>

lemma c_atoi_dec_nat [c_string_simps]:
  assumes "n < 2 ^ 31" "\<not> is_digit c"
  shows "c_atoi (dec_nat n @ c # r) = Inr (int n)"
proof -
  have "int n < 2 ^ 31" using assms(1) by (simp add: of_nat_less_numeral_power_cancel_iff)
  then have "strtol_clamp (int n) = int n" by (simp add: strtol_clamp_def)
  then show ?thesis
    unfolding c_atoi_def using \<open>int n < 2 ^ 31\<close> assms(2)
    by (simp add: c_skip_space_dec_nat c_signed_dec_nat)
qed

lemma length_dec_nat_5: "n < 100000 \<Longrightarrow> length (dec_nat n) \<le> 5"
  by (simp add: dec_nat.simps)

lemma dec_nat_inject: "dec_nat m = dec_nat n \<longleftrightarrow> m = n"
proof
  assume "dec_nat m = dec_nat n"
  then have "c_digits 0 (dec_nat m @ [NUL]) = c_digits 0 (dec_nat n @ [NUL])" by simp
  then show "m = n" by (simp add: c_digits_dec_nat)
qed simp

lemma append_Cons_eq_iff:
  "c \<notin> set s \<Longrightarrow> c \<notin> set t \<Longrightarrow> s @ c # u = t @ c # v \<longleftrightarrow> s = t \<and> u = v"
  by (induction s arbitrary: t) (case_tac t; auto)+

lemma find_sub_char:
  "c \<notin> set s \<Longrightarrow> find_sub [c] (s @ c # r) = Some (length s)"
  by (induction s) auto

lemma find_sub_char_None: "c \<notin> set s \<Longrightarrow> find_sub [c] s = None"
  by (induction s) auto

lemma dec_int_chars: "c \<in> set (dec_int z) \<Longrightarrow> is_digit c \<or> c = CHR ''-''"
  using dec_nat_digits by (auto simp: dec_int_def split: if_splits)

lemma dec_int_inject: "dec_int a = dec_int b \<longleftrightarrow> a = b"
proof
  have minus: "CHR ''-'' \<notin> set (dec_nat n)" for n using dec_nat_digits not_digit by blast
  have neq: "CHR ''-'' # s \<noteq> dec_nat n" for s n using minus [of n] by (metis list.set_intros(1))
  assume "dec_int a = dec_int b"
  then show "a = b"
    using neq by (auto simp: dec_int_def dec_nat_inject split: if_splits) (metis neq)+
qed simp

lemma dec_int_noUnderscore [simp]: "CHR ''_'' \<notin> set (dec_int z)"
  using dec_int_chars [of "CHR ''_''"] by auto

lemma dec_int_noSlash [simp]: "CHR ''/'' \<notin> set (dec_int z)"
  using dec_int_chars [of "CHR ''/''"] by auto

text \<open>The number of characters of a number.\<close>

lemma length_dec_nat_bound: "n < 10 ^ k \<Longrightarrow> 0 < k \<Longrightarrow> length (dec_nat n) \<le> k"
proof (induction k arbitrary: n)
  case (Suc k)
  show ?case
  proof (cases "n < 10")
    case False
    then have "k \<noteq> 0" using Suc.prems by (intro notI) simp
    moreover have "n div 10 < 10 ^ k" using Suc.prems(1) by (simp add: div_less_iff_less_mult mult.commute)
    ultimately show ?thesis using Suc.IH [of "n div 10"] False by (simp add: dec_nat.simps [of n])
  qed simp
qed simp

lemma length_dec_int32: "length (dec_int (int32 z)) \<le> 11"
proof -
  have "nat (- int32 z) < 10 ^ 10" "nat (int32 z) < 10 ^ 10" using int32_range [of z] by simp_all
  then have "length (dec_nat (nat (- int32 z))) \<le> 10" "length (dec_nat (nat (int32 z))) \<le> 10"
    by (simp_all add: length_dec_nat_bound)
  then show ?thesis by (simp add: dec_int_def)
qed

end
