(* ===== verification/Judge_Types.thy ===== *)
theory Judge_Types
  imports Prelude_C
begin

text \<open>
  The enumerations the components exchange (\<open>src/def.h\<close>, \<open>src/sandbox.h\<close>) with the integer each
  constant stands for in C: a result travels between processes as an exit status, so the integers
  matter.
\<close>

datatype jug_lang_enum = LANG_C | LANG_CPP | LANG_JAVA | LANG_PHP | LANG_PYTHON

datatype jug_verdict_enum =
    VERDICT_ACCEPTED
  | VERDICT_WRONG
  | VERDICT_COMPILE_ERROR
  | VERDICT_TIMELIMIT
  | VERDICT_MEMLIMIT
  | VERDICT_OUTPUTLIMIT
  | VERDICT_RUNTIME
  | VERDICT_INTERNAL

datatype jug_sandbox_result =
    JS_CORRECT
  | JS_WRONG
  | JS_TIMELIMIT
  | JS_WALL_TIMELIMIT
  | JS_MEMLIMIT
  | JS_OUTPUTLIMIT
  | JS_RUNTIME
  | JS_PIPE_ERROR
  | JS_COMP_ERROR
  | JS_UNKNOWN

datatype js_bin_state =
    JS_BIN_NOTSTARTED
  | JS_BIN_RUNNING
  | JS_BIN_WALLTIMEOUT
  | JS_BIN_TIMEOUT
  | JS_BIN_COMPOUT

text \<open>The integer of each constant.\<close>

fun verdict_int :: "jug_verdict_enum \<Rightarrow> int" where
  "verdict_int VERDICT_ACCEPTED = 0"
| "verdict_int VERDICT_WRONG = 1"
| "verdict_int VERDICT_COMPILE_ERROR = 2"
| "verdict_int VERDICT_TIMELIMIT = 3"
| "verdict_int VERDICT_MEMLIMIT = 4"
| "verdict_int VERDICT_OUTPUTLIMIT = 5"
| "verdict_int VERDICT_RUNTIME = 6"
| "verdict_int VERDICT_INTERNAL = 7"

fun result_int :: "jug_sandbox_result \<Rightarrow> int" where
  "result_int JS_CORRECT = 0"
| "result_int JS_WRONG = 1"
| "result_int JS_TIMELIMIT = 2"
| "result_int JS_WALL_TIMELIMIT = 3"
| "result_int JS_MEMLIMIT = 4"
| "result_int JS_OUTPUTLIMIT = 5"
| "result_int JS_RUNTIME = 6"
| "result_int JS_PIPE_ERROR = 7"
| "result_int JS_COMP_ERROR = 8"
| "result_int JS_UNKNOWN = 9"

text \<open>The C order of an enumeration is the order of its integers.\<close>

instantiation jug_verdict_enum :: linorder
begin

definition less_eq_jug_verdict_enum :: "jug_verdict_enum \<Rightarrow> jug_verdict_enum \<Rightarrow> bool" where
  "less_eq_jug_verdict_enum a b \<longleftrightarrow> verdict_int a \<le> verdict_int b"

definition less_jug_verdict_enum :: "jug_verdict_enum \<Rightarrow> jug_verdict_enum \<Rightarrow> bool" where
  "less_jug_verdict_enum a b \<longleftrightarrow> verdict_int a < verdict_int b"

instance
proof
  fix x y :: jug_verdict_enum
  assume "x \<le> y" "y \<le> x"
  then show "x = y"
    by (cases x; cases y) (simp_all add: less_eq_jug_verdict_enum_def)
qed (auto simp: less_eq_jug_verdict_enum_def less_jug_verdict_enum_def)

end

instantiation jug_sandbox_result :: linorder
begin

definition less_eq_jug_sandbox_result :: "jug_sandbox_result \<Rightarrow> jug_sandbox_result \<Rightarrow> bool" where
  "less_eq_jug_sandbox_result a b \<longleftrightarrow> result_int a \<le> result_int b"

definition less_jug_sandbox_result :: "jug_sandbox_result \<Rightarrow> jug_sandbox_result \<Rightarrow> bool" where
  "less_jug_sandbox_result a b \<longleftrightarrow> result_int a < result_int b"

instance
proof
  fix x y :: jug_sandbox_result
  assume "x \<le> y" "y \<le> x"
  then show "x = y"
    by (cases x; cases y) (simp_all add: less_eq_jug_sandbox_result_def)
qed (auto simp: less_eq_jug_sandbox_result_def less_jug_sandbox_result_def)

end

text \<open>The constant an integer stands for, as the cast \<open>(jug_sandbox_result)\<close> reads it; an integer that
  is no constant keeps its own value in C and is \<open>None\<close> here.\<close>

definition int_result :: "int \<Rightarrow> jug_sandbox_result option" where
  "int_result z = (if z = 0 then Some JS_CORRECT else if z = 1 then Some JS_WRONG
     else if z = 2 then Some JS_TIMELIMIT else if z = 3 then Some JS_WALL_TIMELIMIT
     else if z = 4 then Some JS_MEMLIMIT else if z = 5 then Some JS_OUTPUTLIMIT
     else if z = 6 then Some JS_RUNTIME else if z = 7 then Some JS_PIPE_ERROR
     else if z = 8 then Some JS_COMP_ERROR else if z = 9 then Some JS_UNKNOWN else None)"

lemma int_result_int [simp]: "int_result (result_int r) = Some r"
  by (cases r) (simp_all add: int_result_def)

lemma result_int_range: "0 \<le> result_int r" "result_int r \<le> 9"
  by (cases r; simp)+

end
