(* ===== verification/Iniparser.thy ===== *)
theory Iniparser
  imports Prelude_C
begin

text \<open>
  The reader of \<open>.ini\<close> files (\<open>src/iniparser/iniparser.c\<close>). The line buffer \<open>tmp\<close> is kept as the object it
  is, with its capacity, the bytes that earlier lines left behind and the terminators that the parser
  writes into it: the code takes keys and values out of it by index, and some of the indices lie past
  the end of the line. The name of a section is \<open>None\<close> while nothing has been stored in it. The section
  ends with what parsing gives for the printed form of a configuration and with the look-up.
\<close>

section \<open>State\<close>

datatype ini_states = START | NEW_SECTION | IN_SECTION | END_OF_FILE

record read_ini =
  ini_fin :: string
  ini_tmp :: "char list"
  current_line :: int
  ini_state :: ini_states

text \<open>A section: its name and its keys with their values, in order.\<close>

record ini_section =
  sec_name :: "string option"
  sec_configs :: "(string \<times> string) list"

type_synonym ini = "ini_section list"

section \<open>Lines\<close>

definition ini_blank :: "char \<Rightarrow> bool" where
  "ini_blank c \<longleftrightarrow> c = SPACE \<or> c = TAB \<or> c = LF \<or> c = CR"

text \<open>\<open>trim\<close>: the first index from \<open>i\<close> on below \<open>e\<close>, and the last index from \<open>b\<close> on below \<open>n\<close>, of a
  character that is not blank; \<open>b - 1\<close> when there is none.\<close>

function trim_begin :: "char list \<Rightarrow> nat \<Rightarrow> nat \<Rightarrow> nat" where
  "trim_begin str i e = (if i < e \<and> ini_blank (str ! i) then trim_begin str (Suc i) e else i)"
  by pat_completeness auto
termination by (relation "measure (\<lambda>(str, i, e). e - i)") auto

fun trim_end :: "char list \<Rightarrow> nat \<Rightarrow> nat \<Rightarrow> int" where
  "trim_end str b 0 = -1"
| "trim_end str b (Suc n) = (if b \<le> n \<and> ini_blank (str ! n) then trim_end str b n else int n)"

text \<open>\<open>read_line\<close>: whether the line has a character, and the new state. The buffer is doubled when the next
  index is outside it.\<close>

fun read_chars :: "allocator \<Rightarrow> char list \<Rightarrow> nat \<Rightarrow> string \<Rightarrow> (bool \<times> char list \<times> nat \<times> string) c_result" where
  "read_chars mem tmp i src =
     c_then (if i \<ge> length tmp
             then (case c_realloc mem tmp (2 * length tmp) of None \<Rightarrow> Inl Null_deref | Some t \<Rightarrow> Inr t)
             else Inr tmp)
       (\<lambda>tmp1. case src of
           [] \<Rightarrow> Inr (True, tmp1, i, [])
         | c # cs \<Rightarrow> if c = CR \<or> c = LF then Inr (False, tmp1, i, cs)
                    else if i < length tmp1 then read_chars mem (tmp1[i := c]) (Suc i) cs
                    else Inl Buffer_overflow)"

definition read_line :: "allocator \<Rightarrow> read_ini \<Rightarrow> (bool \<times> read_ini) c_result" where
  "read_line mem r = c_then (read_chars mem (ini_tmp r) 0 (ini_fin r)) (\<lambda>(at_eof, tmp, i, fin).
     let r1 = r\<lparr>ini_fin := fin, ini_tmp := (if i > 0 then tmp[i := NUL] else tmp)\<rparr>;
         r2 = (if at_eof then r1\<lparr>ini_state := END_OF_FILE\<rparr>
               else r1\<lparr>current_line := current_line r1 + 1\<rparr>) in
     Inr (i > 0, r2))"

section \<open>Keys and values\<close>

text \<open>The first index from \<open>i\<close> on below \<open>e1\<close> of a separator, \<open>e1\<close> if there is none (or \<open>i\<close> if it is not
  below \<open>e1\<close>).\<close>

function find_sep :: "char list \<Rightarrow> nat \<Rightarrow> nat \<Rightarrow> nat" where
  "find_sep tmp i e1 =
     (if i < e1 \<and> \<not> (tmp ! i = CHR '':'' \<or> tmp ! i = CHR ''='') then find_sep tmp (Suc i) e1 else i)"
  by pat_completeness auto
termination by (relation "measure (\<lambda>(tmp, i, e1). e1 - i)") auto

definition store :: "char list \<Rightarrow> nat \<Rightarrow> char \<Rightarrow> char list c_result" where
  "store tmp i c = (if i < length tmp then Inr (tmp[i := c]) else Inl Buffer_overflow)"

text \<open>\<open>strdup(&tmp[x])\<close>.\<close>

definition dup_at :: "char list \<Rightarrow> nat \<Rightarrow> string c_result" where
  "dup_at tmp x = c_then (c_strlen (drop x tmp)) (\<lambda>n. Inr (take n (drop x tmp)))"

text \<open>Trim, terminate and copy the part of the buffer between \<open>x\<close> and \<open>y\<close>.\<close>

definition cut_field :: "char list \<Rightarrow> nat \<Rightarrow> nat \<Rightarrow> (string \<times> char list) c_result" where
  "cut_field tmp x y =
     c_then (store tmp (nat (trim_end tmp x y + 1)) NUL) (\<lambda>tmp1.
     c_then (dup_at tmp1 (trim_begin tmp x y)) (\<lambda>s. Inr (s, tmp1)))"

definition parse_config :: "char list \<Rightarrow> nat \<Rightarrow> int \<Rightarrow> ((string \<times> string) \<times> char list) c_result" where
  "parse_config tmp b e =
     (let i = find_sep tmp b (nat (e + 1)) in
      c_then (cut_field tmp b i) (\<lambda>(key, tmp1).
      c_then (cut_field tmp1 (i + 1) (nat (e + 1))) (\<lambda>(val, tmp2).
        Inr ((key, val), tmp2))))"

section \<open>Sections\<close>

fun state_rank :: "ini_states \<Rightarrow> nat" where
  "state_rank NEW_SECTION = 2"
| "state_rank START = 1"
| "state_rank IN_SECTION = 1"
| "state_rank END_OF_FILE = 0"

declare read_chars.simps [simp del] trim_begin.simps [simp del] find_sep.simps [simp del]

lemma read_chars_shorter:
  "read_chars mem tmp i src = Inr (eof, tmp', i', fin) \<Longrightarrow>
     (if src = [] then fin = [] \<and> eof \<and> i' = i else length fin < length src)"
proof (induction src arbitrary: tmp i)
  case Nil
  then show ?case by (auto simp: c_then_Inr read_chars.simps)
next
  case (Cons c cs)
  from Cons.prems obtain t where
    "(if c = CR \<or> c = LF then Inr (False, t, i, cs)
      else if i < length t then read_chars mem (t[i := c]) (Suc i) cs else Inl Buffer_overflow) =
     Inr (eof, tmp', i', fin)"
    by (subst (asm) read_chars.simps) (auto simp: c_then_Inr)
  then show ?case using Cons.IH [of "t[i := c]" "Suc i"] by (auto split: if_splits)
qed

lemma read_line_shorter:
  assumes "read_line mem r = Inr (new, r')"
  shows "length (ini_fin r') < length (ini_fin r) \<or>
    ini_fin r = [] \<and> ini_fin r' = [] \<and> \<not> new \<and> ini_state r' = END_OF_FILE"
proof -
  obtain eof tmp i fin where c: "read_chars mem (ini_tmp r) 0 (ini_fin r) = Inr (eof, tmp, i, fin)"
    using assms by (cases "read_chars mem (ini_tmp r) 0 (ini_fin r)") (auto simp: read_line_def)
  with assms have "new = (i > 0)" "ini_fin r' = fin" "eof \<longrightarrow> ini_state r' = END_OF_FILE"
    by (auto simp: read_line_def Let_def)
  then show ?thesis using read_chars_shorter [OF c] by (auto split: if_splits)
qed

lemma state_rank_0: "state_rank q = 0 \<longleftrightarrow> q = END_OF_FILE"
  by (cases q) simp_all

text \<open>What an iteration of \<open>parse_section\<close> does with the line in the buffer: the section and the reader
  after it, and whether the loop goes on. A header seen in any state but \<open>IN_SECTION\<close> names the section
  that is being read. (In state \<open>NEW_SECTION\<close> the line in the buffer is the header that led to it; were
  it anything else, the loop would not end.)\<close>

definition section_line :: "read_ini \<Rightarrow> ini_section \<Rightarrow> (ini_section \<times> read_ini \<times> bool) c_result" where
  "section_line r sec = c_then (c_strlen (ini_tmp r)) (\<lambda>e0.
     let tmp = ini_tmp r; b = trim_begin tmp 0 e0; e = trim_end tmp 0 e0 in
     if tmp ! b = CHR ''#'' \<or> tmp ! b = CHR '';'' then
       (if ini_state r = NEW_SECTION then Inl Diverges else Inr (sec, r, True))
     else if tmp ! b = CHR ''['' then
       if ini_state r = IN_SECTION then Inr (sec, r\<lparr>ini_state := NEW_SECTION\<rparr>, False)
       else c_then (store tmp (nat e) NUL) (\<lambda>tmp1. c_then (dup_at tmp1 (b + 1)) (\<lambda>name.
         Inr (sec\<lparr>sec_name := Some name\<rparr>, r\<lparr>ini_tmp := tmp1, ini_state := IN_SECTION\<rparr>, True)))
     else if ini_state r = NEW_SECTION then Inl Diverges
     else c_then (parse_config tmp b e) (\<lambda>(cfg, tmp1).
       Inr (sec\<lparr>sec_configs := sec_configs sec @ [cfg]\<rparr>, r\<lparr>ini_tmp := tmp1\<rparr>, True)))"

definition section_step ::
  "allocator \<Rightarrow> read_ini \<Rightarrow> ini_section \<Rightarrow> (ini_section \<times> read_ini \<times> bool) c_result" where
  "section_step mem r sec =
     c_then (if ini_state r = NEW_SECTION then Inr (True, r) else read_line mem r) (\<lambda>(new, r1).
       if new then section_line r1 sec else Inr (sec, r1, True))"

definition ini_measure :: "(read_ini \<times> read_ini) set" where
  "ini_measure = measures [\<lambda>r. length (ini_fin r), \<lambda>r. state_rank (ini_state r)]"

lemma section_line_shape:
  assumes "section_line r sec = Inr (sec', r', go)"
  shows "ini_fin r' = ini_fin r" "\<not> go \<Longrightarrow> ini_state r' = NEW_SECTION \<and> ini_state r = IN_SECTION"
    "go \<Longrightarrow> ini_state r = NEW_SECTION \<Longrightarrow> ini_state r' = IN_SECTION"
  using assms by (auto simp: section_line_def c_then_Inr Let_def split: if_splits)

lemma section_step_shape:
  assumes "section_step mem r sec = Inr (sec', r', go)" "ini_state r \<noteq> END_OF_FILE"
  shows "go \<Longrightarrow> (r', r) \<in> ini_measure"
    "\<not> go \<Longrightarrow> ini_state r' = NEW_SECTION \<and> length (ini_fin r') < length (ini_fin r)"
    "length (ini_fin r') \<le> length (ini_fin r)"
proof -
  obtain new r1 where step:
      "(if ini_state r = NEW_SECTION then Inr (True, r) else read_line mem r) = Inr (new, r1)"
      "(if new then section_line r1 sec else Inr (sec, r1, True)) = Inr (sec', r', go)"
    using assms(1) by (auto simp: section_step_def c_then_Inr)
  then consider "ini_state r = NEW_SECTION" "r1 = r" "new" |
      "length (ini_fin r1) < length (ini_fin r)" |
      "ini_fin r = []" "ini_fin r1 = []" "\<not> new" "ini_state r1 = END_OF_FILE"
    by (auto split: if_splits dest: read_line_shorter)
  note cases = this
  show "go \<Longrightarrow> (r', r) \<in> ini_measure"
    using cases
    by cases (use step(2) assms(2) in \<open>auto simp: ini_measure_def neq0_conv [symmetric] state_rank_0
        split: if_splits dest: section_line_shape\<close>)
  show "\<not> go \<Longrightarrow> ini_state r' = NEW_SECTION \<and> length (ini_fin r') < length (ini_fin r)"
    using cases by cases (use step(2) in \<open>auto split: if_splits dest: section_line_shape\<close>)
  show "length (ini_fin r') \<le> length (ini_fin r)"
    using cases by cases (use step(2) in \<open>auto split: if_splits dest: section_line_shape\<close>)
qed

function parse_section :: "allocator \<Rightarrow> read_ini \<Rightarrow> ini_section \<Rightarrow> (ini_section \<times> read_ini) c_result" where
  "parse_section mem r sec =
     (if ini_state r = END_OF_FILE then Inr (sec, r)
      else c_then (section_step mem r sec) (\<lambda>(sec', r', go).
        if go then parse_section mem r' sec' else Inr (sec', r')))"
  by pat_completeness auto
termination
proof (relation "inv_image ini_measure (\<lambda>(mem, r, sec). r)", goal_cases)
  case 1
  then show ?case by (simp add: ini_measure_def)
next
  case (2 mem r sec x sec1 y r1 go)
  then show ?case using section_step_shape(1) [of mem r sec sec1 r1 go] by simp
qed

declare parse_section.simps [simp del]

text \<open>\<open>parse_section\<close> ends at the end of the file or at a header it has read.\<close>

lemma parse_section_state:
  "parse_section mem r sec = Inr (sec', r') \<Longrightarrow>
     ini_state r' = END_OF_FILE \<or> ini_state r' = NEW_SECTION \<and> length (ini_fin r') < length (ini_fin r)"
proof (induction mem r sec rule: parse_section.induct)
  case (1 mem r sec)
  show ?case
  proof (cases "ini_state r = END_OF_FILE")
    case True
    then show ?thesis using 1(2) by (simp add: parse_section.simps [of mem r])
  next
    case False
    then obtain sec1 r1 go where step: "section_step mem r sec = Inr (sec1, r1, go)"
        "(if go then parse_section mem r1 sec1 else Inr (sec1, r1)) = Inr (sec', r')"
      using 1(2) by (auto simp: parse_section.simps [of mem r] c_then_Inr)
    then show ?thesis
      using 1(1) [OF False step(1) refl refl] section_step_shape [OF step(1) False]
      by (cases go) auto
  qed
qed

section \<open>Files\<close>

definition new_section :: ini_section where
  "new_section = \<lparr>sec_name = None, sec_configs = []\<rparr>"

function parse_ini :: "allocator \<Rightarrow> read_ini \<Rightarrow> ini \<Rightarrow> ini c_result" where
  "parse_ini mem r ini =
     (if ini_state r = START \<or> ini_state r = NEW_SECTION then
        c_then (parse_section mem r new_section) (\<lambda>(sec, r'). parse_ini mem r' (ini @ [sec]))
      else Inr ini)"
  by pat_completeness auto
termination
  by (relation "measure (\<lambda>(mem, r, ini). if ini_state r = END_OF_FILE then 0 else Suc (length (ini_fin r)))")
    (auto dest!: parse_section_state)

text \<open>\<open>None\<close> is a file that cannot be opened: its null pointer is read from. \<open>tmp\<close> starts with room for four
  bytes.\<close>

definition read_ini :: "allocator \<Rightarrow> string option \<Rightarrow> ini c_result" where
  "read_ini mem src = (case src of
       None \<Rightarrow> Inl Null_deref
     | Some s \<Rightarrow> parse_ini mem \<lparr>ini_fin = s, ini_tmp = map (junk mem) [0..<4], current_line = 0,
         ini_state = START\<rparr> [])"

text \<open>The first value of the key in a section of that name; comparing with the name of a section that never
  got one reads an uninitialised pointer.\<close>

fun ini_get_value :: "ini \<Rightarrow> string \<Rightarrow> string \<Rightarrow> string option c_result" where
  "ini_get_value [] section key = Inr None"
| "ini_get_value (s # ini) section key = (case sec_name s of
       None \<Rightarrow> Inl Uninitialised
     | Some name \<Rightarrow>
         if name = section then
           (case map_of (sec_configs s) key of Some v \<Rightarrow> Inr (Some v) | None \<Rightarrow> ini_get_value ini section key)
         else ini_get_value ini section key)"

section \<open>The printed form of a configuration\<close>

definition header_line :: "string \<Rightarrow> string" where
  "header_line name = CHR ''['' # name @ '']''"

definition config_line :: "string \<times> string \<Rightarrow> string" where
  "config_line = (\<lambda>(k, v). k @ CHR ''='' # v)"

definition print_configs :: "(string \<times> string) list \<Rightarrow> string" where
  "print_configs kvs = concat (map (\<lambda>kv. config_line kv @ [LF]) kvs)"

definition print_ini :: "(string \<times> (string \<times> string) list) list \<Rightarrow> string" where
  "print_ini conf = concat (map (\<lambda>(name, kvs). header_line name @ LF # print_configs kvs) conf)"

text \<open>What can be printed: one line each, keys and values without blanks around them, keys without a
  separator that do not look like a comment or a header.\<close>

definition one_line :: "string \<Rightarrow> bool" where
  "one_line s \<longleftrightarrow> CR \<notin> set s \<and> LF \<notin> set s \<and> NUL \<notin> set s"

definition tidy :: "string \<Rightarrow> bool" where
  "tidy s \<longleftrightarrow> one_line s \<and> (s \<noteq> [] \<longrightarrow> \<not> ini_blank (hd s) \<and> \<not> ini_blank (last s))"

definition key_ok :: "string \<Rightarrow> bool" where
  "key_ok k \<longleftrightarrow> tidy k \<and> CHR '':'' \<notin> set k \<and> CHR ''='' \<notin> set k \<and>
     (k \<noteq> [] \<longrightarrow> hd k \<notin> {CHR ''#'', CHR '';'', CHR ''[''})"

definition conf_ok :: "(string \<times> (string \<times> string) list) list \<Rightarrow> bool" where
  "conf_ok conf \<longleftrightarrow> (\<forall>(name, kvs) \<in> set conf. one_line name \<and> (\<forall>(k, v) \<in> set kvs. key_ok k \<and> tidy v))"

text \<open>A configuration as it is written by hand: between the headers there are entries with blanks around the key and the
  value, and remarks, which are empty lines and comments.\<close>

datatype ini_item = Remark string | Entry string string string string string string

fun item_line :: "ini_item \<Rightarrow> string" where
  "item_line (Remark s) = s"
| "item_line (Entry a k b c v d) = a @ k @ b @ CHR ''='' # c @ v @ d"

fun item_entries :: "ini_item \<Rightarrow> (string \<times> string) list" where
  "item_entries (Remark s) = []"
| "item_entries (Entry a k b c v d) = [(k, v)]"

definition blanks :: "string \<Rightarrow> bool" where
  "blanks s \<longleftrightarrow> set s \<subseteq> {SPACE, TAB}"

fun item_ok :: "ini_item \<Rightarrow> bool" where
  "item_ok (Remark s) \<longleftrightarrow> one_line s \<and> (s \<noteq> [] \<longrightarrow> hd s = CHR ''#'' \<or> hd s = CHR '';'')"
| "item_ok (Entry a k b c v d) \<longleftrightarrow> blanks a \<and> blanks b \<and> blanks c \<and> blanks d \<and> key_ok k \<and> tidy v \<and>
     (k = [] \<longrightarrow> a = [] \<and> b = []) \<and> (v = [] \<longrightarrow> c = [] \<and> d = [])"

definition print_items :: "ini_item list \<Rightarrow> string" where
  "print_items items = concat (map (\<lambda>i. item_line i @ [LF]) items)"

definition print_layout :: "(string \<times> ini_item list) list \<Rightarrow> string" where
  "print_layout lay = concat (map (\<lambda>(name, items). header_line name @ LF # print_items items) lay)"

definition layout_ok :: "(string \<times> ini_item list) list \<Rightarrow> bool" where
  "layout_ok lay \<longleftrightarrow> (\<forall>(name, items) \<in> set lay. one_line name \<and> (\<forall>i \<in> set items. item_ok i))"

definition entries_of :: "ini_item list \<Rightarrow> (string \<times> string) list" where
  "entries_of items = concat (map item_entries items)"

definition layout_conf :: "(string \<times> ini_item list) list \<Rightarrow> (string \<times> (string \<times> string) list) list" where
  "layout_conf lay = map (\<lambda>(name, items). (name, entries_of items)) lay"

definition plain_items :: "(string \<times> string) list \<Rightarrow> ini_item list" where
  "plain_items kvs = map (\<lambda>(k, v). Entry [] k [] [] v []) kvs"

definition section_of :: "string \<times> (string \<times> string) list \<Rightarrow> ini_section" where
  "section_of = (\<lambda>(name, kvs). \<lparr>sec_name = Some name, sec_configs = kvs\<rparr>)"

section \<open>Laws of reading a line\<close>

lemma read_chars_line:
  assumes "\<And>n. can_alloc mem n" "CR \<notin> set s" "LF \<notin> set s" "i \<le> length tmp" "0 < length tmp"
  shows "\<exists>t. read_chars mem tmp i (s @ LF # rest) = Inr (False, t, i + length s, rest) \<and>
    take (i + length s) t = take i tmp @ s \<and> i + length s < length t"
  using assms(2-)
proof (induction s arbitrary: tmp i)
  case Nil
  then show ?case
    by (cases "i = length tmp") (simp_all add: read_chars.simps c_realloc_def assms(1))
next
  case (Cons c s)
  define t where "t = (if i = length tmp then tmp @ map (junk mem) [length tmp..<2 * length tmp] else tmp)"
  have t: "i < length t" "take i t = take i tmp" using Cons.prems by (auto simp: t_def)
  have step: "read_chars mem tmp i ((c # s) @ LF # rest) = read_chars mem (t[i := c]) (Suc i) (s @ LF # rest)"
    by (subst read_chars.simps) (use Cons.prems t in \<open>auto simp: t_def c_realloc_def assms(1)\<close>)
  obtain u where u: "read_chars mem (t[i := c]) (Suc i) (s @ LF # rest) = Inr (False, u, Suc i + length s, rest)"
      "take (Suc i + length s) u = take (Suc i) (t[i := c]) @ s" "Suc i + length s < length u"
    using Cons.IH [of "Suc i" "t[i := c]"] Cons.prems t by (cases "t = []") auto
  have "take (Suc i) (t[i := c]) = take i tmp @ [c]" using t by (simp add: take_Suc_conv_app_nth)
  then show ?case using u step by auto
qed

lemma read_line_at:
  assumes "\<And>n. can_alloc mem n" "CR \<notin> set s" "LF \<notin> set s" "s \<noteq> []" "ini_tmp r \<noteq> []"
    and "ini_fin r = s @ LF # rest"
  shows "\<exists>q. read_line mem r = Inr (True, r\<lparr>ini_fin := rest, ini_tmp := s @ NUL # q,
    current_line := current_line r + 1\<rparr>)"
proof -
  obtain t where t: "read_chars mem (ini_tmp r) 0 (ini_fin r) = Inr (False, t, length s, rest)"
      "take (length s) t = s" "length s < length t"
    using read_chars_line [OF assms(1-3), of 0 "ini_tmp r" rest] assms(5,6) by auto
  then have "t[length s := NUL] = s @ NUL # drop (Suc (length s)) t"
    by (simp add: upd_conv_take_nth_drop)
  then show ?thesis
    using t(1) assms(4) by (auto simp: read_line_def)
qed

lemma read_line_eof:
  assumes "\<And>n. can_alloc mem n" "ini_fin r = []" "ini_tmp r \<noteq> []"
  shows "read_line mem r = Inr (False, r\<lparr>ini_fin := [], ini_state := END_OF_FILE\<rparr>)"
  using assms by (simp add: read_line_def read_chars.simps)

section \<open>Laws of trimming\<close>

lemma trim_begin_stop: "i < e \<Longrightarrow> \<not> ini_blank (str ! i) \<Longrightarrow> trim_begin str i e = i"
  by (simp add: trim_begin.simps)

lemma trim_begin_empty: "e \<le> i \<Longrightarrow> trim_begin str i e = i"
  by (simp add: trim_begin.simps)

lemma trim_end_stop: "0 < n \<Longrightarrow> \<not> ini_blank (str ! (n - 1)) \<Longrightarrow> trim_end str b n = int n - 1"
  by (cases n) simp_all

lemma trim_end_empty: "n \<le> b \<Longrightarrow> trim_end str b n = int n - 1"
  by (cases n) simp_all

lemma blanks_blank: "blanks s \<Longrightarrow> c \<in> set s \<Longrightarrow> ini_blank c"
  by (auto simp: blanks_def ini_blank_def)

lemma trim_begin_skip:
  "blanks bl \<Longrightarrow> length (p @ bl) \<le> e \<Longrightarrow> trim_begin (p @ bl @ r) (length p) e = trim_begin (p @ bl @ r) (length (p @ bl)) e"
proof (induction bl arbitrary: p)
  case (Cons c bl)
  have "trim_begin (p @ (c # bl) @ r) (length p) e = trim_begin (p @ (c # bl) @ r) (Suc (length p)) e"
    using Cons.prems blanks_blank [of "c # bl" c] by (subst trim_begin.simps) simp
  then show ?case using Cons.IH [of "p @ [c]"] Cons.prems by (simp add: blanks_def)
qed simp

lemma trim_end_skip:
  "blanks bl \<Longrightarrow> b \<le> length p \<Longrightarrow> trim_end (p @ bl @ r) b (length (p @ bl)) = trim_end (p @ bl @ r) b (length p)"
proof (induction bl arbitrary: r rule: rev_induct)
  case (snoc c bl)
  have "trim_end (p @ (bl @ [c]) @ r) b (length (p @ bl @ [c])) = trim_end (p @ (bl @ [c]) @ r) b (length (p @ bl))"
    using snoc.prems blanks_blank [of "bl @ [c]" c] by (simp add: nth_append)
  then show ?case using snoc.IH [of "c # r"] snoc.prems by (simp add: blanks_def)
qed simp

lemma find_sep_at:
  "(\<And>j. i \<le> j \<Longrightarrow> j < k \<Longrightarrow> tmp ! j \<noteq> CHR '':'' \<and> tmp ! j \<noteq> CHR ''='') \<Longrightarrow> tmp ! k = CHR ''='' \<Longrightarrow>
   i \<le> k \<Longrightarrow> k < e1 \<Longrightarrow> find_sep tmp i e1 = k"
proof (induction "k - i" arbitrary: i)
  case 0
  then show ?case by (simp add: find_sep.simps)
next
  case (Suc n)
  then have "find_sep tmp i e1 = find_sep tmp (Suc i) e1"
    using Suc.prems(1) [of i] by (subst find_sep.simps) auto
  then show ?case using Suc by auto
qed

lemma dup_at_string: "NUL \<notin> set s \<Longrightarrow> drop x tmp = s @ NUL # r \<Longrightarrow> dup_at tmp x = Inr s"
  by (simp add: dup_at_def)

section \<open>Laws of the lines of a printed configuration\<close>

text \<open>The bounds of a line that has no blank at its ends.\<close>

lemma line_bounds:
  assumes "s \<noteq> []" "\<not> ini_blank (hd s)" "\<not> ini_blank (last s)"
  shows "trim_begin (s @ r) 0 (length s) = 0" "trim_end (s @ r) 0 (length s) = int (length s) - 1"
  using assms by (simp_all add: trim_begin_stop trim_end_stop nth_append hd_conv_nth last_conv_nth)

text \<open>The bounds of a text with blanks around it, anywhere in the buffer.\<close>

lemma text_bounds:
  assumes "blanks x" "blanks y" "f \<noteq> []" "\<not> ini_blank (hd f)" "\<not> ini_blank (last f)"
  shows "trim_begin (p @ x @ f @ y @ r) (length p) (length (p @ x @ f @ y)) = length (p @ x)"
    "trim_end (p @ x @ f @ y @ r) (length p) (length (p @ x @ f @ y)) = int (length (p @ x @ f)) - 1"
proof -
  let ?t = "p @ x @ f @ y @ r"
  have "?t ! length (p @ x) = hd f" using assms(3) by (simp add: nth_append hd_conv_nth)
  then have "trim_begin ?t (length (p @ x)) (length (p @ x @ f @ y)) = length (p @ x)"
    using assms(3,4) by (intro trim_begin_stop) auto
  then show "trim_begin ?t (length p) (length (p @ x @ f @ y)) = length (p @ x)"
    using trim_begin_skip [OF assms(1), of p "length (p @ x @ f @ y)" "f @ y @ r"] by simp
  have pos: "0 < length (p @ x @ f)" using assms(3) by simp
  have "?t ! (length (p @ x @ f) - 1) = last (p @ x @ f)"
    using assms(3) pos by (subst last_conv_nth) (auto simp: nth_append)
  then have "\<not> ini_blank (?t ! (length (p @ x @ f) - 1))" using assms(3,5) by simp
  from trim_end_stop [OF pos this, of "length p"]
  show "trim_end ?t (length p) (length (p @ x @ f @ y)) = int (length (p @ x @ f)) - 1"
    using trim_end_skip [OF assms(2), of "length p" "p @ x @ f" r] by simp
qed

lemma cut_field_at:
  assumes "tidy f" "blanks x" "blanks y" "f = [] \<longrightarrow> x = [] \<and> y = []"
  shows "cut_field (p @ x @ f @ y @ c # r) (length p) (length (p @ x @ f @ y)) = Inr (f, p @ x @ f @ NUL # tl (y @ c # r))"
proof -
  let ?t = "p @ x @ f @ y @ c # r" and ?u = "p @ x @ f @ NUL # tl (y @ c # r)"
  have b: "trim_begin ?t (length p) (length (p @ x @ f @ y)) = length (p @ x)"
    "trim_end ?t (length p) (length (p @ x @ f @ y)) = int (length (p @ x @ f)) - 1"
    using text_bounds [OF assms(2,3), of f p "c # r"] assms(1,4)
    by (cases "f = []"; simp add: tidy_def trim_begin_empty trim_end_empty)+
  have "?t[length (p @ x @ f) := NUL] = ?u"
    by (cases y) (simp_all add: list_update_append)
  then have "store ?t (length (p @ x @ f)) NUL = Inr ?u" by (simp add: store_def)
  moreover have "dup_at ?u (length (p @ x)) = Inr f"
    using assms(1) by (intro dup_at_string) (simp_all add: tidy_def one_line_def)
  moreover have "nat (int (length (p @ x @ f)) - 1 + 1) = length (p @ x @ f)" by simp
  ultimately show ?thesis unfolding cut_field_def b by simp
qed

lemma parse_config_at:
  assumes "item_ok (Entry a k b c v d)"
  shows "\<exists>t. t \<noteq> [] \<and> parse_config (item_line (Entry a k b c v d) @ NUL # r) (length a) (int (length (a @ k @ b @ '' '' @ c @ v)) - 1) =
    Inr ((k, v), t)"
proof -
  let ?t = "a @ k @ b @ CHR ''='' # c @ v @ d @ NUL # r" and ?i = "length (a @ k @ b)"
  let ?u = "a @ k @ NUL # tl (b @ CHR ''='' # c @ v @ d @ NUL # r)"
  define p where "p = a @ k @ NUL # tl (b @ [CHR ''=''])"
  have u: "?u = p @ c @ v @ (d @ NUL # r)" by (cases b) (simp_all add: p_def)
  have p: "length p = Suc ?i" by (simp add: p_def)
  have n: "nat (int (length (a @ k @ b @ '' '' @ c @ v)) - 1 + 1) = length (p @ c @ v)" by (simp add: p)
  have "find_sep ?t (length a) (length (p @ c @ v)) = ?i"
  proof (rule find_sep_at)
    show "?t ! ?i = CHR ''=''" by (simp add: nth_append)
    fix j assume j: "length a \<le> j" "j < ?i"
    then obtain m where m: "j = length a + m" "m < length (k @ b)" using le_Suc_ex by fastforce
    then have "?t ! j = ((k @ b) @ CHR ''='' # c @ v @ d @ NUL # r) ! m" by (simp add: nth_append)
    then have "?t ! j = (k @ b) ! (j - length a)" using m by (simp only: nth_append) simp
    also have "\<dots> \<in> set (k @ b)" using j by (intro nth_mem) simp
    finally show "?t ! j \<noteq> CHR '':'' \<and> ?t ! j \<noteq> CHR ''=''"
      using assms by (auto simp: key_ok_def blanks_def)
  qed (simp_all add: p)
  moreover have "cut_field ?t (length a) ?i = Inr (k, ?u)"
    using cut_field_at [of k "[]" b a "CHR ''=''" "c @ v @ d @ NUL # r"] assms by (simp add: key_ok_def blanks_def)
  moreover have "cut_field ?u (Suc ?i) (length (p @ c @ v)) = Inr (v, p @ c @ v @ NUL # tl (d @ NUL # r))"
    using cut_field_at [of v c "[]" p "hd (d @ [NUL])" "tl (d @ NUL # r)"] assms
    unfolding u by (cases d) (simp_all add: p blanks_def)
  ultimately show ?thesis unfolding parse_config_def n Let_def by auto
qed

lemma item_line_one: "item_ok i \<Longrightarrow> one_line (item_line i)"
  by (cases i) (auto simp: one_line_def blanks_def key_ok_def tidy_def)

text \<open>The first character of an entry that is not blank, and where it is.\<close>

lemma entry_bounds:
  assumes "item_ok (Entry a k b c v d)"
  defines "s \<equiv> item_line (Entry a k b c v d)"
  shows "trim_begin (s @ r) 0 (length s) = length a"
    "trim_end (s @ r) 0 (length s) = int (length (a @ k @ b @ '' '' @ c @ v)) - 1"
    "(s @ r) ! length a \<notin> {CHR ''#'', CHR '';'', CHR ''[''}"
proof -
  let ?f = "k @ b @ CHR ''='' # c @ v"
  have f: "?f \<noteq> []" "\<not> ini_blank (hd ?f)" "\<not> ini_blank (last ?f)" "hd ?f \<notin> {CHR ''#'', CHR '';'', CHR ''[''}"
    using assms(1) by (auto simp: key_ok_def tidy_def ini_blank_def hd_append)
  have ab: "blanks a" "blanks d" using assms(1) by simp_all
  show "trim_begin (s @ r) 0 (length s) = length a"
    "trim_end (s @ r) 0 (length s) = int (length (a @ k @ b @ '' '' @ c @ v)) - 1"
    using text_bounds [OF ab f(1-3), of "[]" r] by (simp_all add: s_def)
  have "(s @ r) ! length a = hd ?f" by (simp add: s_def nth_append hd_append hd_conv_nth)
  then show "(s @ r) ! length a \<notin> {CHR ''#'', CHR '';'', CHR ''[''}" using f(4) by simp
qed

text \<open>A line between two headers that is not empty.\<close>

lemma section_line_item:
  assumes "item_ok i" "item_line i \<noteq> []" "ini_tmp r = item_line i @ NUL # q" "ini_state r = START \<or> ini_state r = IN_SECTION"
  shows "\<exists>t. t \<noteq> [] \<and> section_line r sec = Inr (sec\<lparr>sec_configs := sec_configs sec @ item_entries i\<rparr>,
    r\<lparr>ini_tmp := t\<rparr>, True)"
proof -
  have len: "c_strlen (ini_tmp r) = Inr (length (item_line i))"
    using item_line_one [OF assms(1)] assms(3) by (simp add: one_line_def)
  show ?thesis
  proof (cases i)
    case (Remark s)
    then obtain h s' where "s = h # s'" "h = CHR ''#'' \<or> h = CHR '';''" using assms(1,2) by (cases s) auto
    moreover from this have "trim_begin (ini_tmp r) 0 (length s) = 0"
      using Remark assms(3) by (intro trim_begin_stop) (auto simp: ini_blank_def)
    ultimately show ?thesis
      using Remark len assms(3,4) by (intro exI [of _ "ini_tmp r"]) (auto simp: section_line_def Let_def)
  next
    case (Entry a k b c v d)
    from parse_config_at [of a k b c v d q] obtain t where
        "t \<noteq> []" "parse_config (ini_tmp r) (length a) (int (length (a @ k @ b @ '' '' @ c @ v)) - 1) = Inr ((k, v), t)"
      using assms(1,3) Entry by auto
    then show ?thesis
      using entry_bounds [of a k b c v d "NUL # q"] assms Entry len
      by (intro exI [of _ t]) (auto simp: section_line_def Let_def)
  qed
qed

lemma header_line_bounds:
  "header_line n \<noteq> []" "\<not> ini_blank (hd (header_line n))" "\<not> ini_blank (last (header_line n))"
  "one_line n \<Longrightarrow> one_line (header_line n)" "hd (header_line n) = CHR ''[''"
  by (auto simp: header_line_def ini_blank_def one_line_def)

lemma section_line_header:
  assumes "one_line n" "ini_tmp r = header_line n @ NUL # q"
  shows "ini_state r = IN_SECTION \<Longrightarrow> section_line r sec = Inr (sec, r\<lparr>ini_state := NEW_SECTION\<rparr>, False)"
    and "ini_state r \<noteq> IN_SECTION \<Longrightarrow> \<exists>t. t \<noteq> [] \<and>
      section_line r sec = Inr (sec\<lparr>sec_name := Some n\<rparr>, r\<lparr>ini_tmp := t, ini_state := IN_SECTION\<rparr>, True)"
proof -
  let ?s = "header_line n"
  have len: "c_strlen (ini_tmp r) = Inr (length ?s)"
    using header_line_bounds(4) [OF assms(1)] assms(2) by (simp add: one_line_def)
  have hd: "ini_tmp r ! 0 = CHR ''[''" using assms(2) by (simp add: header_line_def)
  have b: "trim_begin (ini_tmp r) 0 (length ?s) = 0"
      "trim_end (ini_tmp r) 0 (length ?s) = int (length ?s) - 1"
    using line_bounds [OF header_line_bounds(1-3), of n "NUL # q"] assms(2) by simp_all
  show "section_line r sec = Inr (sec, r\<lparr>ini_state := NEW_SECTION\<rparr>, False)" if "ini_state r = IN_SECTION"
    using that len hd b by (simp add: section_line_def)
  let ?t = "(header_line n @ NUL # q)[length n + 1 := NUL]"
  have t: "?t = CHR ''['' # n @ NUL # NUL # q"
    by (simp add: header_line_def list_update_append)
  then have "dup_at ?t 1 = Inr n" using assms(1) by (intro dup_at_string) (simp_all add: one_line_def)
  moreover have "nat (int (length ?s) - 1) = length n + 1" by (simp add: header_line_def)
  then have "store (ini_tmp r) (nat (int (length ?s) - 1)) NUL = Inr ?t"
    using assms(2) by (simp only: store_def) (simp add: header_line_def)
  ultimately show "\<exists>t. t \<noteq> [] \<and>
      section_line r sec = Inr (sec\<lparr>sec_name := Some n\<rparr>, r\<lparr>ini_tmp := t, ini_state := IN_SECTION\<rparr>, True)"
    if "ini_state r \<noteq> IN_SECTION"
    using that len hd b t by (auto simp: section_line_def)
qed

section \<open>Parsing a written configuration\<close>

text \<open>Where the reader stands before the rest \<open>lay\<close> of a file: at its end, or with the header of the next section in the
  buffer.\<close>

definition reader_at :: "read_ini \<Rightarrow> (string \<times> ini_item list) list \<Rightarrow> bool" where
  "reader_at r lay \<longleftrightarrow> (case lay of
       [] \<Rightarrow> ini_state r = END_OF_FILE
     | (name, items) # rest \<Rightarrow> ini_state r = NEW_SECTION \<and>
         (\<exists>q. ini_tmp r = header_line name @ NUL # q) \<and> ini_fin r = print_items items @ print_layout rest)"

text \<open>The lines up to the next header, read in state \<open>START\<close> or \<open>IN_SECTION\<close>.\<close>

lemma parse_items:
  assumes mem: "\<And>n. can_alloc mem n" and items: "\<forall>i \<in> set items. item_ok i"
    and r: "ini_state r = START \<or> ini_state r = IN_SECTION" "ini_tmp r \<noteq> []" "ini_fin r = print_items items @ rest"
  shows "\<exists>r'. parse_section mem r sec = parse_section mem r' (sec\<lparr>sec_configs := sec_configs sec @ entries_of items\<rparr>) \<and>
    ini_state r' = ini_state r \<and> ini_tmp r' \<noteq> [] \<and> ini_fin r' = rest"
  using items r
proof (induction items arbitrary: r sec)
  case Nil
  then show ?case by (intro exI [of _ r]) (simp add: print_items_def entries_of_def)
next
  case (Cons i items)
  let ?sec = "sec\<lparr>sec_configs := sec_configs sec @ item_entries i\<rparr>"
  have ok: "item_ok i" "one_line (item_line i)" using Cons.prems(1) item_line_one by auto
  have fin: "ini_fin r = item_line i @ LF # print_items items @ rest"
    using Cons.prems(4) by (simp add: print_items_def)
  obtain r1 where r1: "parse_section mem r sec = parse_section mem r1 ?sec" "ini_state r1 = ini_state r"
      "ini_tmp r1 \<noteq> []" "ini_fin r1 = print_items items @ rest"
  proof (cases "item_line i = []")
    case True
    then have i: "item_entries i = []" by (cases i) simp_all
    obtain t where t: "read_chars mem (ini_tmp r) 0 ([] @ LF # print_items items @ rest) = Inr (False, t, 0, print_items items @ rest)"
        "0 < length t"
      using read_chars_line [OF mem, of "[]" 0 "ini_tmp r"] Cons.prems(3) by auto
    let ?r = "r\<lparr>ini_fin := print_items items @ rest, ini_tmp := t, current_line := current_line r + 1\<rparr>"
    have "read_line mem r = Inr (False, ?r)"
      using t(1) True fin by (simp add: read_line_def)
    then have "parse_section mem r sec = parse_section mem ?r sec"
      by (subst parse_section.simps) (use Cons.prems(2) in \<open>auto simp: section_step_def\<close>)
    then show thesis using that [of ?r] t(2) i by simp
  next
    case False
    obtain q where q: "read_line mem r = Inr (True, r\<lparr>ini_fin := print_items items @ rest,
        ini_tmp := item_line i @ NUL # q, current_line := current_line r + 1\<rparr>)"
      using read_line_at [OF mem _ _ False Cons.prems(3) fin] ok(2) by (auto simp: one_line_def)
    let ?r = "r\<lparr>ini_fin := print_items items @ rest, ini_tmp := item_line i @ NUL # q, current_line := current_line r + 1\<rparr>"
    obtain t where t: "t \<noteq> []" "section_line ?r sec = Inr (?sec, ?r\<lparr>ini_tmp := t\<rparr>, True)"
      using section_line_item [OF ok(1) False, of ?r q sec] Cons.prems(2) by auto
    have "parse_section mem r sec = parse_section mem (?r\<lparr>ini_tmp := t\<rparr>) ?sec"
      by (subst parse_section.simps) (use Cons.prems(2) q t(2) in \<open>auto simp: section_step_def\<close>)
    then show thesis using that [of "?r\<lparr>ini_tmp := t\<rparr>"] t(1) by simp
  qed
  then obtain r' where "parse_section mem r1 ?sec = parse_section mem r' (?sec\<lparr>sec_configs := sec_configs ?sec @ entries_of items\<rparr>)"
      "ini_state r' = ini_state r1" "ini_tmp r' \<noteq> []" "ini_fin r' = rest"
    using Cons.IH [of r1 ?sec] Cons.prems(1,2) by auto
  then show ?case using r1 by (intro exI [of _ r']) (simp add: entries_of_def)
qed

lemma parse_body:
  assumes mem: "\<And>n. can_alloc mem n" and items: "\<forall>i \<in> set items. item_ok i" and lay: "layout_ok lay"
    and r: "ini_state r = IN_SECTION" "ini_tmp r \<noteq> []" "ini_fin r = print_items items @ print_layout lay"
  shows "\<exists>r'. parse_section mem r sec = Inr (sec\<lparr>sec_configs := sec_configs sec @ entries_of items\<rparr>, r') \<and> reader_at r' lay"
proof -
  let ?sec = "sec\<lparr>sec_configs := sec_configs sec @ entries_of items\<rparr>"
  obtain r1 where r1: "parse_section mem r sec = parse_section mem r1 ?sec" "ini_state r1 = IN_SECTION"
      "ini_tmp r1 \<noteq> []" "ini_fin r1 = print_layout lay"
    using parse_items [OF mem items _ r(2,3)] r(1) by auto
  show ?thesis
  proof (cases lay)
    case Nil
    then show ?thesis
      using r1 by (simp add: parse_section.simps section_step_def read_line_eof [OF mem] reader_at_def print_layout_def)
  next
    case (Cons c lay')
    obtain name items' where c: "c = (name, items')" by (cases c)
    have name: "one_line name" using lay Cons c by (simp add: layout_ok_def)
    have fin: "ini_fin r1 = header_line name @ LF # print_items items' @ print_layout lay'"
      using r1(4) Cons c by (simp add: print_layout_def)
    obtain q where q: "read_line mem r1 = Inr (True, r1\<lparr>ini_fin := print_items items' @ print_layout lay',
        ini_tmp := header_line name @ NUL # q, current_line := current_line r1 + 1\<rparr>)"
      using read_line_at [OF mem _ _ header_line_bounds(1) r1(3) fin] header_line_bounds(4) [OF name]
      by (auto simp: one_line_def)
    then have "parse_section mem r1 ?sec = Inr (?sec, r1\<lparr>ini_fin := print_items items' @ print_layout lay',
        ini_tmp := header_line name @ NUL # q, current_line := current_line r1 + 1, ini_state := NEW_SECTION\<rparr>)"
      using r1(2) section_line_header(1) [OF name]
      by (subst parse_section.simps) (simp add: section_step_def)
    then show ?thesis using r1(1) Cons c by (auto simp: reader_at_def)
  qed
qed

lemma parse_section_at:
  assumes mem: "\<And>n. can_alloc mem n" and lay: "layout_ok ((name, items) # lay)"
    and r: "reader_at r ((name, items) # lay)"
  shows "\<exists>r'. parse_section mem r new_section = Inr (section_of (name, entries_of items), r') \<and> reader_at r' lay"
proof -
  have name: "one_line name" "\<forall>i \<in> set items. item_ok i" "layout_ok lay"
    using lay by (auto simp: layout_ok_def)
  obtain q where q: "ini_state r = NEW_SECTION" "ini_tmp r = header_line name @ NUL # q"
      "ini_fin r = print_items items @ print_layout lay"
    using r by (auto simp: reader_at_def)
  obtain t where t: "t \<noteq> []" "section_line r new_section =
      Inr (new_section\<lparr>sec_name := Some name\<rparr>, r\<lparr>ini_tmp := t, ini_state := IN_SECTION\<rparr>, True)"
    using section_line_header(2) [OF name(1) q(2)] q(1) by auto
  then have "parse_section mem r new_section =
      parse_section mem (r\<lparr>ini_tmp := t, ini_state := IN_SECTION\<rparr>) (new_section\<lparr>sec_name := Some name\<rparr>)"
    by (subst parse_section.simps) (use q(1) in \<open>simp add: section_step_def\<close>)
  then show ?thesis
    using parse_body [OF mem name(2,3), of "r\<lparr>ini_tmp := t, ini_state := IN_SECTION\<rparr>"
        "new_section\<lparr>sec_name := Some name\<rparr>"] t(1) q(3)
    by (simp add: section_of_def new_section_def)
qed

lemma parse_ini_at:
  assumes "\<And>n. can_alloc mem n" "layout_ok lay" "reader_at r lay"
  shows "parse_ini mem r ini = Inr (ini @ map section_of (layout_conf lay))"
  using assms(2,3)
proof (induction lay arbitrary: r ini)
  case Nil
  then show ?case by (simp add: reader_at_def parse_ini.simps layout_conf_def)
next
  case (Cons c lay)
  obtain name items where c: "c = (name, items)" by (cases c)
  then obtain r' where r': "parse_section mem r new_section = Inr (section_of (name, entries_of items), r')" "reader_at r' lay"
    using parse_section_at [OF assms(1)] Cons.prems by blast
  have "layout_ok lay" using Cons.prems(1) by (simp add: layout_ok_def)
  moreover have "ini_state r = NEW_SECTION" using Cons.prems(2) c by (simp add: reader_at_def)
  ultimately show ?case using r' Cons.IH c by (subst parse_ini.simps) (simp add: layout_conf_def)
qed

text \<open>The first section: remarks may stand before it, and its header is read in state \<open>START\<close> and does not pass through
  \<open>NEW_SECTION\<close>.\<close>

lemma read_ini_layout:
  assumes mem: "\<And>n. can_alloc mem n" and lay: "layout_ok lay" "lay \<noteq> []"
    and pre: "\<forall>i \<in> set pre. item_ok i" "entries_of pre = []"
  shows "read_ini mem (Some (print_items pre @ print_layout lay)) = Inr (map section_of (layout_conf lay))"
proof -
  obtain name items rest where c: "lay = (name, items) # rest" using lay(2) by (cases lay) auto
  let ?r0 = "\<lparr>ini_fin = print_items pre @ print_layout lay, ini_tmp = map (junk mem) [0..<4], current_line = 0, ini_state = START\<rparr>"
  obtain r where r: "parse_section mem ?r0 new_section = parse_section mem r new_section" "ini_state r = START"
      "ini_tmp r \<noteq> []" "ini_fin r = print_layout lay"
    using parse_items [OF mem pre(1), of ?r0 "print_layout lay" new_section] pre(2) by auto
  have name: "one_line name" "\<forall>i \<in> set items. item_ok i" "layout_ok rest"
    using lay(1) c by (auto simp: layout_ok_def)
  have fin: "ini_fin r = header_line name @ LF # print_items items @ print_layout rest"
    using c r(4) by (simp add: print_layout_def)
  let ?r1 = "\<lambda>q. r\<lparr>ini_fin := print_items items @ print_layout rest,
      ini_tmp := header_line name @ NUL # q, current_line := current_line r + 1\<rparr>"
  obtain q where q: "read_line mem r = Inr (True, ?r1 q)"
    using read_line_at [OF mem _ _ header_line_bounds(1) r(3) fin] header_line_bounds(4) [OF name(1)]
    by (auto simp: one_line_def)
  obtain t where t: "t \<noteq> []" "section_line (?r1 q) new_section =
      Inr (new_section\<lparr>sec_name := Some name\<rparr>, (?r1 q)\<lparr>ini_tmp := t, ini_state := IN_SECTION\<rparr>, True)"
    using section_line_header(2) [OF name(1), of "?r1 q" q new_section] r(2) by auto
  have "parse_section mem r new_section =
      parse_section mem ((?r1 q)\<lparr>ini_tmp := t, ini_state := IN_SECTION\<rparr>) (new_section\<lparr>sec_name := Some name\<rparr>)"
    by (subst parse_section.simps) (use q t(2) r(2) in \<open>simp add: section_step_def\<close>)
  moreover obtain r' where
      "parse_section mem ((?r1 q)\<lparr>ini_tmp := t, ini_state := IN_SECTION\<rparr>) (new_section\<lparr>sec_name := Some name\<rparr>) =
        Inr (section_of (name, entries_of items), r')" "reader_at r' rest"
    using parse_body [OF mem name(2,3), of "(?r1 q)\<lparr>ini_tmp := t, ini_state := IN_SECTION\<rparr>"
        "new_section\<lparr>sec_name := Some name\<rparr>"] t(1)
    by (auto simp: section_of_def new_section_def)
  ultimately show ?thesis
    using parse_ini_at [OF mem name(3)] c r(1)
    by (simp add: read_ini_def parse_ini.simps [of _ ?r0] layout_conf_def)
qed

text \<open>The printed form has no remarks and no blanks around the separator.\<close>

lemma print_plain: "print_configs kvs = print_items (plain_items kvs)" "entries_of (plain_items kvs) = kvs"
  by (induction kvs) (auto simp: print_configs_def print_items_def plain_items_def config_line_def entries_of_def)

lemma read_ini_print:
  assumes mem: "\<And>n. can_alloc mem n" and conf: "conf_ok conf" "conf \<noteq> []"
  shows "read_ini mem (Some (print_ini conf)) = Inr (map section_of conf)"
proof -
  let ?lay = "map (\<lambda>(name, kvs). (name, plain_items kvs)) conf"
  have "print_layout ?lay = print_ini conf" "layout_conf ?lay = conf"
    by (induction conf) (auto simp: print_layout_def print_ini_def layout_conf_def print_plain)
  moreover have "layout_ok ?lay"
    using conf(1) by (force simp: layout_ok_def conf_ok_def plain_items_def blanks_def)
  ultimately show ?thesis
    using read_ini_layout [OF mem, of ?lay "[]"] conf(2) by (simp add: print_items_def entries_of_def)
qed

section \<open>Look-up\<close>

text \<open>The values of a configuration under the names of their section and key, in the order of the file.\<close>

definition flat_conf :: "(string \<times> (string \<times> string) list) list \<Rightarrow> ((string \<times> string) \<times> string) list" where
  "flat_conf conf = concat (map (\<lambda>(name, kvs). map (\<lambda>(k, v). ((name, k), v)) kvs) conf)"

lemma map_of_section: "map_of (map (\<lambda>(k, v). ((name, k), v)) kvs) (s, key) =
    (if name = s then map_of kvs key else None)"
  by (induction kvs) auto

lemma ini_get_value_conf:
  "ini_get_value (map section_of conf) s key = Inr (map_of (flat_conf conf) (s, key))"
  by (induction conf)
    (auto simp: flat_conf_def section_of_def map_add_def map_of_section split: option.splits)

section \<open>Properties\<close>

text \<open>C16: Reading the printed form of a configuration gives its sections, keys and values in order, however
  long the lines are (the line buffer grows as needed), and looking up a section and a key gives the
  first value the file has for them, \<open>NULL\<close> if it has none.\<close>

theorem ini_round_trip:
  assumes "\<And>n. can_alloc mem n" "conf_ok conf" "conf \<noteq> []"
  shows "\<exists>ini. read_ini mem (Some (print_ini conf)) = Inr ini \<and>
    map sec_name ini = map (Some \<circ> fst) conf \<and> map sec_configs ini = map snd conf \<and>
    (\<forall>s key. ini_get_value ini s key = Inr (map_of (flat_conf conf) (s, key)))"
  using read_ini_print [OF assms] ini_get_value_conf [of conf]
  by (auto simp: section_of_def split_beta)

definition granting :: allocator where
  "granting = \<lparr>can_alloc = (\<lambda>n. True), junk = (\<lambda>n. CHR ''?'')\<rparr>"

theorem ini_round_trip_witness:
  "\<exists>ini. read_ini granting (Some (print_ini [(''Queue'', [(''n'', ''5''), (''size limit'', ''120'')])])) = Inr ini \<and>
     ini_get_value ini ''Queue'' ''size limit'' = Inr (Some ''120'')"
  using ini_round_trip [of granting "[(''Queue'', [(''n'', ''5''), (''size limit'', ''120'')])]"]
  by (auto simp: granting_def conf_ok_def key_ok_def tidy_def one_line_def ini_blank_def flat_conf_def)

text \<open>A line that consists of blanks only, or has no separator, is taken for a key with a value that
  starts after the terminator of the line: with a buffer that the line fills, the value is read past
  the end of the buffer; otherwise it is what an earlier line left there.\<close>

theorem blank_line_read_past_end:
  "read_ini granting (Some (''[a]'' @ [LF] @ ''   '' @ [LF])) = Inl Out_of_bounds \<and>
   read_ini granting (Some (''[a]'' @ [LF] @ ''k=longer'' @ [LF] @ ''  '' @ [LF])) =
     Inr [\<lparr>sec_name = Some ''a'', sec_configs = [(''k'', ''longer''), ([], ''onger'')]\<rparr>]"
  by code_simp

text \<open>A header on the last line of a file that does not end with a line end does not open a new section:
  it renames the section before it, so that its values are found under the wrong name.\<close>

theorem last_header_renames_section:
  "read_ini granting (Some (''[a]'' @ [LF] @ ''k=v'' @ [LF] @ ''[b]'')) =
     Inr [\<lparr>sec_name = Some ''b'', sec_configs = [(''k'', ''v'')]\<rparr>]"
  by code_simp

end
