(* ===== verification/Config.thy ===== *)
theory Config
  imports Iniparser
begin

text \<open>
  The configuration (\<open>src/config.c\<close>): a singleton that is read from \<open>$JUG_ROOT/etc/config.ini\<close> the first
  time a value is asked for. What the process finds outside is a record: the environment variable,
  the files, and the allocator.
\<close>

record config_env =
  jug_root :: "string option"
  file_at :: "string \<Rightarrow> string option"
  conf_mem :: allocator

record config_state =
  loaded :: bool
  singleton_ini :: ini

definition config_start :: config_state where
  "config_start = \<lparr>loaded = False, singleton_ini = []\<rparr>"

text \<open>Whether a structure is returned (or the null pointer), and the new state.\<close>

definition jug_ini_load ::
  "config_env \<Rightarrow> string option \<Rightarrow> config_state \<Rightarrow> (bool \<times> config_state) c_result" where
  "jug_ini_load env filename st =
     (if loaded st then Inr (True, st)
      else case filename of
        None \<Rightarrow> Inr (False, st)
      | Some f \<Rightarrow> c_then (read_ini (conf_mem env) (file_at env f)) (\<lambda>ini.
          Inr (True, st\<lparr>loaded := True, singleton_ini := ini\<rparr>)))"

definition jug_ini_get_string :: "config_state \<Rightarrow> string \<Rightarrow> string \<Rightarrow> string option c_result" where
  "jug_ini_get_string st section key =
     (if \<not> loaded st then Inr None else ini_get_value (singleton_ini st) section key)"

text \<open>The common beginning of the two functions below: the path is put together in \<open>config_path[250]\<close>.\<close>

definition load_default :: "config_env \<Rightarrow> config_state \<Rightarrow> (bool \<times> config_state) c_result" where
  "load_default env st =
     (if loaded st then Inr (True, st)
      else case jug_root env of
        None \<Rightarrow> Inl Null_deref
      | Some root \<Rightarrow>
          let config_path = root @ ''/etc/config.ini'' in
          if length config_path + 1 \<le> 250 then jug_ini_load env (Some config_path) st
          else Inl Buffer_overflow)"

fun section_keyvals :: "ini \<Rightarrow> string \<Rightarrow> (string \<times> string) list c_result" where
  "section_keyvals [] section = Inr []"
| "section_keyvals (s # ini) section = (case sec_name s of
       None \<Rightarrow> Inl Uninitialised
     | Some name \<Rightarrow> c_then (section_keyvals ini section) (\<lambda>kvs.
         Inr (if name = section then sec_configs s @ kvs else kvs)))"

text \<open>The linked list of the keys and values of every section of that name, in order.\<close>

definition jug_ini_get_section ::
  "config_env \<Rightarrow> string \<Rightarrow> config_state \<Rightarrow> ((string \<times> string) list \<times> config_state) c_result" where
  "jug_ini_get_section env section st = c_then (load_default env st) (\<lambda>(ok, st').
     if \<not> ok then Inr ([], st')
     else c_then (section_keyvals (singleton_ini st') section) (\<lambda>kvs. Inr (kvs, st')))"

definition jug_get_config ::
  "config_env \<Rightarrow> string \<Rightarrow> string \<Rightarrow> config_state \<Rightarrow> (string option \<times> config_state) c_result" where
  "jug_get_config env section key st = c_then (load_default env st) (\<lambda>(ok, st').
     if \<not> ok then Inr (None, st')
     else c_then (jug_ini_get_string st' section key) (\<lambda>v. Inr (v, st')))"

section \<open>Laws\<close>

lemma load_default_loaded [simp]: "loaded st \<Longrightarrow> load_default env st = Inr (True, st)"
  by (simp add: load_default_def)

lemma section_keyvals_get:
  "section_keyvals ini section = Inr kvs \<Longrightarrow> ini_get_value ini section key = Inr (map_of kvs key)"
  by (induction ini arbitrary: kvs)
    (auto simp: c_then_Inr map_add_def split: option.splits if_splits)

text \<open>A configuration that is in the file the code looks at: however the file is written, parsing it gives these sections,
  keys and values.\<close>

definition config_at :: "config_env \<Rightarrow> (string \<times> (string \<times> string) list) list \<Rightarrow> bool" where
  "config_at env conf \<longleftrightarrow> (\<forall>n. can_alloc (conf_mem env) n) \<and>
     (\<exists>root. jug_root env = Some root \<and> length root < 230 \<and>
        read_ini (conf_mem env) (file_at env (root @ ''/etc/config.ini'')) = Inr (map section_of conf))"

text \<open>Two ways to write one: printed, and by hand with remarks and blanks.\<close>

lemma config_at_layout:
  assumes "\<And>n. can_alloc (conf_mem env) n" "jug_root env = Some root" "length root < 230"
    and "file_at env (root @ ''/etc/config.ini'') = Some (print_items pre @ print_layout lay)"
    and "layout_ok lay" "lay \<noteq> []" "\<forall>i \<in> set pre. item_ok i" "entries_of pre = []"
  shows "config_at env (layout_conf lay)"
  using assms read_ini_layout [OF assms(1,5-8)] by (simp add: config_at_def)

lemma config_at_print:
  assumes "\<And>n. can_alloc (conf_mem env) n" "jug_root env = Some root" "length root < 230"
    and "file_at env (root @ ''/etc/config.ini'') = Some (print_ini conf)" "conf_ok conf" "conf \<noteq> []"
  shows "config_at env conf"
  using assms read_ini_print [OF assms(1,5,6)] by (simp add: config_at_def)

lemma load_default_conf:
  assumes "config_at env conf" "\<not> loaded st"
  shows "load_default env st = Inr (True, st\<lparr>loaded := True, singleton_ini := map section_of conf\<rparr>)"
  using assms
  by (auto simp: load_default_def jug_ini_load_def config_at_def Let_def)

lemma jug_get_config_conf:
  assumes "config_at env conf" "\<not> loaded st \<or> singleton_ini st = map section_of conf"
  shows "jug_get_config env section key st =
    Inr (map_of (flat_conf conf) (section, key), st\<lparr>loaded := True, singleton_ini := map section_of conf\<rparr>)"
proof (cases "loaded st")
  case True
  then show ?thesis using assms(2)
    by (simp add: jug_get_config_def jug_ini_get_string_def ini_get_value_conf)
next
  case False
  then show ?thesis
    using load_default_conf [OF assms(1) False]
    by (simp add: jug_get_config_def jug_ini_get_string_def ini_get_value_conf)
qed

text \<open>Reading a configuration that is in place, whether or not it has been read before.\<close>

definition conf_state :: "(string \<times> (string \<times> string) list) list \<Rightarrow> config_state" where
  "conf_state conf = \<lparr>loaded = True, singleton_ini = map section_of conf\<rparr>"

definition reads_conf :: "config_state \<Rightarrow> (string \<times> (string \<times> string) list) list \<Rightarrow> bool" where
  "reads_conf st conf \<longleftrightarrow> \<not> loaded st \<or> st = conf_state conf"

lemma reads_conf_start [simp]: "reads_conf config_start conf" "reads_conf (conf_state conf) conf"
  by (simp_all add: reads_conf_def config_start_def)

lemma get_config_reads:
  assumes "config_at env conf" "reads_conf st conf"
  shows "jug_get_config env section key st = Inr (map_of (flat_conf conf) (section, key), conf_state conf)"
  using jug_get_config_conf [OF assms(1), of st "section" key] assms(2)
  by (cases st) (auto simp: reads_conf_def conf_state_def)

definition section_entries :: "(string \<times> (string \<times> string) list) list \<Rightarrow> string \<Rightarrow> (string \<times> string) list" where
  "section_entries conf section = concat (map snd (filter (\<lambda>s. fst s = section) conf))"

lemma section_keyvals_conf:
  "section_keyvals (map section_of conf) section = Inr (section_entries conf section)"
  by (induction conf) (auto simp: section_of_def section_entries_def)

lemma get_section_reads:
  assumes "config_at env conf" "reads_conf st conf"
  shows "jug_ini_get_section env section st =
    Inr (section_entries conf section, conf_state conf)"
proof (cases "loaded st")
  case True
  then show ?thesis using assms(2)
    by (simp add: reads_conf_def jug_ini_get_section_def conf_state_def section_keyvals_conf)
next
  case False
  then show ?thesis using load_default_conf [OF assms(1) False]
    by (cases st) (simp add: jug_ini_get_section_def conf_state_def section_keyvals_conf)
qed

section \<open>What the components rely on\<close>

text \<open>A component reads its settings one after the other and stores each before it reads the next, into a structure
  that is \<open>present\<close> if its allocation succeeded. It gives up at the first setting that is missing.\<close>

fun read_settings ::
  "(string \<Rightarrow> 's \<Rightarrow> (string option \<times> 's) c_result) \<Rightarrow> bool \<Rightarrow> string list \<Rightarrow> 's \<Rightarrow> (string list option \<times> 's) c_result" where
  "read_settings look present [] st = Inr (Some [], st)"
| "read_settings look present (k # ks) st = c_then (look k st) (\<lambda>(v, st1). case v of
       None \<Rightarrow> Inr (None, st1)
     | Some s \<Rightarrow> if \<not> present then Inl Null_deref
         else c_then (read_settings look present ks st1) (\<lambda>(zs, st2). Inr (map_option ((#) s) zs, st2)))"

locale settings =
  fixes look :: "string \<Rightarrow> string \<Rightarrow> 's \<Rightarrow> (string option \<times> 's) c_result"
    and entries :: "string \<Rightarrow> 's \<Rightarrow> ((string \<times> string) list \<times> 's) c_result"
    and knows :: "'s \<Rightarrow> (string \<times> (string \<times> string) list) list \<Rightarrow> bool"
    and settled :: "(string \<times> (string \<times> string) list) list \<Rightarrow> 's"
  assumes look_law: "knows st conf \<Longrightarrow> look s k st = Inr (map_of (flat_conf conf) (s, k), settled conf)"
    and entries_law: "knows st conf \<Longrightarrow> entries s st = Inr (section_entries conf s, settled conf)"
    and settled_law: "knows st conf \<Longrightarrow> knows (settled conf) conf"
begin

lemma read_all:
  assumes "knows st conf" "ks \<noteq> []" "\<forall>k \<in> set ks. map_of (flat_conf conf) (s, k) = Some (val k)"
  shows "read_settings (look s) True ks st = Inr (Some (map val ks), settled conf)"
  using assms
proof (induction ks arbitrary: st)
  case (Cons k ks)
  then show ?case
    using look_law [OF Cons.prems(1)] settled_law [OF Cons.prems(1)] by (cases "ks = []") auto
qed simp

lemma read_missing:
  assumes "knows st conf" "k \<in> set ks" "map_of (flat_conf conf) (s, k) = None"
  shows "read_settings (look s) True ks st = Inr (None, settled conf)"
  using assms
proof (induction ks arbitrary: st)
  case (Cons k' ks)
  then show ?case
    using look_law [OF Cons.prems(1)] settled_law [OF Cons.prems(1)]
    by (cases "map_of (flat_conf conf) (s, k')") auto
qed simp

end

interpretation conf: settings "jug_get_config env" "jug_ini_get_section env"
    "\<lambda>st conf. config_at env conf \<and> reads_conf st conf" conf_state for env
  by unfold_locales (simp_all add: get_config_reads get_section_reads)

section \<open>Properties\<close>

text \<open>Whatever was asked before, a value is the first one \<open>config.ini\<close> has for its section and key, and
  asking for it leaves the singleton loaded with the whole file; the file is read at most once.\<close>

theorem config_values:
  assumes "config_at env conf" "\<not> loaded st \<or> singleton_ini st = map section_of conf"
  shows "\<exists>st'. jug_get_config env section key st = Inr (map_of (flat_conf conf) (section, key), st') \<and>
    loaded st' \<and> (\<forall>env' section' key'. jug_get_config env' section' key' st' =
      Inr (map_of (flat_conf conf) (section', key'), st'))"
  using jug_get_config_conf [OF assms]
  by (auto simp: jug_get_config_def jug_ini_get_string_def ini_get_value_conf)

definition sample_env :: config_env where
  "sample_env = \<lparr>jug_root = Some ''/k'',
     file_at = (\<lambda>f. if f = ''/k/etc/config.ini'' then Some (print_ini [(''Queue'', [(''n'', ''5'')])]) else None),
     conf_mem = granting\<rparr>"

lemma sample_env_config: "config_at sample_env [(''Queue'', [(''n'', ''5'')])]"
  by (rule config_at_print [of _ "''/k''"]) (simp_all add: sample_env_def granting_def conf_ok_def key_ok_def tidy_def one_line_def
      ini_blank_def)

theorem config_values_witness:
  "\<exists>st'. jug_get_config sample_env ''Queue'' ''n'' config_start = Inr (Some ''5'', st') \<and> loaded st'"
  using config_values [OF sample_env_config, of config_start "''Queue''" "''n''"]
  by (auto simp: config_start_def flat_conf_def)

text \<open>The list of a section and the look-up of a key agree: the value of a key is the first one the list
  has for it.\<close>

theorem section_list_agrees:
  assumes "jug_ini_get_section env section st = Inr (kvs, st')" "loaded st"
  shows "jug_get_config env section key st = Inr (map_of kvs key, st')"
  using assms section_keyvals_get
  by (auto simp: jug_ini_get_section_def jug_get_config_def jug_ini_get_string_def c_then_Inr)

theorem section_list_agrees_witness:
  "jug_get_config sample_env ''a'' ''k'' \<lparr>loaded = True,
     singleton_ini = [\<lparr>sec_name = Some ''a'', sec_configs = [(''k'', ''1'')]\<rparr>]\<rparr> =
   Inr (Some ''1'', \<lparr>loaded = True, singleton_ini = [\<lparr>sec_name = Some ''a'', sec_configs = [(''k'', ''1'')]\<rparr>]\<rparr>)"
  using section_list_agrees [of sample_env "''a''" "\<lparr>loaded = True,
     singleton_ini = [\<lparr>sec_name = Some ''a'', sec_configs = [(''k'', ''1'')]\<rparr>]\<rparr>" "[(''k'', ''1'')]" _ "''k''"]
  by (simp add: jug_ini_get_section_def)

end
