(* ===== verification/Sandbox.thy ===== *)
theory Sandbox
  imports Judge_Types Config
begin

unbundle bit_operations_syntax

text \<open>
  The sandbox (\<open>src/sandbox.c\<close>): its configuration, the watcher process (\<open>jug_sandbox_watcher\<close>: preparation,
  event loop, result), the signal handler, the start of the submission (\<open>jug_sandbox_binary\<close>) and the
  functions that read \<open>/proc\<close>. A wait status is the \<open>int\<close> the kernel delivers, taken apart by the bit
  operations of \<open><sys/wait.h>\<close> and \<open><sys/ptrace.h>\<close>. Each iteration of the event loop takes the answers of
  its system calls, and the signals that arrived before it, from a list; a list that is used up means that
  the loop is still running.
\<close>

section \<open>Configuration\<close>

record sandbox =
  use_ERFS :: int
  chroot_dir :: string
  use_cgroups :: int
  use_setrlimit :: int
  mem_limit_mb_default :: int
  time_limit_ms_default :: int
  walltime_limit_ms_default :: int

definition sandbox_keys :: "string list" where
  "sandbox_keys = [''mem_limit_mb'', ''walltime_limit_ms'', ''time_limit_ms'', ''use_cgroups'',
     ''use_setrlimit'', ''use_ERFS'', ''chroot_dir_path'']"

definition jug_sandbox_init ::
  "config_env \<Rightarrow> bool \<Rightarrow> config_state \<Rightarrow> (int \<times> sandbox option \<times> config_state) c_result" where
  "jug_sandbox_init env tmp_exists st =
     c_then (read_settings (jug_get_config env ''Executer'') (can_alloc (conf_mem env) 48) sandbox_keys st) (\<lambda>(vs, st').
       case vs of
         Some [mem, wall, tim, cgr, rl, erfs, dir] \<Rightarrow>
           if \<not> can_alloc (conf_mem env) (length dir + 5) then Inl Null_deref
           else if \<not> tmp_exists then Inr (-10, None, st')
           else Inr (0, Some \<lparr>use_ERFS = atoi_str erfs, chroot_dir = dir, use_cgroups = atoi_str cgr,
             use_setrlimit = atoi_str rl, mem_limit_mb_default = atoi_str mem,
             time_limit_ms_default = atoi_str tim, walltime_limit_ms_default = atoi_str wall\<rparr>, st')
       | _ \<Rightarrow> Inr (-1, None, st'))"

section \<open>Preparation of the watcher\<close>

datatype call_answer = Ok | Err_EINVAL | Err_EINTR | Err_other

text \<open>The answers of the system calls, in the order of the code.\<close>

record setup_env =
  se_chdir :: bool
  se_chroot :: bool
  se_umount_proc :: call_answer
  se_mount_proc :: bool
  se_umount_tmp :: call_answer
  se_mount_tmp :: bool
  se_bind_tmp :: bool
  se_dup_out :: call_answer
  se_pipe :: bool
  se_fd1 :: bool
  se_fd2 :: bool
  se_fd3 :: bool
  se_sigusr2 :: bool
  se_fd4 :: bool
  se_fork :: int
  se_setoptions :: bool

text \<open>The code the watcher exits with before it watches anything, or \<open>None\<close>.\<close>

definition watcher_setup :: "sandbox \<Rightarrow> setup_env \<Rightarrow> int option" where
  "watcher_setup sb e =
     (if \<not> se_chdir e then Some (-2)
      else if use_ERFS sb \<noteq> 0 \<and> \<not> se_chroot e then Some (-3)
      else if se_umount_proc e \<noteq> Ok \<and> se_umount_proc e \<noteq> Err_EINVAL then Some (-4)
      else if \<not> se_mount_proc e then Some (-4)
      else if se_umount_tmp e \<noteq> Ok \<and> se_umount_tmp e \<noteq> Err_EINVAL then Some (-9)
      else if \<not> se_mount_tmp e then Some (-9)
      else if \<not> se_bind_tmp e then Some (-9)
      else if se_dup_out e \<noteq> Ok \<and> se_dup_out e \<noteq> Err_EINTR then Some (-5)
      else if \<not> se_pipe e then Some (-9)
      else if \<not> se_fd1 e then Some (-50)
      else if \<not> se_fd2 e then Some (-45)
      else if \<not> se_fd3 e then Some (-30)
      else if \<not> se_sigusr2 e then Some (-3)
      else if \<not> se_fd4 e then Some (-40)
      else if se_fork e < 0 then Some (-6)
      else if \<not> se_setoptions e then Some (-21)
      else None)"

section \<open>Wait statuses\<close>

definition SIGTRAP :: "32 word" where "SIGTRAP = 5"
definition SIGSEGV :: "32 word" where "SIGSEGV = 11"
definition SIGXCPU :: "32 word" where "SIGXCPU = 24"
definition PTRACE_EVENT_FORK :: "32 word" where "PTRACE_EVENT_FORK = 1"
definition PTRACE_EVENT_VFORK :: "32 word" where "PTRACE_EVENT_VFORK = 2"
definition PTRACE_EVENT_CLONE :: "32 word" where "PTRACE_EVENT_CLONE = 3"
definition PTRACE_EVENT_EXEC :: "32 word" where "PTRACE_EVENT_EXEC = 4"
definition PTRACE_EVENT_EXIT :: "32 word" where "PTRACE_EVENT_EXIT = 6"

definition WIFSTOPPED :: "32 word \<Rightarrow> bool" where
  "WIFSTOPPED status \<longleftrightarrow> status AND 255 = 127"

definition WSTOPSIG :: "32 word \<Rightarrow> 32 word" where
  "WSTOPSIG status = drop_bit 8 status AND 255"

definition WTERMSIG :: "32 word \<Rightarrow> 32 word" where
  "WTERMSIG status = status AND 127"

definition WIFEXITED :: "32 word \<Rightarrow> bool" where
  "WIFEXITED status \<longleftrightarrow> WTERMSIG status = 0"

definition WIFSIGNALED :: "32 word \<Rightarrow> bool" where
  "WIFSIGNALED status \<longleftrightarrow> \<not> WIFEXITED status \<and> WTERMSIG status \<noteq> 127"

text \<open>The stop the kernel reports for an event, and the test for it.\<close>

definition event_stop :: "32 word \<Rightarrow> 32 word \<Rightarrow> bool" where
  "event_stop status event \<longleftrightarrow> drop_bit 8 status = SIGTRAP OR push_bit 8 event"

section \<open>The event loop\<close>

datatype watch_signal = SIGALRM | SIGUSR2 | Other_signal

record watch_state =
  binary_state :: js_bin_state
  sigxcpu_received :: bool
  sigsegv_received :: bool
  mem_limit_exceeded :: bool
  bin_killed :: bool
  splice_size_acc :: int
  input_closed :: bool
  kills_sent :: nat

definition watch_start :: watch_state where
  "watch_start = \<lparr>binary_state = JS_BIN_RUNNING, sigxcpu_received = False, sigsegv_received = False,
     mem_limit_exceeded = False, bin_killed = False, splice_size_acc = 0, input_closed = False, kills_sent = 0\<rparr>"

text \<open>\<open>watcher_sig_handler\<close>; \<open>kill_ok\<close>: the \<open>kill\<close> succeeds. \<open>input_closed\<close>: the watcher has closed its end of
  the pipe the submission reads.\<close>

definition watcher_sig_handler :: "watch_signal \<times> bool \<Rightarrow> watch_state \<Rightarrow> watch_state" where
  "watcher_sig_handler = (\<lambda>(sig, kill_ok) st. case sig of
       SIGALRM \<Rightarrow> (if kill_ok then st\<lparr>binary_state := JS_BIN_WALLTIMEOUT, kills_sent := Suc (kills_sent st)\<rparr>
                   else st)
     | SIGUSR2 \<Rightarrow> (if kill_ok then st\<lparr>binary_state := JS_BIN_COMPOUT, kills_sent := Suc (kills_sent st)\<rparr>
                   else st)
     | Other_signal \<Rightarrow> st)"

text \<open>C's division, towards zero.\<close>

definition mb_of :: "int \<Rightarrow> int" where
  "mb_of bytes = (if bytes < 0 then - ((- bytes) div 1000000) else bytes div 1000000)"

text \<open>A stopped submission: \<open>mem\<close> is what \<open>jug_sandbox_memory_usage\<close> answers if it is called.\<close>

definition handle_stop :: "int \<Rightarrow> int \<Rightarrow> 32 word \<Rightarrow> watch_state \<Rightarrow> watch_state" where
  "handle_stop mem_limit mem status st =
     (let stop_sig = WSTOPSIG status;
          st1 = (if stop_sig = SIGTRAP \<and> status AND push_bit 8 PTRACE_EVENT_EXIT \<noteq> 0 \<and>
                   mem > 0 \<and> mb_of mem > mem_limit
                 then st\<lparr>mem_limit_exceeded := True\<rparr> else st);
          st2 = (if event_stop status PTRACE_EVENT_FORK \<or> event_stop status PTRACE_EVENT_CLONE \<or>
                   event_stop status PTRACE_EVENT_VFORK
                 then st1\<lparr>bin_killed := True, kills_sent := kills_sent st1 + 2\<rparr> else st1);
          st3 = (if event_stop status PTRACE_EVENT_EXEC
                 then st2\<lparr>bin_killed := True, kills_sent := Suc (kills_sent st2)\<rparr> else st2);
          st4 = (if stop_sig = SIGXCPU \<and> \<not> sigxcpu_received st3 then st3\<lparr>sigxcpu_received := True\<rparr> else st3) in
      if stop_sig = SIGSEGV
      then st4\<lparr>sigsegv_received := True,
             mem_limit_exceeded := (mem_limit_exceeded st4 \<or> mem \<ge> 0 \<and> mb_of mem \<ge> mem_limit),
             kills_sent := Suc (kills_sent st4)\<rparr>
      else st4)"

datatype splice_answer = Spliced nat | Splice_again | Splice_error
datatype poll_answer = No_event | Poll_error | Event "32 word"

record watch_input =
  wi_signals :: "(watch_signal \<times> bool) list"
  wi_splice :: splice_answer
  wi_poll :: poll_answer
  wi_mem :: int

text \<open>The part of the input that was moved to the submission is counted; after the last of it the pipe is closed.\<close>

definition feed_binary :: "int \<Rightarrow> splice_answer \<Rightarrow> watch_state \<Rightarrow> watch_state" where
  "feed_binary datasource_size a st =
     (let st' = (case a of Spliced n \<Rightarrow> st\<lparr>splice_size_acc := splice_size_acc st + int n\<rparr> | _ \<Rightarrow> st) in
      if splice_size_acc st' \<ge> datasource_size then st'\<lparr>input_closed := True\<rparr> else st')"

text \<open>An iteration: the code of an \<open>exit\<close>, or the new state and whether the loop is left.\<close>

definition watch_iteration :: "int \<Rightarrow> int \<Rightarrow> watch_input \<Rightarrow> watch_state \<Rightarrow> int + (watch_state \<times> bool)" where
  "watch_iteration mem_limit datasource_size i st0 =
     (let st = fold watcher_sig_handler (wi_signals i) st0 in
      if splice_size_acc st < datasource_size \<and> wi_splice i = Splice_error then Inl (-22)
      else
        let st1 = (if splice_size_acc st < datasource_size then feed_binary datasource_size (wi_splice i) st else st) in
        case wi_poll i of
          No_event \<Rightarrow> Inr (st1, False)
        | Poll_error \<Rightarrow> Inl (-60)
        | Event status \<Rightarrow>
            if WIFSTOPPED status then Inr (handle_stop mem_limit (wi_mem i) status st1, False)
            else if WIFEXITED status then Inr (st1, True)
            else if WIFSIGNALED status then Inr (st1\<lparr>bin_killed := True\<rparr>, True)
            else Inr (st1, True))"

fun watch_loop :: "int \<Rightarrow> int \<Rightarrow> watch_input list \<Rightarrow> watch_state \<Rightarrow> (int + watch_state) option" where
  "watch_loop mem_limit datasource_size [] st = None"
| "watch_loop mem_limit datasource_size (i # is) st =
     (case watch_iteration mem_limit datasource_size i st of
        Inl code \<Rightarrow> Some (Inl code)
      | Inr (st', True) \<Rightarrow> Some (Inr st')
      | Inr (st', False) \<Rightarrow> watch_loop mem_limit datasource_size is st')"

text \<open>Emptying the input pipe: whether it succeeded, \<open>None\<close> while it is running.\<close>

datatype flush_answer = Flushed nat | Flush_again | Flush_error

fun watch_flush :: "flush_answer list \<Rightarrow> int \<Rightarrow> int \<Rightarrow> bool option" where
  "watch_flush [] acc total_size = None"
| "watch_flush (Flush_error # fs) acc total_size = Some False"
| "watch_flush (Flushed n # fs) acc total_size =
     (if acc + int n \<ge> total_size then Some True else watch_flush fs (acc + int n) total_size)"
| "watch_flush (Flush_again # fs) acc total_size =
     (if acc \<ge> total_size then Some True else watch_flush fs acc total_size)"

text \<open>The result the watcher exits with.\<close>

definition watch_result :: "watch_state \<Rightarrow> jug_sandbox_result" where
  "watch_result st =
     (if sigxcpu_received st then JS_TIMELIMIT
      else if mem_limit_exceeded st then JS_MEMLIMIT
      else if binary_state st = JS_BIN_WALLTIMEOUT then JS_WALL_TIMELIMIT
      else if binary_state st = JS_BIN_COMPOUT then JS_CORRECT
      else if sigsegv_received st \<or> bin_killed st then
        (if mem_limit_exceeded st then JS_MEMLIMIT else JS_RUNTIME)
      else JS_CORRECT)"

text \<open>The watcher as a whole: its exit code, \<open>None\<close> while it is running. The first event of the submission is
  consumed before the loop.\<close>

definition jug_sandbox_watcher ::
  "sandbox \<Rightarrow> int \<Rightarrow> int \<Rightarrow> setup_env \<Rightarrow> watch_input list \<Rightarrow> flush_answer list \<Rightarrow> int option" where
  "jug_sandbox_watcher sb mem_limit datasource_size e inputs fl =
     (case watcher_setup sb e of
        Some code \<Rightarrow> Some code
      | None \<Rightarrow> (case watch_loop mem_limit datasource_size inputs watch_start of
          None \<Rightarrow> None
        | Some (Inl code) \<Rightarrow> Some code
        | Some (Inr st) \<Rightarrow> (case watch_flush fl (splice_size_acc st) datasource_size of
            None \<Rightarrow> None
          | Some False \<Rightarrow> Some (result_int JS_RUNTIME)
          | Some True \<Rightarrow> Some (result_int (watch_result st)))))"

section \<open>The submission\<close>

record binary_env =
  be_traceme :: bool
  be_cpu_rlimit :: bool
  be_as_rlimit :: bool
  be_nobody :: bool
  be_setuid0 :: bool
  be_exec :: bool

text \<open>The soft and the hard limit of the CPU time, in seconds.\<close>

definition cpu_rlimit :: "int \<Rightarrow> int \<times> int" where
  "cpu_rlimit time_limit_ms = (let cur = (if time_limit_ms < 0 then - ((- time_limit_ms) div 1000)
     else time_limit_ms div 1000) in (cur, cur + 2))"

text \<open>The exit code of the process that fails to become the submission, or \<open>None\<close> once it has. When
  \<open>PTRACE_TRACEME\<close> fails the code reads through an uninitialised pointer on purpose.\<close>

definition jug_sandbox_binary :: "binary_env \<Rightarrow> int option c_result" where
  "jug_sandbox_binary e =
     (if \<not> be_traceme e then Inl Uninitialised
      else if \<not> be_cpu_rlimit e then Inr (Some 100)
      else if \<not> be_as_rlimit e then Inr (Some 101)
      else if \<not> be_nobody e then Inl Null_deref
      else if be_setuid0 e then Inr (Some 113)
      else if \<not> be_exec e then Inr (Some (-999))
      else Inr None)"

section \<open>Names and usage\<close>

fun jug_sandbox_result_str :: "jug_sandbox_result \<Rightarrow> string" where
  "jug_sandbox_result_str JS_CORRECT = ''CORRECT ANSWER''"
| "jug_sandbox_result_str JS_WRONG = ''WRONG ANSWER''"
| "jug_sandbox_result_str JS_TIMELIMIT = ''TIME LIMIT EXCEEDED''"
| "jug_sandbox_result_str JS_WALL_TIMELIMIT = ''WALL TIME LIMIT EXCEEDED''"
| "jug_sandbox_result_str JS_MEMLIMIT = ''MEMORY LIMIT EXCEEDED''"
| "jug_sandbox_result_str JS_OUTPUTLIMIT = ''OUTPUT SIZE LIMIT EXCEEDED''"
| "jug_sandbox_result_str JS_RUNTIME = ''RUNTIME ERROR''"
| "jug_sandbox_result_str JS_PIPE_ERROR = ''PIPE ERROR''"
| "jug_sandbox_result_str JS_COMP_ERROR = ''COMPARING FUNCTION ERROR''"
| "jug_sandbox_result_str JS_UNKNOWN = ''UNKNOWN ERROR''"

text \<open>The first number of a text (\<open>sscanf "%ld"\<close>); \<open>None\<close> when there is none and the variable stays unset.\<close>

definition scan_number :: "string \<Rightarrow> int option" where
  "scan_number text = (case c_skip_space (text @ [NUL]) of
       Inr (c # q) \<Rightarrow>
         if is_digit c \<or> (c = CHR ''-'' \<or> c = CHR ''+'') \<and> q \<noteq> [] \<and> is_digit (hd q)
         then (case c_signed (c # q) of Inr z \<Rightarrow> Some z | Inl _ \<Rightarrow> None) else None
     | _ \<Rightarrow> None)"

text \<open>\<open>statm\<close>: \<open>None\<close> when the file cannot be opened, \<open>Some None\<close> when it cannot be read. The text is read into
  \<open>content[200]\<close> and terminated after what was read; the product is computed as \<open>unsigned long\<close>.\<close>

definition jug_sandbox_memory_usage :: "int \<Rightarrow> string option option \<Rightarrow> int c_result" where
  "jug_sandbox_memory_usage page_size statm = (case statm of
       None \<Rightarrow> Inr (-1)
     | Some None \<Rightarrow> Inr (-2)
     | Some (Some text) \<Rightarrow>
         if length (take 200 text) \<ge> 200 then Inl Buffer_overflow
         else (case scan_number (cstr (text @ [NUL])) of
             None \<Rightarrow> Inl Uninitialised
           | Some vmsize \<Rightarrow> Inr (sint (word_of_int (vmsize * page_size) :: 64 word))))"

text \<open>The words of a text, as \<open>fscanf "%s"\<close> reads them.\<close>

fun words_of :: "string \<Rightarrow> string \<Rightarrow> string list" where
  "words_of w [] = (if w = [] then [] else [w])"
| "words_of w (c # s) = (if is_space c then (if w = [] then words_of [] s else w # words_of [] s)
     else words_of (w @ [c]) s)"

text \<open>User and system time are the fourteenth and fifteenth word of \<open>/proc/<pid>/stat\<close>. A word that is not a number
  leaves them unset.\<close>

definition number_word :: "string \<Rightarrow> bool" where
  "number_word w = (case w of [] \<Rightarrow> False
     | c # cs \<Rightarrow> (is_digit c \<or> (c = CHR ''-'' \<or> c = CHR ''+'') \<and> cs \<noteq> []) \<and> list_all is_digit cs)"

definition jug_sandbox_cputime_usage :: "int \<Rightarrow> string option \<Rightarrow> int c_result" where
  "jug_sandbox_cputime_usage clk_tck stat = (case stat of
       None \<Rightarrow> Inr (-1)
     | Some text \<Rightarrow> (let ws = words_of [] text in
         if \<exists>w \<in> set (take 13 ws). length w \<ge> 200 then Inl Buffer_overflow
         else if length ws < 15 \<or> \<not> number_word (ws ! 13) \<or> scan_number (ws ! 14) = None then Inl Uninitialised
         else Inr (int32 (1000 * (atoi_str (ws ! 13) + atoi_str (ws ! 14))) div clk_tck)))"

section \<open>Specification\<close>

text \<open>What an iteration can have seen.\<close>

definition stopped_by :: "32 word \<Rightarrow> watch_input \<Rightarrow> bool" where
  "stopped_by sig i \<longleftrightarrow> (\<exists>s. wi_poll i = Event s \<and> WIFSTOPPED s \<and> WSTOPSIG s = sig)"

definition spawns :: "watch_input \<Rightarrow> bool" where
  "spawns i \<longleftrightarrow> (\<exists>s. wi_poll i = Event s \<and> WIFSTOPPED s \<and>
     (event_stop s PTRACE_EVENT_FORK \<or> event_stop s PTRACE_EVENT_CLONE \<or> event_stop s PTRACE_EVENT_VFORK \<or>
      event_stop s PTRACE_EVENT_EXEC))"

definition dies :: "watch_input \<Rightarrow> bool" where
  "dies i \<longleftrightarrow> (\<exists>s. wi_poll i = Event s \<and> \<not> WIFSTOPPED s \<and> WIFSIGNALED s)"

definition over_limit :: "int \<Rightarrow> watch_input \<Rightarrow> bool" where
  "over_limit mem_limit i \<longleftrightarrow>
     stopped_by SIGTRAP i \<and> wi_mem i > 0 \<and> mb_of (wi_mem i) > mem_limit \<or>
     stopped_by SIGSEGV i \<and> wi_mem i \<ge> 0 \<and> mb_of (wi_mem i) \<ge> mem_limit"

definition final :: "watch_input \<Rightarrow> bool" where
  "final i \<longleftrightarrow> (\<exists>s. wi_poll i = Event s \<and> \<not> WIFSTOPPED s)"

definition failing :: "watch_input \<Rightarrow> bool" where
  "failing i \<longleftrightarrow> wi_poll i = Poll_error \<or> wi_splice i = Splice_error"

text \<open>The iterations of a run: up to the end of the submission.\<close>

fun watched :: "watch_input list \<Rightarrow> watch_input list" where
  "watched [] = []"
| "watched (i # is) = (if final i then [i] else i # watched is)"

text \<open>The last signal that was acted on.\<close>

definition last_signal :: "(watch_signal \<times> bool) list \<Rightarrow> watch_signal option" where
  "last_signal sigs = (let xs = filter (\<lambda>(sig, ok). ok \<and> sig \<noteq> Other_signal) sigs in
     if xs = [] then None else Some (fst (List.last xs)))"

text \<open>What a signal makes of the state of the submission.\<close>

fun signal_state :: "watch_signal \<times> bool \<Rightarrow> js_bin_state \<Rightarrow> js_bin_state" where
  "signal_state (SIGALRM, True) b = JS_BIN_WALLTIMEOUT"
| "signal_state (SIGUSR2, True) b = JS_BIN_COMPOUT"
| "signal_state (Other_signal, ok) b = b"
| "signal_state (sig, False) b = b"

text \<open>What the watcher has to report, said of the events alone.\<close>

definition watcher_spec :: "int \<Rightarrow> watch_input list \<Rightarrow> jug_sandbox_result" where
  "watcher_spec mem_limit is =
     (if \<exists>i \<in> set is. stopped_by SIGXCPU i then JS_TIMELIMIT
      else if \<exists>i \<in> set is. over_limit mem_limit i then JS_MEMLIMIT
      else case last_signal (concat (map wi_signals is)) of
          Some SIGALRM \<Rightarrow> JS_WALL_TIMELIMIT
        | Some SIGUSR2 \<Rightarrow> JS_CORRECT
        | _ \<Rightarrow> if \<exists>i \<in> set is. stopped_by SIGSEGV i \<or> spawns i \<or> dies i then JS_RUNTIME else JS_CORRECT)"

section \<open>Laws\<close>

text \<open>Bits 8 and 10 of a status say \<open>SIGTRAP\<close>, bits 9 and 10 are those of \<open>PTRACE_EVENT_EXIT\<close>: the test for the
  event is true for every stop by \<open>SIGTRAP\<close>.\<close>

lemma sigtrap_looks_like_exit:
  assumes "WSTOPSIG status = SIGTRAP"
  shows "status AND push_bit 8 PTRACE_EVENT_EXIT \<noteq> 0"
proof
  assume zero: "status AND push_bit 8 PTRACE_EVENT_EXIT = 0"
  have "bit (WSTOPSIG status) 2 = bit (5 :: 32 word) 2" using assms by (simp add: SIGTRAP_def)
  then have "bit status 10" by (simp add: WSTOPSIG_def bit_simps)
  then have "bit (status AND push_bit 8 PTRACE_EVENT_EXIT) 10"
    by (simp add: PTRACE_EVENT_EXIT_def bit_simps)
  with zero show False by simp
qed

lemma handler_step [simp]:
  "sigxcpu_received (watcher_sig_handler x st) = sigxcpu_received st"
  "sigsegv_received (watcher_sig_handler x st) = sigsegv_received st"
  "mem_limit_exceeded (watcher_sig_handler x st) = mem_limit_exceeded st"
  "bin_killed (watcher_sig_handler x st) = bin_killed st"
  "splice_size_acc (watcher_sig_handler x st) = splice_size_acc st"
  "input_closed (watcher_sig_handler x st) = input_closed st"
  by (cases x; cases "fst x"; simp add: watcher_sig_handler_def)+

lemma handler_flags [simp]:
  "sigxcpu_received (fold watcher_sig_handler sigs st) = sigxcpu_received st"
  "sigsegv_received (fold watcher_sig_handler sigs st) = sigsegv_received st"
  "mem_limit_exceeded (fold watcher_sig_handler sigs st) = mem_limit_exceeded st"
  "bin_killed (fold watcher_sig_handler sigs st) = bin_killed st"
  "splice_size_acc (fold watcher_sig_handler sigs st) = splice_size_acc st"
  "input_closed (fold watcher_sig_handler sigs st) = input_closed st"
  by (induction sigs arbitrary: st) simp_all

lemma handler_state:
  "binary_state (fold watcher_sig_handler sigs st) = fold signal_state sigs (binary_state st)"
proof (induction sigs arbitrary: st)
  case (Cons x sigs)
  obtain sig ok where x: "x = (sig, ok)" by (cases x)
  then have "binary_state (watcher_sig_handler x st) = signal_state x (binary_state st)"
    by (cases sig) (auto simp: watcher_sig_handler_def)
  then show ?case using Cons by simp
qed simp

lemma last_signal_Cons:
  "last_signal ((sig, ok) # sigs) = (case last_signal sigs of
     None \<Rightarrow> if ok \<and> sig \<noteq> Other_signal then Some sig else None | Some s \<Rightarrow> Some s)"
  by (auto simp: last_signal_def Let_def)

lemma last_signal_acts: "last_signal sigs = Some sig \<Longrightarrow> sig \<noteq> Other_signal"
proof (induction sigs)
  case (Cons x sigs)
  then show ?case by (cases x) (auto simp: last_signal_Cons split: option.splits if_splits)
qed (simp add: last_signal_def)

lemma signal_state_last:
  "fold signal_state sigs b = (case last_signal sigs of
     None \<Rightarrow> b | Some sig \<Rightarrow> signal_state (sig, True) b)"
proof (induction sigs arbitrary: b)
  case (Cons x sigs)
  obtain sig ok where x: "x = (sig, ok)" by (cases x)
  show ?case
  proof (cases "last_signal sigs")
    case None
    then show ?thesis by (cases sig; cases ok) (simp_all add: x Cons.IH last_signal_Cons)
  next
    case (Some s)
    then show ?thesis
      using last_signal_acts [OF Some] by (cases s) (simp_all add: x Cons.IH last_signal_Cons)
  qed
qed (simp add: last_signal_def)

lemma feed_binary_flags [simp]:
  "sigxcpu_received (feed_binary ds a st) = sigxcpu_received st"
  "sigsegv_received (feed_binary ds a st) = sigsegv_received st"
  "mem_limit_exceeded (feed_binary ds a st) = mem_limit_exceeded st"
  "bin_killed (feed_binary ds a st) = bin_killed st"
  "binary_state (feed_binary ds a st) = binary_state st"
  by (cases a; simp add: feed_binary_def Let_def)+

text \<open>The signals a stop can be by exclude each other.\<close>

lemmas stop_signals = SIGTRAP_def SIGSEGV_def SIGXCPU_def

lemma handle_stop_flags [simp]:
  "sigxcpu_received (handle_stop ml mem s st) \<longleftrightarrow> sigxcpu_received st \<or> WSTOPSIG s = SIGXCPU"
  "sigsegv_received (handle_stop ml mem s st) \<longleftrightarrow> sigsegv_received st \<or> WSTOPSIG s = SIGSEGV"
  "bin_killed (handle_stop ml mem s st) \<longleftrightarrow> bin_killed st \<or> event_stop s PTRACE_EVENT_FORK \<or>
     event_stop s PTRACE_EVENT_CLONE \<or> event_stop s PTRACE_EVENT_VFORK \<or> event_stop s PTRACE_EVENT_EXEC"
  "binary_state (handle_stop ml mem s st) = binary_state st"
  "splice_size_acc (handle_stop ml mem s st) = splice_size_acc st"
  "input_closed (handle_stop ml mem s st) = input_closed st"
  unfolding handle_stop_def Let_def
  by (cases "sigxcpu_received st"; cases "WSTOPSIG s = SIGXCPU"; simp add: stop_signals)+

lemma handle_stop_memory [simp]:
  "mem_limit_exceeded (handle_stop ml mem s st) \<longleftrightarrow> mem_limit_exceeded st \<or>
     WSTOPSIG s = SIGTRAP \<and> mem > 0 \<and> mb_of mem > ml \<or> WSTOPSIG s = SIGSEGV \<and> mem \<ge> 0 \<and> mb_of mem \<ge> ml"
proof (cases "WSTOPSIG s = SIGTRAP")
  case True
  then show ?thesis
    using sigtrap_looks_like_exit [OF True] unfolding handle_stop_def Let_def
    by (cases "mem > 0"; cases "mb_of mem > ml") (simp_all add: stop_signals)
qed (auto simp: handle_stop_def Let_def)

text \<open>The flags say what has been seen.\<close>

lemma watch_iteration_cases:
  assumes "\<not> failing i" and "st1 = (let t = fold watcher_sig_handler (wi_signals i) st in
      if splice_size_acc t < ds then feed_binary ds (wi_splice i) t else t)"
  shows "watch_iteration ml ds i st = Inr (case wi_poll i of
      Event s \<Rightarrow> if WIFSTOPPED s then (handle_stop ml (wi_mem i) s st1, False)
        else (if WIFSIGNALED s then st1\<lparr>bin_killed := True\<rparr> else st1, True)
    | _ \<Rightarrow> (st1, False))"
proof -
  have "wi_splice i \<noteq> Splice_error" using assms(1) by (simp add: failing_def)
  then have "watch_iteration ml ds i st = (case wi_poll i of
      No_event \<Rightarrow> Inr (st1, False)
    | Poll_error \<Rightarrow> Inl (-60)
    | Event s \<Rightarrow> if WIFSTOPPED s then Inr (handle_stop ml (wi_mem i) s st1, False)
        else if WIFEXITED s then Inr (st1, True)
        else if WIFSIGNALED s then Inr (st1\<lparr>bin_killed := True\<rparr>, True) else Inr (st1, True))"
    unfolding watch_iteration_def assms(2) Let_def by simp
  then show ?thesis
    using assms(1) by (cases "wi_poll i") (simp_all add: failing_def WIFSIGNALED_def)
qed

lemma watch_iteration_ok:
  assumes "\<not> failing i"
  obtains st' where "watch_iteration ml ds i st = Inr (st', final i)"
    "sigxcpu_received st' \<longleftrightarrow> sigxcpu_received st \<or> stopped_by SIGXCPU i"
    "sigsegv_received st' \<longleftrightarrow> sigsegv_received st \<or> stopped_by SIGSEGV i"
    "bin_killed st' \<longleftrightarrow> bin_killed st \<or> spawns i \<or> dies i"
    "mem_limit_exceeded st' \<longleftrightarrow> mem_limit_exceeded st \<or> over_limit ml i"
    "binary_state st' = fold signal_state (wi_signals i) (binary_state st)"
    "splice_size_acc st \<le> splice_size_acc st'"
proof -
  define t where "t = fold watcher_sig_handler (wi_signals i) st"
  define st1 where "st1 = (if splice_size_acc t < ds then feed_binary ds (wi_splice i) t else t)"
  have st1: "sigxcpu_received st1 = sigxcpu_received st" "sigsegv_received st1 = sigsegv_received st"
      "bin_killed st1 = bin_killed st" "mem_limit_exceeded st1 = mem_limit_exceeded st"
      "binary_state st1 = fold signal_state (wi_signals i) (binary_state st)" "splice_size_acc st \<le> splice_size_acc st1"
    by (simp_all add: st1_def t_def handler_state feed_binary_def Let_def split: splice_answer.split)
  note seen = stopped_by_def spawns_def dies_def over_limit_def final_def
  have eq: "watch_iteration ml ds i st = Inr (case wi_poll i of
      Event s \<Rightarrow> if WIFSTOPPED s then (handle_stop ml (wi_mem i) s st1, False)
        else (if WIFSIGNALED s then st1\<lparr>bin_killed := True\<rparr> else st1, True)
    | _ \<Rightarrow> (st1, False))"
    by (rule watch_iteration_cases [OF assms]) (simp add: st1_def t_def)
  show thesis
  proof (cases "wi_poll i")
    case (Event s)
    show thesis
      by (rule that [of "if WIFSTOPPED s then handle_stop ml (wi_mem i) s st1
            else if WIFSIGNALED s then st1\<lparr>bin_killed := True\<rparr> else st1"])
        (simp_all add: eq Event st1 seen)
  qed (rule that [of st1]; simp add: eq st1 seen)+
qed

lemma watch_loop_ok:
  assumes "\<exists>i \<in> set is. final i" "\<forall>i \<in> set (watched is). \<not> failing i"
  obtains st' where "watch_loop ml ds is st = Some (Inr st')"
    "sigxcpu_received st' \<longleftrightarrow> sigxcpu_received st \<or> (\<exists>i \<in> set (watched is). stopped_by SIGXCPU i)"
    "sigsegv_received st' \<longleftrightarrow> sigsegv_received st \<or> (\<exists>i \<in> set (watched is). stopped_by SIGSEGV i)"
    "bin_killed st' \<longleftrightarrow> bin_killed st \<or> (\<exists>i \<in> set (watched is). spawns i \<or> dies i)"
    "mem_limit_exceeded st' \<longleftrightarrow> mem_limit_exceeded st \<or> (\<exists>i \<in> set (watched is). over_limit ml i)"
    "binary_state st' = fold signal_state (concat (map wi_signals (watched is))) (binary_state st)"
    "splice_size_acc st \<le> splice_size_acc st'"
  using assms
proof (induction "is" arbitrary: st thesis)
  case (Cons i "is")
  have "\<not> failing i" using Cons.prems by (simp split: if_splits)
  then obtain st1 where st1: "watch_iteration ml ds i st = Inr (st1, final i)"
    "sigxcpu_received st1 \<longleftrightarrow> sigxcpu_received st \<or> stopped_by SIGXCPU i"
    "sigsegv_received st1 \<longleftrightarrow> sigsegv_received st \<or> stopped_by SIGSEGV i"
    "bin_killed st1 \<longleftrightarrow> bin_killed st \<or> spawns i \<or> dies i"
    "mem_limit_exceeded st1 \<longleftrightarrow> mem_limit_exceeded st \<or> over_limit ml i"
    "binary_state st1 = fold signal_state (wi_signals i) (binary_state st)"
    "splice_size_acc st \<le> splice_size_acc st1"
    by (rule watch_iteration_ok)
  show ?case
  proof (cases "final i")
    case True
    then show ?thesis using st1 by (intro Cons.prems(1) [of st1]) simp_all
  next
    case False
    then have "\<exists>i \<in> set is. final i" "\<forall>i \<in> set (watched is). \<not> failing i" using Cons.prems by auto
    then obtain st2 where "watch_loop ml ds is st1 = Some (Inr st2)"
      "sigxcpu_received st2 \<longleftrightarrow> sigxcpu_received st1 \<or> (\<exists>i \<in> set (watched is). stopped_by SIGXCPU i)"
      "sigsegv_received st2 \<longleftrightarrow> sigsegv_received st1 \<or> (\<exists>i \<in> set (watched is). stopped_by SIGSEGV i)"
      "bin_killed st2 \<longleftrightarrow> bin_killed st1 \<or> (\<exists>i \<in> set (watched is). spawns i \<or> dies i)"
      "mem_limit_exceeded st2 \<longleftrightarrow> mem_limit_exceeded st1 \<or> (\<exists>i \<in> set (watched is). over_limit ml i)"
      "binary_state st2 = fold signal_state (concat (map wi_signals (watched is))) (binary_state st1)"
      "splice_size_acc st1 \<le> splice_size_acc st2"
      using Cons.IH by blast
    then show ?thesis using st1 False by (intro Cons.prems(1) [of st2]) auto
  qed
qed simp

lemma watch_flush_mono:
  "watch_flush fl a n = Some True \<Longrightarrow> a \<le> b \<Longrightarrow> watch_flush fl b n = Some True"
  by (induction fl a n arbitrary: b rule: watch_flush.induct) (auto split: if_splits)

text \<open>Closing the pipe of the submission.\<close>

definition closing_inv :: "int \<Rightarrow> watch_state \<Rightarrow> bool" where
  "closing_inv ds st \<longleftrightarrow> (input_closed st \<longleftrightarrow> 0 < ds \<and> ds \<le> splice_size_acc st) \<and> 0 \<le> splice_size_acc st"

lemma closing_inv_feed:
  "closing_inv ds st \<Longrightarrow> splice_size_acc st < ds \<Longrightarrow> closing_inv ds (feed_binary ds a st)"
  by (cases a) (auto simp: closing_inv_def feed_binary_def Let_def)

lemma closing_inv_iteration:
  assumes "closing_inv ds st" "watch_iteration ml ds i st = Inr (st', b)"
  shows "closing_inv ds st'"
proof -
  define t where "t = fold watcher_sig_handler (wi_signals i) st"
  define st1 where "st1 = (if splice_size_acc t < ds then feed_binary ds (wi_splice i) t else t)"
  have "closing_inv ds t" using assms(1) by (simp add: t_def closing_inv_def)
  then have st1: "closing_inv ds st1" by (simp add: st1_def closing_inv_feed)
  have "input_closed st' = input_closed st1 \<and> splice_size_acc st' = splice_size_acc st1"
    using assms(2) unfolding watch_iteration_def Let_def t_def [symmetric] st1_def [symmetric]
    by (auto split: poll_answer.splits if_splits)
  with st1 show ?thesis by (simp add: closing_inv_def)
qed

lemma closing_inv_loop:
  "closing_inv ds st \<Longrightarrow> watch_loop ml ds is st = Some (Inr st') \<Longrightarrow> closing_inv ds st'"
  by (induction ml ds "is" st rule: watch_loop.induct)
    (auto split: sum.splits bool.splits prod.splits dest: closing_inv_iteration)

section \<open>Properties\<close>

text \<open>A sandbox, a preparation in which every call succeeds, and two iterations: the submission dereferences a
  bad pointer while it uses 3 MB of address space, then the kill of the watcher ends it.\<close>

definition sample_sandbox :: sandbox where
  "sample_sandbox = \<lparr>use_ERFS = 1, chroot_dir = ''/erfs'', use_cgroups = 0, use_setrlimit = 1,
     mem_limit_mb_default = 64, time_limit_ms_default = 1000, walltime_limit_ms_default = 3000\<rparr>"

definition sample_setup :: setup_env where
  "sample_setup = \<lparr>se_chdir = True, se_chroot = True, se_umount_proc = Err_EINVAL, se_mount_proc = True,
     se_umount_tmp = Err_EINVAL, se_mount_tmp = True, se_bind_tmp = True, se_dup_out = Ok, se_pipe = True,
     se_fd1 = True, se_fd2 = True, se_fd3 = True, se_sigusr2 = True, se_fd4 = True, se_fork = 77,
     se_setoptions = True\<rparr>"

definition segv_run :: "watch_input list" where
  "segv_run = [\<lparr>wi_signals = [], wi_splice = Spliced 4, wi_poll = Event 0x0B7F, wi_mem = 3000000\<rparr>,
     \<lparr>wi_signals = [(Other_signal, True)], wi_splice = Splice_again, wi_poll = Event 9, wi_mem = 0\<rparr>]"

text \<open>C7: \<open>jug_sandbox_watcher\<close> reports exactly what its specification says of the events of the run: whenever the
  preparation succeeds, the submission ends, no call of the event loop fails and the input left in the pipe
  can be read, the watcher terminates, and its exit code is time limit if the submission was stopped by
  \<open>SIGXCPU\<close>, else memory limit if it was over the limit at a \<open>SIGTRAP\<close> or \<open>SIGSEGV\<close> stop, else what the last
  effective signal to the watcher asks for, else run time error if it was stopped by \<open>SIGSEGV\<close>, tried to start
  a process or was killed, else correct.\<close>

theorem watcher_refines_spec:
  assumes "watcher_setup sb e = None"
    and "\<exists>i \<in> set inputs. final i" and "\<forall>i \<in> set (watched inputs). \<not> failing i"
    and "watch_flush fl 0 datasource_size = Some True"
  shows "jug_sandbox_watcher sb mem_limit datasource_size e inputs fl =
    Some (result_int (watcher_spec mem_limit (watched inputs)))"
proof -
  obtain st where loop: "watch_loop mem_limit datasource_size inputs watch_start = Some (Inr st)"
    and flags: "sigxcpu_received st \<longleftrightarrow> (\<exists>i \<in> set (watched inputs). stopped_by SIGXCPU i)"
      "sigsegv_received st \<longleftrightarrow> (\<exists>i \<in> set (watched inputs). stopped_by SIGSEGV i)"
      "bin_killed st \<longleftrightarrow> (\<exists>i \<in> set (watched inputs). spawns i \<or> dies i)"
      "mem_limit_exceeded st \<longleftrightarrow> (\<exists>i \<in> set (watched inputs). over_limit mem_limit i)"
      "binary_state st = fold signal_state (concat (map wi_signals (watched inputs))) JS_BIN_RUNNING"
    and moved: "0 \<le> splice_size_acc st"
    by (rule watch_loop_ok [OF assms(2,3), of mem_limit datasource_size watch_start])
      (simp add: watch_start_def)
  have flush: "watch_flush fl (splice_size_acc st) datasource_size = Some True"
    using watch_flush_mono [OF assms(4) moved] .
  let ?last = "last_signal (concat (map wi_signals (watched inputs)))"
  have "watch_result st = watcher_spec mem_limit (watched inputs)"
  proof (cases ?last)
    case None
    then show ?thesis
      by (auto simp: watch_result_def watcher_spec_def flags signal_state_last)
  next
    case (Some sig)
    then show ?thesis
      using last_signal_acts [OF Some]
      by (cases sig) (simp_all add: watch_result_def watcher_spec_def flags signal_state_last)
  qed
  then show ?thesis by (simp add: jug_sandbox_watcher_def assms(1) loop flush)
qed

theorem watcher_refines_spec_witness:
  "jug_sandbox_watcher sample_sandbox 64 4 sample_setup segv_run [Flush_again, Flushed 4] =
     Some (result_int (watcher_spec 64 (watched segv_run))) \<and>
   watcher_spec 64 (watched segv_run) = JS_RUNTIME"
proof
  show "jug_sandbox_watcher sample_sandbox 64 4 sample_setup segv_run [Flush_again, Flushed 4] =
     Some (result_int (watcher_spec 64 (watched segv_run)))"
    by (rule watcher_refines_spec)
      (simp_all add: watcher_setup_def sample_sandbox_def sample_setup_def segv_run_def final_def failing_def
        WIFSTOPPED_def)
  show "watcher_spec 64 (watched segv_run) = JS_RUNTIME"
    by (simp add: watcher_spec_def segv_run_def final_def stopped_by_def over_limit_def spawns_def dies_def
        event_stop_def WIFSTOPPED_def WSTOPSIG_def WIFSIGNALED_def WIFEXITED_def WTERMSIG_def stop_signals
        last_signal_def mb_of_def PTRACE_EVENT_FORK_def PTRACE_EVENT_CLONE_def PTRACE_EVENT_VFORK_def
        PTRACE_EVENT_EXEC_def)
qed

text \<open>C35: When the event loop ends, the watcher has closed its end of the submission's input exactly if there was
  input and all of it was moved. A submission with an empty input file never reads the end of its input:
  the descriptor is only closed inside the branch that moves data.\<close>

theorem input_pipe_closed_iff:
  assumes "watch_loop mem_limit datasource_size inputs watch_start = Some (Inr st)"
  shows "input_closed st \<longleftrightarrow> 0 < datasource_size \<and> datasource_size \<le> splice_size_acc st"
proof -
  have "closing_inv datasource_size watch_start" by (simp add: closing_inv_def watch_start_def)
  from closing_inv_loop [OF this assms] show ?thesis by (simp add: closing_inv_def)
qed

theorem input_pipe_closed_iff_witness:
  "\<exists>st. watch_loop 64 0 [\<lparr>wi_signals = [], wi_splice = Splice_again, wi_poll = Event 0, wi_mem = 0\<rparr>] watch_start =
     Some (Inr st) \<and> \<not> input_closed st"
proof -
  have run: "watch_loop 64 0 [\<lparr>wi_signals = [], wi_splice = Splice_again, wi_poll = Event 0, wi_mem = 0\<rparr>]
      watch_start = Some (Inr watch_start)"
    by (simp add: watch_iteration_def Let_def WIFSTOPPED_def WIFEXITED_def WTERMSIG_def watch_start_def)
  from input_pipe_closed_iff [OF run] run show ?thesis by simp
qed

text \<open>The watcher asks for no event when the submission calls \<open>exec\<close> (\<open>PTRACE_O_TRACEEXEC\<close> is not among the
  options it sets), so the kernel reports the call as a plain stop by \<open>SIGTRAP\<close>, and such a stop leaves the
  state of the watcher as it was: the submission goes on with its new program, although the code below the
  comment "he's trying to exec(), kill it" is there to kill it.\<close>

theorem exec_goes_unnoticed:
  assumes "mb_of mem \<le> mem_limit"
  shows "handle_stop mem_limit mem 0x057F st = st"
  using assms
  by (simp add: handle_stop_def event_stop_def WSTOPSIG_def stop_signals PTRACE_EVENT_FORK_def
      PTRACE_EVENT_CLONE_def PTRACE_EVENT_VFORK_def PTRACE_EVENT_EXEC_def)

theorem exec_goes_unnoticed_witness: "handle_stop 64 3000000 0x057F watch_start = watch_start"
  by (rule exec_goes_unnoticed) (simp add: mb_of_def)

end
