(* ===== verification/Buffer.thy ===== *)
theory Buffer
  imports Prelude_C
begin

text \<open>
  The growable string buffer (\<open>src/buffer/buffer.c\<close>): \<open>buffer_t\<close> with its three fields, every
  operation that creates, reads or changes one, and the laws the network code relies on. The
  allocation is a byte list, \<open>None\<close> for a null pointer; \<open>data\<close> is the offset of \<open>self->data\<close> in
  \<open>self->alloc\<close>, which \<open>buffer_trim_left\<close> moves. \<open>size_t\<close> arithmetic is done on \<open>64 word\<close>.
  The lemmas give the abstract view of a buffer (the string it holds), show that the operations
  keep its representation well formed, and are collected in the locale \<open>byte_buffer\<close>.
\<close>

section \<open>State\<close>

definition BUFFER_DEFAULT_SIZE :: size_t where
  "BUFFER_DEFAULT_SIZE = 64"

record buffer_t =
  buf_len :: size_t
  buf_alloc :: "char list option"
  buf_data :: nat

text \<open>The pointer \<open>self->data\<close>.\<close>

definition data_ptr :: "buffer_t \<Rightarrow> ptr c_result" where
  "data_ptr self = (case buf_alloc self of
       None \<Rightarrow> Inl Null_deref
     | Some m \<Rightarrow> (if buf_data self \<le> length m then Inr (drop (buf_data self) m)
                  else Inl Out_of_bounds))"

text \<open>The object after the bytes from \<open>self->data\<close> on have become \<open>p\<close>.\<close>

definition with_data :: "buffer_t \<Rightarrow> ptr \<Rightarrow> buffer_t" where
  "with_data self p = (case buf_alloc self of
       None \<Rightarrow> self
     | Some m \<Rightarrow> self\<lparr>buf_alloc := Some (take (buf_data self) m @ p)\<rparr>)"

section \<open>Operations\<close>

definition nearest_multiple_of :: "size_t \<Rightarrow> size_t \<Rightarrow> size_t" where
  "nearest_multiple_of a b = (b + (a - 1)) AND NOT (a - 1)"

text \<open>\<open>None\<close> is the null pointer. The result of \<open>calloc\<close> is not checked by the code: a buffer whose
  \<open>calloc\<close> failed has a null \<open>alloc\<close>.\<close>

definition buffer_new_with_size :: "allocator \<Rightarrow> size_t \<Rightarrow> buffer_t option" where
  "buffer_new_with_size mem n =
     (if \<not> can_alloc mem 24 then None
      else Some \<lparr>buf_len = n, buf_alloc = c_calloc mem (unat (n + 1)), buf_data = 0\<rparr>)"

definition buffer_new :: "allocator \<Rightarrow> buffer_t option" where
  "buffer_new mem = buffer_new_with_size mem BUFFER_DEFAULT_SIZE"

text \<open>The buffer takes over the object \<open>str\<close> points to.\<close>

definition buffer_new_with_string_length :: "allocator \<Rightarrow> ptr \<Rightarrow> size_t \<Rightarrow> buffer_t option" where
  "buffer_new_with_string_length mem str len =
     (if \<not> can_alloc mem 24 then None
      else Some \<lparr>buf_len = len, buf_alloc = Some str, buf_data = 0\<rparr>)"

definition buffer_new_with_string :: "allocator \<Rightarrow> ptr \<Rightarrow> buffer_t option c_result" where
  "buffer_new_with_string mem str =
     c_then (c_strlen str) (\<lambda>n. Inr (buffer_new_with_string_length mem str (of_nat n)))"

definition buffer_new_with_copy :: "allocator \<Rightarrow> ptr \<Rightarrow> buffer_t option c_result" where
  "buffer_new_with_copy mem str = c_then (c_strlen str) (\<lambda>len.
     case buffer_new_with_size mem (of_nat len) of
       None \<Rightarrow> Inr None
     | Some self \<Rightarrow> c_then (data_ptr self) (\<lambda>p. c_then (c_memcpy p str len)
         (\<lambda>q. Inr (Some ((with_data self q)\<lparr>buf_data := 0\<rparr>)))))"

definition buffer_length :: "buffer_t \<Rightarrow> nat c_result" where
  "buffer_length self = c_then (data_ptr self) c_strlen"

definition buffer_size :: "buffer_t \<Rightarrow> size_t" where
  "buffer_size self = buf_len self"

text \<open>The string \<open>self->data\<close> points to, as the callers of \<open>buffer_get_string\<close> read it.\<close>

definition buffer_get_string :: "buffer_t \<Rightarrow> ptr c_result" where
  "buffer_get_string self = data_ptr self"

text \<open>Returns the number of bytes removed, or \<open>-1\<close>.\<close>

definition buffer_compact :: "allocator \<Rightarrow> buffer_t \<Rightarrow> (int \<times> buffer_t) c_result" where
  "buffer_compact mem self = c_then (data_ptr self) (\<lambda>p. c_then (c_strlen p) (\<lambda>len.
     let rem = buf_len self - of_nat len in
     case c_calloc mem (len + 1) of
       None \<Rightarrow> Inr (-1, self)
     | Some buf \<Rightarrow> c_then (c_memcpy buf p len) (\<lambda>buf'.
         Inr (sint rem, \<lparr>buf_len = of_nat len, buf_alloc = Some buf', buf_data = 0\<rparr>))))"

text \<open>\<open>self->len\<close> and \<open>self->data\<close> are overwritten before \<open>realloc\<close>'s result is checked.\<close>

definition buffer_resize :: "allocator \<Rightarrow> buffer_t \<Rightarrow> size_t \<Rightarrow> int \<times> buffer_t" where
  "buffer_resize mem self n0 =
     (let n = nearest_multiple_of 1024 n0;
          old = (case buf_alloc self of None \<Rightarrow> [] | Some m \<Rightarrow> m) in
      case c_realloc mem old (unat (n + 1)) of
        None \<Rightarrow> (-1, \<lparr>buf_len = n, buf_alloc = None, buf_data = 0\<rparr>)
      | Some m \<Rightarrow> (0, \<lparr>buf_len = n, buf_alloc = Some (m[unat n := NUL]), buf_data = 0\<rparr>))"

text \<open>\<open>strncat(self->data, str, len)\<close>.\<close>

definition strncat_data :: "buffer_t \<Rightarrow> ptr \<Rightarrow> size_t \<Rightarrow> (int \<times> buffer_t) c_result" where
  "strncat_data self str len = c_then (data_ptr self) (\<lambda>p.
     c_then (c_strncat p str (unat len)) (\<lambda>q. Inr (0, with_data self q)))"

definition buffer_append_n ::
  "allocator \<Rightarrow> buffer_t \<Rightarrow> ptr \<Rightarrow> size_t \<Rightarrow> (int \<times> buffer_t) c_result" where
  "buffer_append_n mem self str len = c_then (data_ptr self) (\<lambda>p. c_then (c_strlen p) (\<lambda>prev.
     let needed = len + of_nat prev in
     if buf_len self > needed then strncat_data self str len
     else case buffer_resize mem self needed of (ret, self') \<Rightarrow>
       if ret = -1 then Inr (-1, self') else strncat_data self' str len))"

definition buffer_append :: "allocator \<Rightarrow> buffer_t \<Rightarrow> ptr \<Rightarrow> (int \<times> buffer_t) c_result" where
  "buffer_append mem self str =
     c_then (c_strlen str) (\<lambda>n. buffer_append_n mem self str (of_nat n))"

text \<open>\<open>formatted\<close> is what \<open>vsnprintf\<close> produces for the format and its arguments. Its return value is an \<open>int\<close>, negative for a
  text that is too long for one, and so are the length of the old contents and the sum that the buffer is
  resized to.\<close>

definition vsnprintf_ret :: "string \<Rightarrow> int" where
  "vsnprintf_ret formatted = (if length formatted < 2 ^ 31 then int (length formatted) else -1)"

definition buffer_appendf :: "allocator \<Rightarrow> buffer_t \<Rightarrow> string \<Rightarrow> (int \<times> buffer_t) c_result" where
  "buffer_appendf mem self formatted = c_then (buffer_length self) (\<lambda>n.
     let length0 = int32 (int n); required = vsnprintf_ret formatted in
     case buffer_resize mem self (word_of_int (int32 (length0 + required))) of (ret, self') \<Rightarrow>
       if ret = -1 then Inr (-1, self')
       else c_then (data_ptr self') (\<lambda>p.
         if required < 0 then Inr (-1, self')
         else if length0 < 0 then Inl Buffer_overflow
         else c_then (c_memcpy (drop (nat length0) p) (formatted @ [NUL]) (nat required + 1)) (\<lambda>q.
           Inr (0, with_data self' (take (nat length0) p @ q)))))"

text \<open>The \<open>memmove\<close> of \<open>buffer_prepend\<close> moves \<open>len + 1\<close> bytes, where \<open>len\<close> is the length of \<open>str\<close>.\<close>

definition prepend_move :: "buffer_t \<Rightarrow> ptr \<Rightarrow> nat \<Rightarrow> (int \<times> buffer_t) c_result" where
  "prepend_move self str len = c_then (data_ptr self) (\<lambda>p.
     c_then (c_memcpy (drop len p) p (len + 1)) (\<lambda>q.
       c_then (c_memcpy (take len p @ q) str len) (\<lambda>r. Inr (0, with_data self r))))"

definition buffer_prepend :: "allocator \<Rightarrow> buffer_t \<Rightarrow> ptr \<Rightarrow> (int \<times> buffer_t) c_result" where
  "buffer_prepend mem self str = c_then (c_strlen str) (\<lambda>len.
     c_then (buffer_length self) (\<lambda>prev.
       let needed = of_nat len + of_nat prev in
       if buf_len self > needed then prepend_move self str len
       else case buffer_resize mem self needed of (ret, self') \<Rightarrow>
         if ret = -1 then Inr (-1, self') else prepend_move self' str len))"

text \<open>\<open>to\<close> is an \<open>ssize_t\<close>; both range checks compare it as a \<open>size_t\<close>.\<close>

definition buffer_slice ::
  "allocator \<Rightarrow> buffer_t \<Rightarrow> size_t \<Rightarrow> size_t \<Rightarrow> buffer_t option c_result" where
  "buffer_slice mem buf from to0 = c_then (data_ptr buf) (\<lambda>p. c_then (c_strlen p) (\<lambda>len.
     if to0 < from then Inr None
     else
       let to1 = (if sint to0 < 0 then of_nat len - NOT to0 else to0);
           to2 = (if to1 > of_nat len then of_nat len else to1);
           n = to2 - from in
       case buffer_new_with_size mem n of
         None \<Rightarrow> Inl Null_deref
       | Some self \<Rightarrow> c_then (data_ptr self) (\<lambda>d.
           c_then (c_memcpy d (drop (unat from) p) (unat n)) (\<lambda>d'.
             Inr (Some (with_data self d'))))))"

text \<open>\<open>strcmp\<close> and \<open>strstr\<close> are defined on strings, so an object without a terminator is a fault.\<close>

definition buffer_equals :: "buffer_t \<Rightarrow> buffer_t \<Rightarrow> bool c_result" where
  "buffer_equals self other = c_then (data_ptr self) (\<lambda>p. c_then (data_ptr other) (\<lambda>q.
     if NUL \<in> set p \<and> NUL \<in> set q then Inr (cstr p = cstr q) else Inl Out_of_bounds))"

text \<open>Index of the substring, \<open>-1\<close> if it does not occur.\<close>

definition buffer_indexof :: "buffer_t \<Rightarrow> string \<Rightarrow> int c_result" where
  "buffer_indexof self str = c_then (data_ptr self) (\<lambda>p.
     if NUL \<notin> set p then Inl Out_of_bounds
     else case find_sub str (cstr p) of None \<Rightarrow> Inr (-1) | Some k \<Rightarrow> Inr (int k))"

fun count_spaces :: "ptr \<Rightarrow> nat c_result" where
  "count_spaces [] = Inl Out_of_bounds"
| "count_spaces (c # p) =
     (if c \<noteq> NUL \<and> is_space c then c_then (count_spaces p) (\<lambda>n. Inr (Suc n)) else Inr 0)"

definition buffer_trim_left :: "buffer_t \<Rightarrow> buffer_t c_result" where
  "buffer_trim_left self = c_then (data_ptr self) (\<lambda>p. c_then (count_spaces p) (\<lambda>n.
     Inr (self\<lparr>buf_data := buf_data self + n\<rparr>)))"

text \<open>The loop of \<open>buffer_trim_right\<close>, at index \<open>i\<close>, a \<open>size_t\<close>. The code decrements \<open>i\<close> past
  \<open>0\<close>, which wraps around to an index outside the object.\<close>

fun trim_right_loop :: "nat \<Rightarrow> ptr \<Rightarrow> ptr c_result" where
  "trim_right_loop i p =
     (if i \<ge> length p then Inl Out_of_bounds
      else if p ! i \<noteq> NUL \<and> is_space (p ! i)
      then (case i of 0 \<Rightarrow> Inl Out_of_bounds | Suc j \<Rightarrow> trim_right_loop j (p[i := NUL]))
      else Inr p)"

definition buffer_trim_right :: "buffer_t \<Rightarrow> buffer_t c_result" where
  "buffer_trim_right self = c_then (data_ptr self) (\<lambda>p. c_then (c_strlen p) (\<lambda>len.
     c_then (trim_right_loop (unat ((of_nat len :: size_t) - 1)) p) (\<lambda>q. Inr (with_data self q))))"

definition buffer_trim :: "buffer_t \<Rightarrow> buffer_t c_result" where
  "buffer_trim self = c_then (buffer_trim_left self) buffer_trim_right"

definition buffer_fill :: "buffer_t \<Rightarrow> char \<Rightarrow> buffer_t c_result" where
  "buffer_fill self c = c_then (data_ptr self) (\<lambda>p.
     if unat (buf_len self) \<le> length p
     then Inr (with_data self (replicate (unat (buf_len self)) c @ drop (unat (buf_len self)) p))
     else Inl Buffer_overflow)"

definition buffer_clear :: "buffer_t \<Rightarrow> buffer_t c_result" where
  "buffer_clear self = buffer_fill self NUL"

text \<open>\<open>buffer_free\<close>: the allocation is gone, and every later access through the structure faults.\<close>

definition buffer_free :: "buffer_t \<Rightarrow> buffer_t" where
  "buffer_free self = self\<lparr>buf_alloc := None\<rparr>"

section \<open>The abstract view\<close>

text \<open>A well-formed buffer that no \<open>buffer_trim_left\<close> has touched: it owns \<open>len + 1\<close> bytes, the last
  of them the terminator. The bound leaves \<open>size_t\<close> room for the next request.\<close>

definition buffer_inv :: "buffer_t \<Rightarrow> bool" where
  "buffer_inv b \<longleftrightarrow> (\<exists>m. buf_alloc b = Some m \<and> buf_data b = 0 \<and>
     length m = unat (buf_len b) + 1 \<and> last m = NUL \<and> unat (buf_len b) < 2 ^ 62)"

text \<open>The string the buffer holds.\<close>

definition buffer_abs :: "buffer_t \<Rightarrow> string" where
  "buffer_abs b = (case data_ptr b of Inr p \<Rightarrow> cstr p | Inl _ \<Rightarrow> [])"

text \<open>Allocations the theorems need: every request up to \<open>2\<^sup>62\<close> bytes is granted.\<close>

definition ample :: "allocator \<Rightarrow> bool" where
  "ample mem \<longleftrightarrow> (\<forall>n \<le> 2 ^ 62. can_alloc mem n)"

section \<open>Laws of the representation\<close>

declare trim_right_loop.simps [simp del]

lemma ampleD: "ample mem \<Longrightarrow> n \<le> 2 ^ 62 \<Longrightarrow> can_alloc mem n"
  by (simp add: ample_def)

lemma data_ptr_0 [simp]:
  "data_ptr \<lparr>buf_len = l, buf_alloc = Some m, buf_data = 0\<rparr> = Inr m"
  by (simp add: data_ptr_def)

lemma with_data_0 [simp]:
  "with_data \<lparr>buf_len = l, buf_alloc = Some m, buf_data = 0\<rparr> p =
     \<lparr>buf_len = l, buf_alloc = Some p, buf_data = 0\<rparr>"
  by (simp add: with_data_def)

lemma buffer_abs_0 [simp]:
  "buffer_abs \<lparr>buf_len = l, buf_alloc = Some m, buf_data = 0\<rparr> = cstr m"
  by (simp add: buffer_abs_def)

lemma buffer_invE:
  assumes "buffer_inv b"
  obtains l m where "b = \<lparr>buf_len = l, buf_alloc = Some m, buf_data = 0\<rparr>"
    "NUL \<in> set m" "length m = unat l + 1" "last m = NUL" "unat l < 2 ^ 62"
proof -
  from assms obtain m where m: "buf_alloc b = Some m" "buf_data b = 0"
      "length m = unat (buf_len b) + 1" "last m = NUL" "unat (buf_len b) < 2 ^ 62"
    by (auto simp: buffer_inv_def)
  then have "NUL \<in> set m" by (metis last_in_set length_0_conv Suc_eq_plus1 nat.distinct(1))
  then show thesis using m by (intro that [of "buf_len b" m]) auto
qed

lemma buffer_inv_0 [simp]:
  "buffer_inv \<lparr>buf_len = l, buf_alloc = Some m, buf_data = 0\<rparr> \<longleftrightarrow>
     length m = unat l + 1 \<and> last m = NUL \<and> unat l < 2 ^ 62"
  by (simp add: buffer_inv_def)

lemma buffer_abs_noNUL [simp]: "NUL \<notin> set (buffer_abs b)"
  by (auto simp: buffer_abs_def split: sum.splits)

lemma buffer_abs_length: "buffer_inv b \<Longrightarrow> length (buffer_abs b) \<le> unat (buf_len b)"
  by (erule buffer_invE) (use length_cstr in fastforce)

lemma and_not_1023: "unat (x AND NOT 1023 :: size_t) = unat x div 1024 * 1024"
proof -
  have m: "(1023 :: size_t) = mask 10" by (simp add: mask_eq_exp_minus_1)
  have "x AND NOT 1023 = push_bit 10 (drop_bit 10 x)"
    unfolding m by (rule bit_eqI) (auto simp: bit_simps)
  moreover have "unat (drop_bit 10 x) = unat x div 1024"
    by (simp add: drop_bit_eq_div unat_div)
  moreover have "unat x div 1024 * 1024 < 2 ^ 64"
    using unat_lt64 [of x] by simp
  ultimately show ?thesis
    by (simp only: push_bit_eq_mult) (simp add: unat_word_ariths mult.commute)
qed

text \<open>\<open>nearest_multiple_of\<close> rounds up to the next multiple of 1024.\<close>

lemma nearest_multiple_1024:
  assumes "unat n \<le> 2 ^ 62"
  shows "unat (nearest_multiple_of 1024 n) = (unat n + 1023) div 1024 * 1024"
proof -
  have "unat (n + 1023) = unat n + 1023" using assms by (simp add: unat_word_ariths)
  then show ?thesis using and_not_1023 [of "n + 1023"] by (simp add: nearest_multiple_of_def)
qed

lemma c_strncat_fits:
  assumes "NUL \<notin> set s" "NUL \<in> set p" "length (cstr p) + length s < length p"
  shows "c_strncat p s (length s) =
    Inr (cstr p @ s @ [NUL] @ drop (length (cstr p) + length s + 1) p)"
proof -
  obtain r where r: "p = cstr p @ NUL # r" using assms(2) by (rule cstr_split)
  then have "take (length (cstr p)) p = cstr p" by (metis append_eq_conv_conj)
  then show ?thesis
    using assms by (simp add: c_strncat_def c_strlen_cstr)
qed

lemma strncat_data_fits:
  assumes b: "buffer_inv b" and s: "NUL \<notin> set s"
    and fits: "length (buffer_abs b) + length s \<le> unat (buf_len b)"
  shows "\<exists>b'. strncat_data b s (of_nat (length s)) = Inr (0, b') \<and> buffer_inv b' \<and>
    buffer_abs b' = buffer_abs b @ s \<and> buf_len b' = buf_len b"
proof -
  from b obtain l m where m: "b = \<lparr>buf_len = l, buf_alloc = Some m, buf_data = 0\<rparr>"
    "NUL \<in> set m" "length m = unat l + 1" "last m = NUL" "unat l < 2 ^ 62"
    by (rule buffer_invE)
  let ?k = "length (cstr m) + length s"
  let ?m = "cstr m @ s @ [NUL] @ drop (?k + 1) m"
  from fits m have f: "?k \<le> unat l" by simp
  then have "c_strncat m s (length s) = Inr ?m"
    using m s by (intro c_strncat_fits) simp_all
  moreover have "length s < 2 ^ 64" using f m by simp
  ultimately have "strncat_data b s (of_nat (length s)) =
      Inr (0, \<lparr>buf_len = l, buf_alloc = Some ?m, buf_data = 0\<rparr>)"
    using m(1) by (simp add: strncat_data_def)
  moreover have "last ?m = NUL"
    using m by (cases "drop (?k + 1) m = []") (simp_all add: last_drop)
  moreover have "cstr ?m = cstr m @ s"
    using s cstr_terminated [of "cstr m @ s" "drop (?k + 1) m"] by simp
  ultimately show ?thesis using m f by simp
qed

text \<open>The length of a buffer is \<open>BUFFER_DEFAULT_SIZE\<close> until the first resize and the smallest multiple
  of 1024 that its contents need after it.\<close>

definition buffer_tight :: "buffer_t \<Rightarrow> bool" where
  "buffer_tight b \<longleftrightarrow> (let l = unat (buf_len b); n = length (buffer_abs b) in
     l = 64 \<and> n < 64 \<or> 1024 dvd l \<and> n \<le> l \<and> l < n + 1024)"

lemma round_up_1024:
  fixes n :: nat
  shows "n \<le> (n + 1023) div 1024 * 1024" "(n + 1023) div 1024 * 1024 < n + 1024"
    "1024 dvd (n + 1023) div 1024 * 1024"
  by simp_all

lemma buffer_resize_ok:
  assumes mem: "ample mem" and b: "buffer_inv b"
    and n: "length (buffer_abs b) \<le> n" "n \<le> 2 ^ 60"
  shows "\<exists>b'. buffer_resize mem b (of_nat n) = (0, b') \<and> buffer_inv b' \<and>
    buffer_abs b' = buffer_abs b \<and> unat (buf_len b') = (n + 1023) div 1024 * 1024"
proof -
  from b obtain l m where m: "b = \<lparr>buf_len = l, buf_alloc = Some m, buf_data = 0\<rparr>"
    "NUL \<in> set m" "length m = unat l + 1" "last m = NUL" "unat l < 2 ^ 62"
    by (rule buffer_invE)
  obtain r where r: "m = cstr m @ NUL # r" using m(2) by (rule cstr_split)
  define l' where "l' = nearest_multiple_of 1024 (of_nat n)"
  have l': "unat l' = (n + 1023) div 1024 * 1024"
    using n by (simp add: l'_def nearest_multiple_1024)
  with n(2) have l'1: "unat (l' + 1) = unat l' + 1" "unat l' < 2 ^ 62"
    by (simp_all add: unat_word_ariths)
  let ?m = "take (unat l' + 1) m @ map (junk mem) [length m..<unat l' + 1]"
  have "can_alloc mem (unat l' + 1)" using mem l'1 by (intro ampleD) simp_all
  then have eq: "buffer_resize mem b (of_nat n) =
      (0, \<lparr>buf_len = l', buf_alloc = Some (?m[unat l' := NUL]), buf_data = 0\<rparr>)"
    using m(1) l'1 by (simp add: buffer_resize_def l'_def Let_def c_realloc_def)
  have len: "length ?m = unat l' + 1" by simp
  have k: "length (cstr m) \<le> unat l'" using n(1) m(1) l' round_up_1024(1) [of n] by simp
  then have "\<exists>r'. ?m[unat l' := NUL] = cstr m @ NUL # r'"
    by (subst (1 2 3) r) (auto simp: list_update_append take_Cons' list_update.simps split: nat.split)
  then have "cstr (?m[unat l' := NUL]) = cstr m" by (metis cstr_noNUL cstr_terminated)
  moreover have "last (?m[unat l' := NUL]) = NUL"
    using len by (simp add: last_list_update)
  ultimately show ?thesis using eq l' l'1 m(1) len by simp
qed

text \<open>Appending, with the length the buffer has afterwards.\<close>

lemma buffer_append_n_grow:
  assumes mem: "ample mem" and b: "buffer_inv b" and s: "NUL \<notin> set s"
    and small: "length (buffer_abs b) + length s \<le> 2 ^ 60"
  shows "\<exists>b'. buffer_append_n mem b s (of_nat (length s)) = Inr (0, b') \<and> buffer_inv b' \<and>
    buffer_abs b' = buffer_abs b @ s \<and> unat (buf_len b') =
      (if unat (buf_len b) > length (buffer_abs b) + length s then unat (buf_len b)
       else (length (buffer_abs b) + length s + 1023) div 1024 * 1024)"
proof -
  let ?n = "length (buffer_abs b) + length s"
  from b obtain l m where m: "b = \<lparr>buf_len = l, buf_alloc = Some m, buf_data = 0\<rparr>"
    "NUL \<in> set m" "length m = unat l + 1" "last m = NUL" "unat l < 2 ^ 62"
    by (rule buffer_invE)
  have needed: "of_nat (length s) + of_nat (length (cstr m)) = (of_nat ?n :: size_t)"
    using m(1) by simp
  have big: "buf_len b > of_nat ?n \<longleftrightarrow> unat (buf_len b) > ?n"
    using small by (simp only: word_less_nat_alt) (simp del: of_nat_add)
  show ?thesis
  proof (cases "unat (buf_len b) > ?n")
    case True
    then obtain b' where b': "strncat_data b s (of_nat (length s)) = Inr (0, b')" "buffer_inv b'"
        "buffer_abs b' = buffer_abs b @ s" "buf_len b' = buf_len b"
      using strncat_data_fits [OF b s] by auto
    moreover have "buffer_append_n mem b s (of_nat (length s)) = Inr (0, b')"
      using True b'(1) m(1,2) needed big
      by (simp add: buffer_append_n_def c_strlen_cstr Let_def del: of_nat_add)
    ultimately show ?thesis using True by auto
  next
    case False
    obtain c where c: "buffer_resize mem b (of_nat ?n) = (0, c)" "buffer_inv c"
        "buffer_abs c = buffer_abs b" "unat (buf_len c) = (?n + 1023) div 1024 * 1024"
      using buffer_resize_ok [OF mem b _ small] by auto
    have "?n \<le> unat (buf_len c)" using c(4) round_up_1024(1) [of ?n] by simp
    then obtain b' where b': "strncat_data c s (of_nat (length s)) = Inr (0, b')" "buffer_inv b'"
        "buffer_abs b' = buffer_abs b @ s" "buf_len b' = buf_len c"
      using strncat_data_fits [OF c(2) s] c(3) by auto
    moreover have "buffer_append_n mem b s (of_nat (length s)) = Inr (0, b')"
      using False b'(1) c(1) m(1,2) needed big
      by (simp add: buffer_append_n_def c_strlen_cstr Let_def del: of_nat_add)
    ultimately show ?thesis using False c(4) by auto
  qed
qed

lemma buffer_append_n_ok:
  assumes "ample mem" "buffer_inv b" "NUL \<notin> set s" "length (buffer_abs b) + length s \<le> 2 ^ 60"
  shows "\<exists>b'. buffer_append_n mem b s (of_nat (length s)) = Inr (0, b') \<and> buffer_inv b' \<and>
    buffer_abs b' = buffer_abs b @ s \<and> (buffer_tight b \<longrightarrow> buffer_tight b')"
proof -
  obtain b' where b': "buffer_append_n mem b s (of_nat (length s)) = Inr (0, b')" "buffer_inv b'"
      "buffer_abs b' = buffer_abs b @ s"
      "unat (buf_len b') = (if unat (buf_len b) > length (buffer_abs b) + length s then unat (buf_len b)
        else (length (buffer_abs b) + length s + 1023) div 1024 * 1024)"
    using buffer_append_n_grow [OF assms] by blast
  moreover have "buffer_tight b \<longrightarrow> buffer_tight b'"
    using b'(3,4) round_up_1024 [of "length (buffer_abs b) + length s"]
    by (auto simp: buffer_tight_def Let_def split: if_splits)
  ultimately show ?thesis by blast
qed

lemma buffer_new_ok:
  assumes "ample mem"
  shows "\<exists>b. buffer_new mem = Some b \<and> buffer_inv b \<and> buffer_abs b = [] \<and> buffer_tight b"
proof -
  have "can_alloc mem 24" "can_alloc mem 65" using assms by (simp_all add: ampleD)
  then have "buffer_new mem = Some \<lparr>buf_len = 64, buf_alloc = Some (replicate 65 NUL), buf_data = 0\<rparr>"
    by (simp add: buffer_new_def buffer_new_with_size_def BUFFER_DEFAULT_SIZE_def c_calloc_def)
  moreover have "cstr (replicate 65 NUL) = []" by (simp add: cstr_def)
  ultimately show ?thesis by (simp add: buffer_tight_def)
qed

lemma buffer_indexof_ok:
  assumes "buffer_inv b"
  shows "buffer_indexof b str = Inr (case find_sub str (buffer_abs b) of None \<Rightarrow> -1 | Some k \<Rightarrow> int k)"
  using assms by (rule buffer_invE) (simp add: buffer_indexof_def split: option.split)

lemma buffer_new_with_size_ok:
  assumes "ample mem" "unat n < 2 ^ 62"
  shows "buffer_new_with_size mem n =
    Some \<lparr>buf_len = n, buf_alloc = Some (replicate (unat n + 1) NUL), buf_data = 0\<rparr>"
proof -
  have "unat (n + 1) = unat n + 1" using assms by (simp add: unat_word_ariths)
  then show ?thesis using assms ampleD [OF assms(1), of "unat n + 1"] ampleD [OF assms(1), of 24]
    by (simp add: buffer_new_with_size_def c_calloc_def)
qed

text \<open>A slice from \<open>from\<close> up to \<open>to\<close>, or up to the end of the string if \<open>to\<close> is past it.\<close>

lemma buffer_slice_ok:
  assumes mem: "ample mem" and b: "buffer_inv b" and to: "unat to0 < 2 ^ 62"
    and ft: "unat from \<le> unat to0" "unat from \<le> length (buffer_abs b)"
  shows "\<exists>c. buffer_slice mem b from to0 = Inr (Some c) \<and> buffer_inv c \<and>
    buf_alloc c = Some (drop (unat from) (take (unat to0) (buffer_abs b)) @ [NUL])"
proof -
  from b obtain l m where m: "b = \<lparr>buf_len = l, buf_alloc = Some m, buf_data = 0\<rparr>"
    "NUL \<in> set m" "length m = unat l + 1" "last m = NUL" "unat l < 2 ^ 62"
    by (rule buffer_invE)
  define k where "k = length (cstr m)"
  have k: "k \<le> unat l" using m by (simp add: k_def) (metis Suc_eq_plus1 length_cstr less_Suc_eq_le)
  have sgn: "\<not> sint to0 < 0"
    using to by (simp add: sint_small64)
  define n where "n = min (unat to0) k - unat from"
  have fk: "unat from \<le> k" using ft(2) m(1) by (simp add: k_def)
  let ?to = "if to0 > of_nat k then of_nat k else to0"
  have uto: "unat ?to = min (unat to0) k" using k m(5)
    by (simp add: word_less_nat_alt min_def)
  then have un: "unat (?to - from) = n" using fk ft(1) 
    by (simp add: n_def unat_sub word_le_nat_alt)
  have src: "n \<le> length (drop (unat from) m)" using k m(3) by (auto simp: n_def)
  have tk: "take n (drop (unat from) m) = drop (unat from) (take (unat to0) (cstr m))"
  proof -
    obtain r where r: "m = cstr m @ NUL # r" using m(2) by (rule cstr_split)
    have "take n (drop (unat from) m) = drop (unat from) (take (min (unat to0) k) m)"
      using fk ft(1) by (simp add: n_def drop_take)
    also have "take (min (unat to0) k) m = take (unat to0) (cstr m)"
      by (subst r) (simp add: k_def min_def)
    finally show ?thesis .
  qed
  have nl: "n < 2 ^ 62" using k m(5) by (simp add: n_def)
  have "buffer_slice mem b from to0 = Inr (Some
      \<lparr>buf_len = ?to - from, buf_alloc = Some (take n (drop (unat from) m) @ [NUL]), buf_data = 0\<rparr>)"
  proof -
    have "\<not> to0 < from" using ft(1) by (simp add: word_less_nat_alt)
    moreover have "c_memcpy (replicate (n + 1) NUL) (drop (unat from) m) n =
        Inr (take n (drop (unat from) m) @ [NUL])"
      using src by (simp add: c_memcpy_def drop_Cons' split: nat.split)
    ultimately show ?thesis
      using m(1,2) sgn un nl buffer_new_with_size_ok [OF mem, of "?to - from"]
      by (simp add: buffer_slice_def c_strlen_cstr Let_def flip: k_def del: replicate.simps)
  qed
  moreover have "length (take n (drop (unat from) m)) = n" using src by simp
  ultimately show ?thesis using tk un nl m(1) by simp
qed

section \<open>The interface of a byte buffer\<close>

text \<open>What the network code relies on: appending bytes without a terminator concatenates, and searching
  finds the first occurrence in what has been appended so far.\<close>

locale byte_buffer =
  fixes invar :: "'b \<Rightarrow> bool"
    and contents :: "'b \<Rightarrow> string"
    and append_bytes :: "'b \<Rightarrow> string \<Rightarrow> (int \<times> 'b) c_result"
    and index_of :: "'b \<Rightarrow> string \<Rightarrow> int c_result"
    and max_size :: nat
  assumes append_ok: "invar b \<Longrightarrow> NUL \<notin> set s \<Longrightarrow> length (contents b) + length s \<le> max_size \<Longrightarrow>
      \<exists>b'. append_bytes b s = Inr (0, b') \<and> invar b' \<and> contents b' = contents b @ s"
    and index_ok: "invar b \<Longrightarrow> index_of b str =
      Inr (case find_sub str (contents b) of None \<Rightarrow> -1 | Some k \<Rightarrow> int k)"
begin

text \<open>How the bytes are cut into two appends does not matter.\<close>

lemma append_split:
  assumes "invar b" "NUL \<notin> set s" "NUL \<notin> set t"
    and "length (contents b) + length s + length t \<le> max_size"
  shows "\<exists>b1 b2 b3. append_bytes b s = Inr (0, b1) \<and> append_bytes b1 t = Inr (0, b2) \<and>
    append_bytes b (s @ t) = Inr (0, b3) \<and> contents b2 = contents b3"
proof -
  obtain b1 where 1: "append_bytes b s = Inr (0, b1)" "invar b1" "contents b1 = contents b @ s"
    using append_ok [OF assms(1,2)] assms(4) by auto
  obtain b2 where 2: "append_bytes b1 t = Inr (0, b2)" "contents b2 = contents b1 @ t"
    using append_ok [OF 1(2) assms(3)] 1(3) assms(4) by auto
  obtain b3 where "append_bytes b (s @ t) = Inr (0, b3)" "contents b3 = contents b @ s @ t"
    using append_ok [OF assms(1), of "s @ t"] assms(2-4) by auto
  with 1 2 show ?thesis by auto
qed

text \<open>The position of the first line end is that of the header, whatever follows it.\<close>

lemma index_of_line:
  assumes "invar b" "contents b = h @ LF # r" "LF \<notin> set h"
  shows "index_of b [LF] = Inr (int (length h))"
  using assms by (simp add: index_ok find_sub_char)

lemma index_of_no_line:
  assumes "invar b" "LF \<notin> set (contents b)"
  shows "index_of b [LF] = Inr (-1)"
  using assms by (simp add: index_ok find_sub_char_None)

end

text \<open>The buffer of \<open>buffer.c\<close> on a heap that grants its requests provides it.\<close>

definition heap_buffer_inv :: "allocator \<times> buffer_t \<Rightarrow> bool" where
  "heap_buffer_inv = (\<lambda>(mem, b). ample mem \<and> buffer_inv b \<and> buffer_tight b)"

definition heap_append :: "allocator \<times> buffer_t \<Rightarrow> string \<Rightarrow> (int \<times> allocator \<times> buffer_t) c_result" where
  "heap_append = (\<lambda>(mem, b) s. c_then (buffer_append_n mem b s (of_nat (length s)))
     (\<lambda>(r, b'). Inr (r, mem, b')))"

interpretation heap_buffer: byte_buffer heap_buffer_inv "\<lambda>(mem, b). buffer_abs b" heap_append
  "\<lambda>(mem, b). buffer_indexof b" "2 ^ 60"
proof (unfold_locales, goal_cases)
  case (1 b s)
  then show ?case
    using buffer_append_n_ok [of "fst b" "snd b" s]
    by (force simp: heap_buffer_inv_def heap_append_def split: prod.splits)
next
  case (2 b str)
  then show ?case by (auto simp: heap_buffer_inv_def buffer_indexof_ok)
qed

section \<open>Further laws\<close>

definition roomy :: allocator where
  "roomy = \<lparr>can_alloc = (\<lambda>n. n \<le> 2 ^ 62), junk = (\<lambda>n. CHR ''?'')\<rparr>"

lemma roomy_ample [simp]: "ample roomy"
  by (simp add: ample_def roomy_def)

text \<open>Every allocation succeeds, and fresh memory holds arbitrary bytes.\<close>

definition generous :: "(nat \<Rightarrow> char) \<Rightarrow> allocator" where
  "generous j = \<lparr>can_alloc = \<lambda>_. True, junk = j\<rparr>"

lemma generous_ample [simp]: "ample (generous j)"
  by (simp add: ample_def generous_def)

lemma buffer_new_eq:
  assumes "ample mem"
  shows "buffer_new mem = Some \<lparr>buf_len = 64, buf_alloc = Some (replicate 65 NUL), buf_data = 0\<rparr>"
  using buffer_new_with_size_ok [OF assms, of 64]
  by (simp add: buffer_new_def BUFFER_DEFAULT_SIZE_def)

text \<open>\<open>buffer_compact\<close> keeps the string and gives back every other byte.\<close>

lemma buffer_compact_ok:
  assumes mem: "ample mem" and b: "buffer_inv b"
  shows "\<exists>b'. buffer_compact mem b = Inr (int (unat (buf_len b)) - int (length (buffer_abs b)), b') \<and>
    buffer_inv b' \<and> buffer_abs b' = buffer_abs b \<and> unat (buf_len b') = length (buffer_abs b)"
proof -
  from b obtain l m where m: "b = \<lparr>buf_len = l, buf_alloc = Some m, buf_data = 0\<rparr>"
    "NUL \<in> set m" "length m = unat l + 1" "last m = NUL" "unat l < 2 ^ 62"
    by (rule buffer_invE)
  define k where "k = length (cstr m)"
  obtain r where r: "m = cstr m @ NUL # r" using m(2) by (rule cstr_split)
  have k: "k \<le> unat l" using m by (simp add: k_def) (metis Suc_eq_plus1 length_cstr less_Suc_eq_le)
  have uk: "unat (of_nat k :: size_t) = k" using k m(5) by simp
  have rem: "unat (l - of_nat k) = unat l - k" using k uk by (simp add: unat_sub word_le_nat_alt)
  then have "sint (l - of_nat k) = int (unat l) - int k"
    using k m(5) by (simp add: sint_small64 of_nat_diff)
  moreover have "c_calloc mem (k + 1) = Some (replicate (k + 1) NUL)"
    using k m(5) ampleD [OF mem, of "k + 1"] by (simp add: c_calloc_def)
  moreover have "take k m = cstr m" by (subst r) (simp add: k_def)
  then have "c_memcpy (replicate (k + 1) NUL) m k = Inr (cstr m @ [NUL])"
    using k m(3) by (simp add: c_memcpy_def drop_Cons' split: nat.split)
  ultimately have "buffer_compact mem b = Inr (int (unat l) - int k,
      \<lparr>buf_len = of_nat k, buf_alloc = Some (cstr m @ [NUL]), buf_data = 0\<rparr>)"
    using m(1,2) by (simp add: buffer_compact_def c_strlen_cstr flip: k_def)
  then show ?thesis using m(1,5) k uk by (simp add: k_def)
qed

text \<open>\<open>buffer_append\<close> of a string: \<open>strncat\<close> does not look at the terminator of its source.\<close>

lemma strncat_data_prefix:
  assumes "NUL \<notin> set s" "length s < 2 ^ 64"
  shows "strncat_data b (s @ r) (of_nat (length s)) = strncat_data b s (of_nat (length s))"
  using assms c_strn_prefix [of s r] c_strn_prefix [of s "[]"]
  by (simp add: strncat_data_def c_strncat_def)

lemma buffer_append_string:
  assumes "NUL \<notin> set s" "length s < 2 ^ 64"
  shows "buffer_append mem b (s @ [NUL]) = buffer_append_n mem b s (of_nat (length s))"
  using assms by (simp add: buffer_append_def buffer_append_n_def strncat_data_prefix
      cong: if_cong prod.case_cong)

lemma buffer_append_ok:
  assumes "ample mem" "buffer_inv b" "NUL \<notin> set s" "length (buffer_abs b) + length s \<le> 2 ^ 60"
  shows "\<exists>b'. buffer_append mem b (s @ [NUL]) = Inr (0, b') \<and> buffer_inv b' \<and>
    buffer_abs b' = buffer_abs b @ s \<and> unat (buf_len b') =
      (if unat (buf_len b) > length (buffer_abs b) + length s then unat (buf_len b)
       else (length (buffer_abs b) + length s + 1023) div 1024 * 1024)"
  using buffer_append_n_grow [OF assms] buffer_append_string [of s] assms(3,4) by simp

text \<open>\<open>buffer_appendf\<close> appends the formatted text.\<close>

lemma buffer_appendf_ok:
  assumes mem: "ample mem" and b: "buffer_inv b" and s: "NUL \<notin> set s"
    and small: "length (buffer_abs b) + length s < 2 ^ 31"
  shows "\<exists>b'. buffer_appendf mem b s = Inr (0, b') \<and> buffer_inv b' \<and> buffer_abs b' = buffer_abs b @ s"
proof -
  let ?n = "length (buffer_abs b) + length s"
  obtain c where c: "buffer_resize mem b (of_nat ?n) = (0, c)" "buffer_inv c"
      "buffer_abs c = buffer_abs b" "unat (buf_len c) = (?n + 1023) div 1024 * 1024"
    using buffer_resize_ok [OF mem b, of ?n] small by auto
  from c(2) obtain l m where m: "c = \<lparr>buf_len = l, buf_alloc = Some m, buf_data = 0\<rparr>"
    "NUL \<in> set m" "length m = unat l + 1" "last m = NUL" "unat l < 2 ^ 62"
    by (rule buffer_invE)
  have n: "?n \<le> unat l" using c(4) m(1) round_up_1024(1) [of ?n] by simp
  define k where "k = length (cstr m)"
  have k: "length (buffer_abs b) = k" using c(3) m(1) by (simp add: k_def)
  obtain r where r: "m = cstr m @ NUL # r" using m(2) by (rule cstr_split)
  have tk: "take k m = cstr m" by (subst r) (simp add: k_def)
  have len: "buffer_length b = Inr k"
    using b k by (auto elim!: buffer_invE simp: buffer_length_def c_strlen_cstr)
  let ?m = "cstr m @ s @ [NUL] @ drop (length s + 1) (drop k m)"
  have "c_memcpy (drop k m) (s @ [NUL]) (length s + 1) = Inr (s @ [NUL] @ drop (length s + 1) (drop k m))"
    using n k m(3) by (simp add: c_memcpy_def)
  moreover have "buffer_resize mem b (of_nat (k + length s)) =
      (0, \<lparr>buf_len = l, buf_alloc = Some m, buf_data = 0\<rparr>)"
    using c(1) by (simp only: k m(1))
  moreover have ints: "int32 (int k) = int k" "int32 (int k + vsnprintf_ret s) = int (k + length s)" "vsnprintf_ret s = int (length s)"
    using small k by (simp_all add: vsnprintf_ret_def int32_id)
  ultimately have eq:
      "buffer_appendf mem b s = Inr (0, \<lparr>buf_len = l, buf_alloc = Some ?m, buf_data = 0\<rparr>)"
    using ints by (simp add: buffer_appendf_def len tk del: of_nat_add)
  have "last ?m = NUL"
    using m n k by (cases "drop (length s + 1) (drop k m) = []") (simp_all add: last_drop)
  moreover have "cstr ?m = cstr m @ s"
    using s cstr_terminated [of "cstr m @ s" "drop (length s + 1) (drop k m)"] by simp
  moreover have "length ?m = unat l + 1" using m(3) n k by (simp add: k_def)
  moreover have "buffer_abs b = cstr m" using c(3) m(1) by simp
  ultimately show ?thesis using eq m(5) by simp
qed

section \<open>Properties\<close>

text \<open>C33: Appending bytes without a terminator to a well-formed buffer succeeds, keeps the buffer well
  formed, and makes the string it holds the concatenation, whether or not the buffer has to grow.\<close>

theorem buffer_append_concatenates:
  assumes "ample mem" "buffer_inv b" "NUL \<notin> set s" "length (buffer_abs b) + length s \<le> 2 ^ 60"
  shows "\<exists>b'. buffer_append_n mem b s (of_nat (length s)) = Inr (0, b') \<and> buffer_inv b' \<and>
    buffer_abs b' = buffer_abs b @ s"
  using buffer_append_n_ok [OF assms] by blast

theorem buffer_append_concatenates_witness:
  "\<exists>b'. buffer_append_n roomy \<lparr>buf_len = 2, buf_alloc = Some (''ab'' @ [NUL]), buf_data = 0\<rparr> ''cd''
      (of_nat (length ''cd'')) = Inr (0, b') \<and> buffer_inv b' \<and> buffer_abs b' = ''abcd''"
  using buffer_append_concatenates
    [of roomy "\<lparr>buf_len = 2, buf_alloc = Some (''ab'' @ [NUL]), buf_data = 0\<rparr>" "''cd''"]
  by (simp add: cstr_def)

text \<open>A slice of a well-formed buffer between two positions is a well-formed buffer holding exactly
  the bytes from the first position up to the second, or up to the end of the string.\<close>

theorem buffer_slice_substring:
  assumes "ample mem" "buffer_inv b" "unat to0 < 2 ^ 62"
    and "unat start \<le> unat to0" "unat start \<le> length (buffer_abs b)"
  shows "\<exists>c. buffer_slice mem b start to0 = Inr (Some c) \<and> buffer_inv c \<and>
    buffer_abs c = drop (unat start) (take (unat to0) (buffer_abs b))"
proof -
  obtain c where c: "buffer_slice mem b start to0 = Inr (Some c)" "buffer_inv c"
      "buf_alloc c = Some (drop (unat start) (take (unat to0) (buffer_abs b)) @ [NUL])"
    using buffer_slice_ok [OF assms] by blast
  have "NUL \<notin> set (drop (unat start) (take (unat to0) (buffer_abs b)))"
    by (meson buffer_abs_noNUL in_set_dropD in_set_takeD)
  then have "buffer_abs c = drop (unat start) (take (unat to0) (buffer_abs b))"
    using c(2,3) by (auto elim: buffer_invE)
  with c show ?thesis by blast
qed

theorem buffer_slice_substring_witness:
  "\<exists>c. buffer_slice roomy \<lparr>buf_len = 4, buf_alloc = Some (''abcd'' @ [NUL]), buf_data = 0\<rparr> 1 3 =
      Inr (Some c) \<and> buffer_inv c \<and> buffer_abs c = ''bc''"
  using buffer_slice_substring
    [of roomy "\<lparr>buf_len = 4, buf_alloc = Some (''abcd'' @ [NUL]), buf_data = 0\<rparr>" 3 1]
  by (simp add: cstr_def take_Cons' drop_Cons')

text \<open>Compacting a well-formed buffer keeps the string, leaves no unused byte and returns how many
  there were.\<close>

theorem buffer_compact_exact:
  assumes "ample mem" "buffer_inv b"
  shows "\<exists>b'. buffer_compact mem b = Inr (int (unat (buf_len b)) - int (length (buffer_abs b)), b') \<and>
    buffer_inv b' \<and> buffer_abs b' = buffer_abs b \<and> unat (buf_len b') = length (buffer_abs b)"
  using assms by (rule buffer_compact_ok)

theorem buffer_compact_exact_witness:
  "\<exists>b'. buffer_compact roomy \<lparr>buf_len = 4, buf_alloc = Some (''ab'' @ [NUL, NUL, NUL]), buf_data = 0\<rparr> =
      Inr (2, b') \<and> buffer_abs b' = ''ab''"
  using buffer_compact_exact
    [of roomy "\<lparr>buf_len = 4, buf_alloc = Some (''ab'' @ [NUL, NUL, NUL]), buf_data = 0\<rparr>"]
  by (auto simp: cstr_def)

text \<open>The move of \<open>buffer_prepend\<close>, for a string \<open>s\<close> and a buffer whose memory is \<open>m\<close>.\<close>

lemma prepend_move_outcome:
  assumes "NUL \<in> set m" "length m = unat l + 1" "length s + length (cstr m) \<le> unat l"
  shows "prepend_move \<lparr>buf_len = l, buf_alloc = Some m, buf_data = 0\<rparr> (s @ [NUL]) (length s) =
    (if unat l < 2 * length s then Inl Buffer_overflow
     else Inr (0, \<lparr>buf_len = l, buf_alloc = Some (s @ take (length s + 1) m @ drop (2 * length s + 1) m), buf_data = 0\<rparr>))"
  using assms by (auto simp: prepend_move_def c_memcpy_def with_data_def mult_2 add.commute add.left_commute)

lemma cstr_moved:
  assumes "NUL \<in> set m" "NUL \<notin> set s"
  shows "cstr (s @ take (k + 1) m @ t) =
    (if length (cstr m) \<le> k then s @ cstr m else s @ take (k + 1) (cstr m) @ cstr t)"
proof -
  obtain r where r: "m = cstr m @ NUL # r" using assms(1) by (rule cstr_split)
  have noNUL: "NUL \<notin> set (cstr m)" by (auto simp: cstr_def dest: set_takeWhileD)
  show ?thesis
  proof (cases "length (cstr m) \<le> k")
    case True
    then have "take (k + 1) m = cstr m @ NUL # take (k - length (cstr m)) r"
      by (subst r) (simp add: take_Cons' Suc_diff_le)
    then show ?thesis
      using True assms(2) noNUL cstr_terminated [of "s @ cstr m" "take (k - length (cstr m)) r @ t"] by simp
  next
    case False
    then have "take (k + 1) m = take (k + 1) (cstr m)" by (subst r) simp
    moreover have "NUL \<notin> set (take (k + 1) (cstr m))" using noNUL by (auto dest: in_set_takeD)
    ultimately have "NUL \<notin> set (s @ take (k + 1) m)" "take (k + 1) m = take (k + 1) (cstr m)" using assms(2) by simp_all
    then have "cstr ((s @ take (k + 1) m) @ t) = (s @ take (k + 1) m) @ cstr t"
      unfolding cstr_def by (intro takeWhile_append2) auto
    then show ?thesis using False \<open>take (k + 1) m = take (k + 1) (cstr m)\<close> by simp
  qed
qed

text \<open>C40: What \<open>buffer_prepend\<close> does to any well-formed buffer, for a string \<open>s\<close> of \<open>k\<close> bytes. First the buffer grows if its capacity
  is not above the new length. Then \<open>k + 1\<close> bytes are moved, where the terminated old contents should be: it
  writes outside the memory if the capacity is below \<open>2 * k\<close>; it gives the concatenation if the old contents
  have at most \<open>k\<close> bytes; otherwise only the first \<open>k + 1\<close> of them follow \<open>s\<close>, and then whatever the memory holds from
  byte \<open>2 * k + 1\<close> on. The allocator grants every request.\<close>

theorem buffer_prepend_outcome:
  assumes "ample mem" "buffer_inv b" "NUL \<notin> set s" "length s + length (buffer_abs b) \<le> 2 ^ 60"
  shows "\<exists>m L. L = (if length s + length (buffer_abs b) < unat (buf_len b) then unat (buf_len b)
      else (length s + length (buffer_abs b) + 1023) div 1024 * 1024) \<and> length m = L + 1 \<and> cstr m = buffer_abs b \<and>
    (if L < 2 * length s then buffer_prepend mem b (s @ [NUL]) = Inl Buffer_overflow
     else \<exists>b'. buffer_prepend mem b (s @ [NUL]) = Inr (0, b') \<and> unat (buf_len b') = L \<and>
       buffer_abs b' = (if length (buffer_abs b) \<le> length s then s @ buffer_abs b
         else s @ take (length s + 1) (buffer_abs b) @ cstr (drop (2 * length s + 1) m)))"
proof -
  let ?n = "length s + length (buffer_abs b)"
  from assms(2) obtain l m where m: "b = \<lparr>buf_len = l, buf_alloc = Some m, buf_data = 0\<rparr>"
    "NUL \<in> set m" "length m = unat l + 1" "last m = NUL" "unat l < 2 ^ 62"
    by (rule buffer_invE)
  have len: "c_strlen (s @ [NUL]) = Inr (length s)" "buffer_length b = Inr (length (buffer_abs b))"
    using assms(3) m(1,2) by (simp_all add: c_strlen_terminated buffer_length_def c_strlen_cstr)
  have big: "of_nat (length s) + of_nat (length (buffer_abs b)) < buf_len b \<longleftrightarrow> ?n < unat (buf_len b)"
    using assms(4) by (simp only: word_less_nat_alt of_nat_add [symmetric]) (simp del: of_nat_add)
  have moved: "\<exists>m1. length m1 = unat l1 + 1 \<and> cstr m1 = buffer_abs b \<and>
      (if unat l1 < 2 * length s then buffer_prepend mem b (s @ [NUL]) = Inl Buffer_overflow
       else \<exists>b'. buffer_prepend mem b (s @ [NUL]) = Inr (0, b') \<and> unat (buf_len b') = unat l1 \<and>
         buffer_abs b' = (if length (buffer_abs b) \<le> length s then s @ buffer_abs b
           else s @ take (length s + 1) (buffer_abs b) @ cstr (drop (2 * length s + 1) m1)))"
    if "buffer_prepend mem b (s @ [NUL]) = prepend_move b1 (s @ [NUL]) (length s)" "buffer_inv b1"
      "buffer_abs b1 = buffer_abs b" "?n \<le> unat l1" "buf_len b1 = l1" for b1 l1
  proof -
    from that(2,5) obtain m1 where m1: "b1 = \<lparr>buf_len = l1, buf_alloc = Some m1, buf_data = 0\<rparr>"
      "NUL \<in> set m1" "length m1 = unat l1 + 1" by (elim buffer_invE) auto
    then have "cstr m1 = buffer_abs b" using that(3) by simp
    then show ?thesis
      using that(1,4) m1 prepend_move_outcome [OF m1(2,3), of s] cstr_moved [OF m1(2) assms(3)]
      by (intro exI [of _ m1]) auto
  qed
  show ?thesis
  proof (cases "?n < unat (buf_len b)")
    case True
    then have "buffer_prepend mem b (s @ [NUL]) = prepend_move b (s @ [NUL]) (length s)"
      using big by (simp add: buffer_prepend_def len Let_def)
    from moved [OF this assms(2) refl _ refl] True show ?thesis by auto
  next
    case False
    obtain c where c: "buffer_resize mem b (of_nat ?n) = (0, c)" "buffer_inv c"
        "buffer_abs c = buffer_abs b" "unat (buf_len c) = (?n + 1023) div 1024 * 1024"
      using buffer_resize_ok [OF assms(1,2), of ?n] assms(4) by auto
    then have "buffer_prepend mem b (s @ [NUL]) = prepend_move c (s @ [NUL]) (length s)"
      using False big by (simp add: buffer_prepend_def len Let_def)
    from moved [OF this c(2,3) _ refl] c(4) round_up_1024(1) [of ?n] False show ?thesis by auto
  qed
qed

theorem buffer_prepend_outcome_witness:
  "\<exists>b'. buffer_prepend roomy \<lparr>buf_len = 5, buf_alloc = Some (''abc'' @ [NUL, NUL, NUL]), buf_data = 0\<rparr> (''x'' @ [NUL]) =
     Inr (0, b') \<and> unat (buf_len b') = 5 \<and> take 3 (buffer_abs b') = ''xab''"
proof -
  let ?b = "\<lparr>buf_len = 5, buf_alloc = Some (''abc'' @ [NUL, NUL, NUL]), buf_data = 0\<rparr>"
  have abs: "buffer_abs ?b = ''abc''" by (simp add: cstr_def)
  have "buffer_inv ?b" by simp
  from buffer_prepend_outcome [OF roomy_ample this, of "''x''", unfolded abs]
  have "\<exists>m b'. buffer_prepend roomy ?b (''x'' @ [NUL]) = Inr (0, b') \<and> unat (buf_len b') = 5 \<and>
      buffer_abs b' = ''x'' @ take (length ''x'' + 1) ''abc'' @ cstr (drop (2 * length ''x'' + 1) m)"
    by (simp del: append.simps) blast
  then show ?thesis by (elim exE conjE) (simp add: numeral_3_eq_3)
qed

text \<open>Prepending a string of 33 to 63 bytes to a fresh buffer writes past the end of its allocation:
  \<open>buffer_prepend\<close> moves as many bytes as the new string has instead of as many as the buffer holds.\<close>

theorem buffer_prepend_overflow:
  assumes "ample mem" "buffer_new mem = Some b" "NUL \<notin> set s" "32 < length s" "length s < 64"
  shows "buffer_prepend mem b (s @ [NUL]) = Inl Buffer_overflow"
proof -
  have b: "b = \<lparr>buf_len = 64, buf_alloc = Some (replicate 65 NUL), buf_data = 0\<rparr>"
    using assms(2) buffer_new_eq [OF assms(1)] by simp
  have "c_strlen (replicate 65 NUL) = Inr 0" by (subst c_strlen_cstr) (simp_all add: cstr_def)
  moreover have "(of_nat (length s) :: size_t) < 64" using assms(5) by (simp add: word_less_nat_alt)
  moreover have "c_memcpy (drop (length s) (replicate 65 NUL)) (replicate 65 NUL) (length s + 1) =
      Inl Buffer_overflow"
    using assms(4,5) by (simp add: c_memcpy_def del: replicate.simps)
  ultimately show ?thesis
    using assms(3)
    by (simp add: b buffer_prepend_def buffer_length_def prepend_move_def del: replicate.simps)
qed

theorem buffer_prepend_overflow_witness:
  "buffer_prepend roomy \<lparr>buf_len = 64, buf_alloc = Some (replicate 65 NUL), buf_data = 0\<rparr>
     (replicate 40 CHR ''x'' @ [NUL]) = Inl Buffer_overflow"
  by (rule buffer_prepend_overflow) (simp_all add: buffer_new_eq del: replicate.simps)

text \<open>Trimming a buffer that holds the empty string reads the byte before the allocation: the
  index \<open>buffer_length(self) - 1\<close> wraps around.\<close>

theorem buffer_trim_empty:
  assumes "buffer_inv b" "buffer_abs b = []"
  shows "buffer_trim b = Inl Out_of_bounds"
proof -
  from assms(1) obtain l m where m: "b = \<lparr>buf_len = l, buf_alloc = Some m, buf_data = 0\<rparr>"
    "NUL \<in> set m" "length m = unat l + 1" "last m = NUL" "unat l < 2 ^ 62"
    by (rule buffer_invE)
  then obtain r where r: "m = NUL # r" using assms(2) cstr_split [OF m(2)] by auto
  have "unat (- 1 :: size_t) = 2 ^ 64 - 1" by (simp add: unsigned_minus_1_eq_mask mask_eq_exp_minus_1)
  then have "unat (- 1 :: size_t) \<ge> length m" using m(3,5) by simp
  then show ?thesis
    using m(1) r by (simp add: buffer_trim_def buffer_trim_left_def buffer_trim_right_def
        trim_right_loop.simps)
qed

theorem buffer_trim_empty_witness:
  "buffer_trim \<lparr>buf_len = 0, buf_alloc = Some [NUL], buf_data = 0\<rparr> = Inl Out_of_bounds"
  by (rule buffer_trim_empty) (simp_all add: cstr_def)

end
