(* ===== verification/Interface.thy ===== *)
theory Interface
  imports Buffer Judge_Types
begin

text \<open>
  The network interface (\<open>src/interface.c\<close>): receiving a request from a socket whose data arrives in
  arbitrary pieces (\<open>jug_int_receive\<close>), decoding its text (\<open>jug_int_decode\<close>) and sending the verdict
  (\<open>jug_int_send_verdict\<close>). A socket is the list of what successive \<open>recv\<close> calls will find; the
  fields of a request are \<open>None\<close> while the C object is uninitialised or freed.
\<close>

section \<open>Requests, sockets and globals\<close>

definition RECEIVE_SIZE_MAX :: nat where "RECEIVE_SIZE_MAX = 5000"
definition REQUEST_SIZE_MAX :: int where "REQUEST_SIZE_MAX = 30000000"

definition INT_REQ_TYPE_JUDGE :: int where "INT_REQ_TYPE_JUDGE = 0"
definition INT_REQ_TYPE_SETFEED :: int where "INT_REQ_TYPE_SETFEED = 1"
definition INT_REQ_FEEDTYPE_DATA :: int where "INT_REQ_FEEDTYPE_DATA = 0"
definition INT_REQ_FEEDTYPE_REFERENCE :: int where "INT_REQ_FEEDTYPE_REFERENCE = 1"

record int_request =
  req_type :: "int option"
  in_type :: "int option"
  out_type :: "int option"
  sourcecode :: "string option"
  in_reference :: "int option"
  req_input :: "string option"
  out_reference :: "int option"
  req_output :: "string option"

definition blank_request :: int_request where
  "blank_request = \<lparr>req_type = None, in_type = None, out_type = None, sourcecode = None,
     in_reference = None, req_input = None, out_reference = None, req_output = None\<rparr>"

text \<open>\<open>Chunk d\<close>: the bytes that have arrived when \<open>recv\<close> is called (none: the peer has closed);
  \<open>Sock_error\<close>: \<open>recv\<close> fails. After the last event the peer has closed.\<close>

datatype sock_event = Chunk string | Sock_error
type_synonym sock = "sock_event list"

fun sock_recv :: "sock \<Rightarrow> nat \<Rightarrow> string option \<times> sock" where
  "sock_recv [] n = (Some [], [])"
| "sock_recv (Sock_error # s) n = (None, s)"
| "sock_recv (Chunk d # s) n =
     (if length d \<le> n then (Some d, s) else (Some (take n d), Chunk (drop n d) # s))"

record int_state =
  g_socketbuffer_max_size :: nat
  g_socketbuffer_max_size_calculated :: bool

definition jug_int_init :: "int_state \<Rightarrow> int \<times> int_state" where
  "jug_int_init g = (0, g\<lparr>g_socketbuffer_max_size_calculated := False\<rparr>)"

section \<open>Decoding\<close>

text \<open>\<open>while(string[0]!='\n') string++; string++;\<close>\<close>

fun skip_line :: "ptr \<Rightarrow> ptr c_result" where
  "skip_line [] = Inl Out_of_bounds"
| "skip_line (c # p) = (if c = LF then Inr p else skip_line p)"

text \<open>A size, a line end and that many bytes; \<open>None\<close> when the text ends before (\<open>-2\<close>). The code
  compares \<open>strlen\<close> with the size as \<open>size_t\<close> and does not check \<open>malloc\<close>.\<close>

definition decode_data :: "allocator \<Rightarrow> ptr \<Rightarrow> (string \<times> ptr) option c_result" where
  "decode_data mem p = c_then (c_atoi p) (\<lambda>size. c_then (skip_line p) (\<lambda>q. c_then (c_strlen q) (\<lambda>len.
     if (of_nat len :: size_t) < word_of_int size then Inr None
     else if \<not> can_alloc mem (nat size + 1) then Inl Null_deref
     else Inr (Some (take (nat size) q, drop (nat size + 1) q)))))"

text \<open>A stage of the decoder either returns from it with a code, or goes on at a pointer.\<close>

type_synonym decode_stage = "((int \<times> int_request) + (ptr \<times> int_request)) c_result"

definition decode_input :: "allocator \<Rightarrow> ptr \<Rightarrow> int_request \<Rightarrow> decode_stage" where
  "decode_input mem p req = c_then (c_atoi p) (\<lambda>t. c_then (skip_line p) (\<lambda>q.
     let req1 = req\<lparr>in_type := Some t\<rparr> in
     if t = INT_REQ_FEEDTYPE_DATA then
       c_then (decode_data mem q) (\<lambda>d. case d of
           None \<Rightarrow> Inr (Inl (-2, req1))
         | Some (s, q') \<Rightarrow> Inr (Inr (q', req1\<lparr>req_input := Some s\<rparr>)))
     else if t = INT_REQ_FEEDTYPE_REFERENCE then
       c_then (c_atoi q) (\<lambda>r. c_then (skip_line q) (\<lambda>q'.
         Inr (Inr (q', req1\<lparr>in_reference := Some r\<rparr>))))
     else Inr (Inl (-3, req1))))"

definition decode_output :: "allocator \<Rightarrow> ptr \<Rightarrow> int_request \<Rightarrow> decode_stage" where
  "decode_output mem p req = c_then (c_atoi p) (\<lambda>t. c_then (skip_line p) (\<lambda>q.
     let req1 = req\<lparr>out_type := Some t\<rparr> in
     if t = INT_REQ_FEEDTYPE_DATA then
       c_then (decode_data mem q) (\<lambda>d. case d of
           None \<Rightarrow> Inr (Inl (-2, req1))
         | Some (s, q') \<Rightarrow> Inr (Inr (q', req1\<lparr>req_output := Some s\<rparr>)))
     else if t = INT_REQ_FEEDTYPE_REFERENCE then
       c_then (c_atoi q) (\<lambda>r. c_then (skip_line q) (\<lambda>q'.
         Inr (Inr (q', req1\<lparr>out_reference := Some r\<rparr>))))
     else Inr (Inl (-3, req1))))"

definition decode_source :: "allocator \<Rightarrow> int \<Rightarrow> ptr \<Rightarrow> int_request \<Rightarrow> (int \<times> int_request) c_result" where
  "decode_source mem t p req =
     (if t = INT_REQ_TYPE_JUDGE then
        c_then (decode_data mem p) (\<lambda>d. case d of
            None \<Rightarrow> Inr (-2, req)
          | Some (s, _) \<Rightarrow> Inr (0, req\<lparr>sourcecode := Some s\<rparr>))
      else if t = INT_REQ_TYPE_SETFEED then
        c_then (c_strlen p) (\<lambda>n. if n > 0 then Inr (-4, req) else Inr (0, req))
      else Inr (-3, req))"

text \<open>The code returned by a stage ends the decoder; otherwise the next stage runs.\<close>

definition then_stage :: "decode_stage \<Rightarrow> (ptr \<Rightarrow> int_request \<Rightarrow> decode_stage) \<Rightarrow> decode_stage" where
  "then_stage m f = c_then m (\<lambda>r. case r of Inl e \<Rightarrow> Inr (Inl e) | Inr (p, req) \<Rightarrow> f p req)"

definition jug_int_decode ::
  "allocator \<Rightarrow> buffer_t \<Rightarrow> int_request \<Rightarrow> (int \<times> int_request) c_result" where
  "jug_int_decode mem buffer request = c_then (buffer_get_string buffer) (\<lambda>string.
     c_then (c_atoi string) (\<lambda>t. c_then (skip_line string) (\<lambda>p.
       c_then (then_stage (decode_input mem p (request\<lparr>req_type := Some t\<rparr>)) (decode_output mem))
         (\<lambda>r. case r of Inl e \<Rightarrow> Inr e | Inr (q, req) \<Rightarrow> decode_source mem t q req))))"

text \<open>\<open>jug_int_free_request\<close> frees the three pointers whether or not the decoder set them: a request whose
  feeds are references never had its \<open>input\<close> and \<open>output\<close> set.\<close>

definition jug_int_free_request :: "int_request \<Rightarrow> int_request c_result" where
  "jug_int_free_request request =
     (if sourcecode request = None \<or> req_input request = None \<or> req_output request = None
      then Inl Uninitialised
      else Inr (request\<lparr>sourcecode := None, req_input := None, req_output := None\<rparr>))"

section \<open>Receiving\<close>

text \<open>The receive size: the socket's buffer size, asked for once and then remembered; \<open>answer\<close> is what
  \<open>getsockopt\<close> says, \<open>None\<close> when it fails.\<close>

definition receive_size :: "int_state \<Rightarrow> nat option \<Rightarrow> nat \<times> int_state" where
  "receive_size g answer =
     (let g' = (if g_socketbuffer_max_size_calculated g then g
                else case answer of None \<Rightarrow> g
                  | Some n \<Rightarrow> g\<lparr>g_socketbuffer_max_size := n,
                               g_socketbuffer_max_size_calculated := True\<rparr>) in
      (if g_socketbuffer_max_size_calculated g' then g_socketbuffer_max_size g'
       else RECEIVE_SIZE_MAX, g'))"

record receive_state =
  request_buffer :: buffer_t
  read_size_acc :: int
  metadata_read :: bool
  request_size :: int
  body_start_index :: int

text \<open>What an iteration does with the bytes it has read. The result of \<open>buffer_append_n\<close> is ignored,
  and \<open>body_start_index\<close> is assigned by the test itself, also when the test fails.\<close>

definition receive_bytes :: "allocator \<Rightarrow> string \<Rightarrow> receive_state \<Rightarrow> receive_state c_result" where
  "receive_bytes mem d st =
     c_then (buffer_append_n mem (request_buffer st) d (of_nat (length d))) (\<lambda>(_, b).
       let st1 = st\<lparr>request_buffer := b\<rparr> in
       if metadata_read st1 then Inr st1
       else c_then (buffer_indexof b [LF]) (\<lambda>k.
         let st2 = st1\<lparr>body_start_index := k\<rparr> in
         if k > 0 then c_then (buffer_get_string b) (\<lambda>p. c_then (c_atoi p) (\<lambda>z.
           Inr (st2\<lparr>metadata_read := True, request_size := int32 (k + 1 + z)\<rparr>)))
         else Inr st2))"

fun sock_size :: "sock \<Rightarrow> nat" where
  "sock_size [] = 0"
| "sock_size (Chunk d # s) = Suc (length d + sock_size s)"
| "sock_size (Sock_error # s) = Suc (sock_size s)"

lemma sock_recv_smaller: "sock_recv s n = (Some d, s') \<Longrightarrow> d \<noteq> [] \<Longrightarrow> sock_size s' < sock_size s"
  by (induction s n rule: sock_recv.induct) (auto split: if_splits)

text \<open>The receive loop: \<open>None\<close> when \<open>recv\<close> fails or the request is too large.\<close>

function receive_loop ::
  "allocator \<Rightarrow> nat \<Rightarrow> sock \<Rightarrow> receive_state \<Rightarrow> (receive_state option \<times> sock) c_result" where
  "receive_loop mem mx s st = (case sock_recv s mx of
       (None, s') \<Rightarrow> Inr (None, s')
     | (Some d, s') \<Rightarrow>
         let acc = int32 (read_size_acc st + int (length d)) in
         if acc \<ge> REQUEST_SIZE_MAX then Inr (None, s')
         else c_then (receive_bytes mem d (st\<lparr>read_size_acc := acc\<rparr>)) (\<lambda>st'.
           if d = [] \<or> metadata_read st' \<and> acc \<ge> request_size st' then Inr (Some st', s')
           else receive_loop mem mx s' st'))"
  by pat_completeness auto
termination
  by (relation "measure (\<lambda>(mem, mx, s, st). sock_size s)") (auto dest: sock_recv_smaller [OF sym])

text \<open>The slice drops the length line, and ends at \<open>buffer_size(request_buffer)-1\<close>.\<close>

definition jug_int_receive ::
  "allocator \<Rightarrow> nat option \<Rightarrow> int_state \<Rightarrow> sock \<Rightarrow> (buffer_t option \<times> sock \<times> int_state) c_result" where
  "jug_int_receive mem answer g s =
     (case receive_size g answer of (mx, g') \<Rightarrow>
      if \<not> can_alloc mem mx then Inr (None, s, g')
      else case buffer_new mem of
        None \<Rightarrow> Inl Null_deref
      | Some b \<Rightarrow>
          c_then (receive_loop mem mx s \<lparr>request_buffer = b, read_size_acc = 0,
              metadata_read = False, request_size = 0, body_start_index = 0\<rparr>) (\<lambda>(r, s').
            case r of
              None \<Rightarrow> Inr (None, s', g')
            | Some st \<Rightarrow> c_then (buffer_slice mem (request_buffer st)
                  (word_of_int (body_start_index st + 1)) (buffer_size (request_buffer st) - 1))
                (\<lambda>pure. Inr (pure, s', g'))))"

section \<open>Sending the verdict\<close>

fun jug_int_verdict_to_string :: "jug_verdict_enum \<Rightarrow> string" where
  "jug_int_verdict_to_string VERDICT_ACCEPTED = ''ACCEPTED''"
| "jug_int_verdict_to_string VERDICT_WRONG = ''WRONG ANSWER''"
| "jug_int_verdict_to_string VERDICT_COMPILE_ERROR = ''COMPILING ERROR''"
| "jug_int_verdict_to_string VERDICT_TIMELIMIT = ''TIME LIMIT EXCEEDED''"
| "jug_int_verdict_to_string VERDICT_MEMLIMIT = ''MEMORY LIMIT EXCEEDED''"
| "jug_int_verdict_to_string VERDICT_OUTPUTLIMIT = ''OUTPUT LIMIT EXCEEDED''"
| "jug_int_verdict_to_string VERDICT_RUNTIME = ''RUNTIME ERROR''"
| "jug_int_verdict_to_string VERDICT_INTERNAL = ''INTERNAL ERROR''"

text \<open>The \<open>send\<close> loop, shared by the daemon and the client: \<open>answer k\<close> is what the \<open>k\<close>-th call of
  \<open>send\<close> returns, never more than it was given. The result is what went out and the last value
  of \<open>bytesSent\<close>.\<close>

function send_loop :: "(nat \<Rightarrow> int) \<Rightarrow> nat \<Rightarrow> string \<Rightarrow> int \<Rightarrow> string \<times> int" where
  "send_loop answer k tmp bytesSent =
     (if tmp = [] then ([], bytesSent)
      else let r = min (answer k) (int (length tmp)) in
        if r \<le> 0 then ([], r)
        else case send_loop answer (Suc k) (drop (nat r) tmp) r of
          (sent, final) \<Rightarrow> (take (nat r) tmp @ sent, final))"
  by pat_completeness auto
termination
  by (relation "measure (\<lambda>(answer, k, tmp, b). length tmp)") (auto simp: Let_def)

definition jug_int_send_verdict :: "(nat \<Rightarrow> int) \<Rightarrow> jug_verdict_enum \<Rightarrow> string \<times> int" where
  "jug_int_send_verdict answer verdict =
     (let hr_verdict = jug_int_verdict_to_string verdict;
          response = dec_nat (length hr_verdict) @ LF # hr_verdict in
      send_loop answer 0 response 0)"

section \<open>The wire format\<close>

text \<open>The text of a judging request with inline data, as the client prints it: a length line and the
  body the decoder's comment describes.\<close>

definition request_head :: "string \<Rightarrow> string \<Rightarrow> string" where
  "request_head input output =
     dec_nat 0 @ [LF] @ dec_nat 0 @ [LF] @ dec_nat (length input) @ [LF] @ input @ [LF] @
     dec_nat 0 @ [LF] @ dec_nat (length output) @ [LF] @ output @ [LF]"

definition request_body :: "string \<Rightarrow> string \<Rightarrow> string \<Rightarrow> string" where
  "request_body input output source =
     request_head input output @ dec_nat (length source) @ [LF] @ source"

definition with_length :: "string \<Rightarrow> string" where
  "with_length body = dec_nat (length body) @ LF # body"

definition data_request :: "string \<Rightarrow> string \<Rightarrow> string \<Rightarrow> int_request" where
  "data_request input output source = blank_request\<lparr>req_type := Some INT_REQ_TYPE_JUDGE,
     in_type := Some INT_REQ_FEEDTYPE_DATA, out_type := Some INT_REQ_FEEDTYPE_DATA,
     sourcecode := Some source, req_input := Some input, req_output := Some output\<rparr>"

section \<open>Laws of the decoder\<close>

declare receive_loop.simps [simp del] send_loop.simps [simp del]

lemma skip_line_at [c_string_simps]: "LF \<notin> set s \<Longrightarrow> skip_line (s @ LF # r) = Inr r"
  by (induction s) auto

lemma c_strlen_append:
  "NUL \<notin> set s \<Longrightarrow> NUL \<in> set t \<Longrightarrow> c_strlen (s @ t) = Inr (length s + length (cstr t))"
  by (induction s) (auto simp: c_strlen_cstr)

text \<open>A size line that announces exactly the bytes that follow: they are read, and the separator after
  them is skipped.\<close>

lemma decode_data_read:
  assumes "length s < 2 ^ 31" "NUL \<notin> set s" "NUL \<in> set (c # r)" "length (s @ c # r) < 2 ^ 63"
    and "can_alloc mem (length s + 1)"
  shows "decode_data mem (dec_nat (length s) @ LF # s @ c # r) = Inr (Some (s, r))"
proof -
  have "length (cstr (c # r)) < length (c # r)" using assms(3) by (rule length_cstr)
  then have "\<not> (of_nat (length s + length (cstr (c # r))) :: size_t) < of_nat (length s)"
    using assms(4) by (simp add: word_less_nat_alt del: of_nat_add)
  then show ?thesis
    using assms by (simp add: decode_data_def c_atoi_dec_nat skip_line_at c_strlen_append)
qed

text \<open>A size larger than the text that is left, or negative, is refused with \<open>-2\<close>.\<close>

lemma decode_data_short:
  assumes "n < 2 ^ 31" "NUL \<notin> set s" "length s < n"
  shows "decode_data mem (dec_nat n @ LF # s @ [NUL]) = Inr None"
proof -
  have "(of_nat (length s) :: size_t) < of_nat n"
    using assms by (simp add: word_less_nat_alt)
  then show ?thesis
    using assms by (simp add: decode_data_def c_atoi_dec_nat skip_line_at)
qed

lemma c_atoi_0 [c_string_simps]: "c_atoi (CHR ''0'' # LF # r) = Inr 0"
  using c_atoi_dec_nat [of 0 LF r] by simp

lemma skip_line_0 [c_string_simps]: "skip_line (CHR ''0'' # LF # r) = Inr r"
  using skip_line_at [of "dec_nat 0" r] by simp

lemmas request_types = INT_REQ_TYPE_JUDGE_def INT_REQ_TYPE_SETFEED_def
  INT_REQ_FEEDTYPE_DATA_def INT_REQ_FEEDTYPE_REFERENCE_def

lemma length_dec_nat: "length (dec_nat n) \<le> n + 1"
proof (induction n rule: dec_nat.induct)
  case (1 n)
  then show ?case by (subst dec_nat.simps) auto
qed

text \<open>The decoder reads input and output and goes on with what follows them.\<close>

lemma decode_head:
  assumes mem: "ample mem" and nul: "NUL \<notin> set input" "NUL \<notin> set output" "NUL \<in> set tail"
    and small: "length input + length output + length tail < 2 ^ 31"
    and buf: "data_ptr b = Inr (request_head input output @ tail)"
  shows "jug_int_decode mem b blank_request = decode_source mem INT_REQ_TYPE_JUDGE tail
    ((data_request input output [])\<lparr>sourcecode := None\<rparr>)"
proof -
  let ?out = "dec_nat (length output) @ LF # output @ LF # tail"
  let ?in = "dec_nat (length input) @ LF # input @ LF # CHR ''0'' # LF # ?out"
  let ?r0 = "blank_request\<lparr>req_type := Some 0\<rparr>"
  have al: "can_alloc mem (length s + 1)" if "length s < 2 ^ 31" for s :: string
    using mem that by (simp add: ampleD)
  have i: "decode_data mem ?in = Inr (Some (input, CHR ''0'' # LF # ?out))"
    using nul small length_dec_nat [of "length output"] by (intro decode_data_read al) auto
  have o: "decode_data mem ?out = Inr (Some (output, tail))"
    using nul small by (intro decode_data_read al) auto
  have "decode_input mem (CHR ''0'' # LF # ?in) ?r0 = Inr (Inr (CHR ''0'' # LF # ?out,
      ?r0\<lparr>in_type := Some 0, req_input := Some input\<rparr>))"
    using i by (simp add: decode_input_def c_atoi_0 skip_line_0 request_types Let_def)
  moreover have "decode_output mem (CHR ''0'' # LF # ?out) req =
      Inr (Inr (tail, req\<lparr>out_type := Some 0, req_output := Some output\<rparr>))" for req
    using o by (simp add: decode_output_def c_atoi_0 skip_line_0 request_types Let_def)
  ultimately show ?thesis
    using buf
    by (simp add: jug_int_decode_def buffer_get_string_def c_atoi_0 skip_line_0 then_stage_def
        data_request_def blank_request_def request_types request_head_def)
qed

lemma decode_body:
  assumes mem: "ample mem"
    and nul: "NUL \<notin> set input" "NUL \<notin> set output" "NUL \<notin> set source"
    and small: "length input + length output + length source < 30000000"
    and buf: "data_ptr b = Inr (request_body input output source @ [NUL])"
  shows "jug_int_decode mem b blank_request = Inr (0, data_request input output source)"
proof -
  let ?tail = "dec_nat (length source) @ LF # source @ [NUL]"
  have "decode_data mem ?tail = Inr (Some (source, []))"
    using nul small ampleD [OF mem, of "length source + 1"] by (intro decode_data_read) auto
  moreover have "jug_int_decode mem b blank_request = decode_source mem INT_REQ_TYPE_JUDGE ?tail
      ((data_request input output [])\<lparr>sourcecode := None\<rparr>)"
    using nul small buf length_dec_nat [of "length source"]
    by (intro decode_head [OF mem]) (auto simp: request_body_def)
  ultimately show ?thesis by (simp add: decode_source_def data_request_def)
qed

text \<open>Without the last byte of the source the announced size is too large.\<close>

lemma decode_truncated_body:
  assumes mem: "ample mem"
    and nul: "NUL \<notin> set input" "NUL \<notin> set output" "NUL \<notin> set source"
    and small: "length input + length output + length source < 30000000" and src: "source \<noteq> []"
    and buf: "data_ptr b = Inr (butlast (request_body input output source) @ [NUL])"
  shows "\<exists>req. jug_int_decode mem b blank_request = Inr (-2, req)"
proof -
  let ?tail = "dec_nat (length source) @ LF # butlast source @ [NUL]"
  have "decode_data mem ?tail = Inr None"
    using nul small src by (intro decode_data_short) (auto dest: in_set_butlastD)
  moreover have "jug_int_decode mem b blank_request = decode_source mem INT_REQ_TYPE_JUDGE ?tail
      ((data_request input output [])\<lparr>sourcecode := None\<rparr>)"
    using nul small src buf length_dec_nat [of "length source"]
    by (intro decode_head [OF mem]) (auto simp: request_body_def butlast_append)
  ultimately show ?thesis by (simp add: decode_source_def)
qed

section \<open>Laws of the receive loop\<close>

text \<open>What holds while the message \<open>with_length body\<close> is being received and \<open>got\<close> has arrived.\<close>

definition receiving :: "allocator \<Rightarrow> string \<Rightarrow> string \<Rightarrow> receive_state \<Rightarrow> bool" where
  "receiving mem body got st \<longleftrightarrow>
     heap_buffer_inv (mem, request_buffer st) \<and> buffer_abs (request_buffer st) = got \<and>
     read_size_acc st = int (length got) \<and> (metadata_read st \<longleftrightarrow> LF \<in> set got) \<and>
     (LF \<in> set got \<longrightarrow> body_start_index st = int (length (dec_nat (length body))) \<and>
        request_size st = int (length (with_length body)))"

lemma get_string_abs:
  assumes "buffer_inv b"
  shows "\<exists>r. buffer_get_string b = Inr (buffer_abs b @ NUL # r)"
  using assms
proof (rule buffer_invE)
  fix l m assume m: "b = \<lparr>buf_len = l, buf_alloc = Some m, buf_data = 0\<rparr>" "NUL \<in> set m"
  obtain r where "m = cstr m @ NUL # r" using m(2) by (rule cstr_split)
  then show ?thesis using m(1) by (auto simp: buffer_get_string_def)
qed

lemma append_heap:
  assumes "heap_buffer_inv (mem, b)" "NUL \<notin> set d" "length (buffer_abs b) + length d \<le> 2 ^ 60"
  obtains b' where "buffer_append_n mem b d (of_nat (length d)) = Inr (0, b')"
    "heap_buffer_inv (mem, b')" "buffer_abs b' = buffer_abs b @ d"
  using heap_buffer.append_ok [OF assms(1,2)] assms(3)
  by (auto simp: heap_append_def c_then_Inr)

text \<open>A prefix of the message that contains a line end contains the whole length line.\<close>

lemma prefix_with_line:
  assumes "got @ rest = with_length body" "LF \<in> set got"
  obtains r where "got = dec_nat (length body) @ LF # r"
proof -
  from assms(2) obtain g r where g: "got = g @ LF # r" "LF \<notin> set g" by (meson split_list_first)
  with assms(1) have "g @ LF # (r @ rest) = dec_nat (length body) @ LF # body"
    by (simp add: with_length_def)
  then have "g = dec_nat (length body)"
    using g(2) dec_nat_noLF [of "length body"] by (metis append_Cons_eq_iff)
  with g(1) show thesis by (auto intro: that)
qed

lemma receive_bytes_ok:
  assumes st: "receiving mem body got st"
    and msg: "(got @ d) @ rest = with_length body" "NUL \<notin> set body"
    and small: "length (with_length body) < 30000000"
  shows "\<exists>st'. receive_bytes mem d (st\<lparr>read_size_acc := int (length (got @ d))\<rparr>) = Inr st' \<and>
    receiving mem body (got @ d) st'"
proof -
  have "NUL \<notin> set ((got @ d) @ rest)" unfolding msg(1) using msg(2) by (simp add: with_length_def)
  then have nul: "NUL \<notin> set (got @ d)" by simp
  have len: "length got + length d \<le> 30000000" using small arg_cong [OF msg(1), of length] by simp
  have b: "heap_buffer_inv (mem, request_buffer st)" "buffer_abs (request_buffer st) = got"
    using st by (simp_all add: receiving_def)
  obtain b' where b': "buffer_append_n mem (request_buffer st) d (of_nat (length d)) = Inr (0, b')"
      "heap_buffer_inv (mem, b')" "buffer_abs b' = got @ d"
    using nul len b append_heap [OF b(1), of d] by auto
  show ?thesis
  proof (cases "LF \<in> set (got @ d) \<and> LF \<notin> set got")
    case False
    then consider "metadata_read st" "LF \<in> set got" | "\<not> metadata_read st" "LF \<notin> set (got @ d)"
      using st by (auto simp: receiving_def)
    then show ?thesis
    proof cases
      case 1
      with st b' show ?thesis by (simp add: receive_bytes_def receiving_def)
    next
      case 2
      then have "buffer_indexof b' [LF] = Inr (-1)"
        using heap_buffer.index_of_no_line [of "(mem, b')"] b' by simp
      with 2 st b' show ?thesis by (simp add: receive_bytes_def receiving_def)
    qed
  next
    case True
    then have meta: "\<not> metadata_read st" using st by (simp add: receiving_def)
    obtain r where r: "got @ d = dec_nat (length body) @ LF # r"
      using prefix_with_line [OF msg(1)] True by auto
    then have idx: "buffer_indexof b' [LF] = Inr (int (length (dec_nat (length body))))"
      using heap_buffer.index_of_line [of "(mem, b')" "dec_nat (length body)" r] b' by simp
    obtain q where q: "buffer_get_string b' = Inr ((got @ d) @ NUL # q)"
      using get_string_abs [of b'] b' by (auto simp: heap_buffer_inv_def)
    have "length body < 2 ^ 31" using small by (simp add: with_length_def)
    then have z: "c_atoi ((got @ d) @ NUL # q) = Inr (int (length body))"
      unfolding r by (simp add: c_atoi_dec_nat)
    have "int32 (int (length (dec_nat (length body))) + 1 + int (length body)) =
        int (length (with_length body))"
      using small by (simp add: with_length_def algebra_simps)
    with True meta idx q z b' show ?thesis
      by (auto simp: receive_bytes_def receiving_def Let_def)
  qed
qed

text \<open>Whatever way the message is cut into pieces, the loop ends as soon as it is complete, with the
  whole message in the buffer, and reads nothing of what follows.\<close>

lemma receive_loop_ok:
  assumes "receiving mem body got st" "got @ concat cs = with_length body"
    and "concat cs \<noteq> []" "\<forall>c \<in> set cs. c \<noteq> []" "NUL \<notin> set body" "0 < mx"
    and "length (with_length body) < 30000000"
  shows "\<exists>st'. receive_loop mem mx (map Chunk cs @ rest) st = Inr (Some st', rest) \<and>
    receiving mem body (with_length body) st'"
  using assms
proof (induction "sock_size (map Chunk cs)" arbitrary: cs got st rule: less_induct)
  case less
  then obtain c cs' where cs: "cs = c # cs'" "c \<noteq> []" by (cases cs) auto
  define d where "d = take mx c"
  define cs'' where "cs'' = (if length c \<le> mx then cs' else drop mx c # cs')"
  have d: "d \<noteq> []" "d @ concat cs'' = concat cs" "\<forall>c \<in> set cs''. c \<noteq> []"
    using cs less.prems(4,6) by (auto simp: d_def cs''_def)
  have recv: "sock_recv (map Chunk cs @ rest) mx = (Some d, map Chunk cs'' @ rest)"
    using cs(1) by (simp add: d_def cs''_def)
  have msg: "(got @ d) @ concat cs'' = with_length body" using less.prems(2) d(2) by simp
  obtain st1 where st1: "receive_bytes mem d (st\<lparr>read_size_acc := int (length (got @ d))\<rparr>) = Inr st1"
      "receiving mem body (got @ d) st1"
    using receive_bytes_ok [OF less.prems(1) msg less.prems(5,7)] by blast
  have len: "length (got @ d) \<le> length (with_length body)" using arg_cong [OF msg, of length] by simp
  then have acc: "int32 (read_size_acc st + int (length d)) = int (length (got @ d))"
      "\<not> int (length (got @ d)) \<ge> REQUEST_SIZE_MAX"
    using less.prems(1,7) by (simp_all add: receiving_def REQUEST_SIZE_MAX_def)
  have unfolded: "receive_loop mem mx (map Chunk cs @ rest) st =
      (if metadata_read st1 \<and> int (length (got @ d)) \<ge> request_size st1
       then Inr (Some st1, map Chunk cs'' @ rest)
       else receive_loop mem mx (map Chunk cs'' @ rest) st1)"
    by (subst receive_loop.simps) (use recv d(1) acc st1(1) in \<open>simp add: Let_def\<close>)
  show ?case
  proof (cases "concat cs'' = []")
    case True
    then have "cs'' = []" using d(3) by (cases cs'') auto
    moreover have "got @ d = with_length body" using msg True by simp
    moreover from this have "LF \<in> set (got @ d)" by (simp add: with_length_def)
    ultimately show ?thesis using unfolded st1(2) by (auto simp: receiving_def)
  next
    case False
    then have "0 < length (concat cs'')" by (simp only: length_greater_0_conv not_False_eq_True)
    then have "length (got @ d) < length (with_length body)"
      unfolding msg [symmetric] by (simp only: length_append)
    then have "receive_loop mem mx (map Chunk cs @ rest) st =
        receive_loop mem mx (map Chunk cs'' @ rest) st1"
      using unfolded st1(2) by (auto simp: receiving_def)
    moreover have "sock_size (map Chunk cs'') < sock_size (map Chunk cs)"
      using cs less.prems(6) by (auto simp: cs''_def)
    ultimately show ?thesis
      using less.hyps [OF _ st1(2) msg False d(3)] less.prems(5-7) by simp
  qed
qed

text \<open>A buffer that grew as the code grows it is full exactly when its contents are a multiple of 1024.\<close>

lemma tight_buffer_full:
  assumes "buffer_tight b" "buffer_abs b \<noteq> []"
  shows "unat (buf_len b) > length (buffer_abs b) \<longleftrightarrow> \<not> 1024 dvd length (buffer_abs b)"
    "length (buffer_abs b) \<le> unat (buf_len b)"
    "1024 dvd length (buffer_abs b) \<Longrightarrow> unat (buf_len b) = length (buffer_abs b)"
proof -
  let ?l = "unat (buf_len b)" and ?n = "length (buffer_abs b)"
  have t: "?l = 64 \<and> ?n < 64 \<or> 1024 dvd ?l \<and> ?n \<le> ?l \<and> ?l < ?n + 1024" and pos: "0 < ?n"
    using assms by (simp_all add: buffer_tight_def Let_def)
  have full: "?l = ?n" if "1024 dvd ?n"
  proof -
    from that pos obtain k where k: "?n = 1024 * k" "0 < k" by (auto elim: dvdE)
    with t obtain j where "?l = 1024 * j" by (auto elim: dvdE)
    with t k show ?thesis by simp
  qed
  then show "1024 dvd ?n \<Longrightarrow> ?l = ?n" .
  show "?n \<le> ?l" using t by auto
  show "?l > ?n \<longleftrightarrow> \<not> 1024 dvd ?n"
  proof (cases "1024 dvd ?n")
    case True
    with full show ?thesis by simp
  next
    case False
    then have "?l \<noteq> ?n" using t by auto
    with t False show ?thesis by auto
  qed
qed

text \<open>What \<open>jug_int_receive\<close> then hands out: the body, except that a message whose length is a multiple of
  1024 fills the buffer exactly and the slice leaves its last byte out.\<close>

lemma slice_of_message:
  assumes mem: "ample mem" and st: "receiving mem body (with_length body) st"
    and "body \<noteq> []" and small: "length (with_length body) < 30000000"
  shows "\<exists>c. buffer_slice mem (request_buffer st) (word_of_int (body_start_index st + 1))
      (buffer_size (request_buffer st) - 1) = Inr (Some c) \<and> buffer_inv c \<and>
    data_ptr c = Inr ((if 1024 dvd length (with_length body) then butlast body else body) @ [NUL])"
proof -
  let ?b = "request_buffer st" and ?h = "length (dec_nat (length body))"
  let ?n = "length (with_length body)"
  have b: "buffer_inv ?b" "buffer_tight ?b" "buffer_abs ?b = with_length body"
    using st by (simp_all add: receiving_def heap_buffer_inv_def)
  have n: "?n = ?h + 1 + length body" by (simp add: with_length_def)
  have body0: "0 < length body" using assms(3) by simp
  have tight: "unat (buf_len ?b) > ?n \<longleftrightarrow> \<not> 1024 dvd ?n" "?n \<le> unat (buf_len ?b)"
      "1024 dvd ?n \<Longrightarrow> unat (buf_len ?b) = ?n"
    using tight_buffer_full [OF b(2)] b(3) by (simp_all add: with_length_def)
  have start: "word_of_int (body_start_index st + 1) = (of_nat (?h + 1) :: size_t)"
    using st by (simp add: receiving_def with_length_def)
  have ufrom: "unat (of_nat (?h + 1) :: size_t) = ?h + 1" using small n by (intro unat_of_nat64) simp
  have uto: "unat (buffer_size ?b - 1) = unat (buf_len ?b) - 1"
    using tight(2) n body0 by (simp add: buffer_size_def unat_sub word_le_nat_alt)
  have "unat (buf_len ?b) < 2 ^ 62" using b(1) by (auto simp: buffer_inv_def)
  then have bounds: "unat (buf_len ?b) - 1 < 2 ^ 62" "?h + 1 \<le> unat (buf_len ?b) - 1" "?h + 1 \<le> ?n"
    using tight(2) n body0 by linarith+
  obtain c where c: "buffer_slice mem ?b (of_nat (?h + 1)) (buffer_size ?b - 1) = Inr (Some c)"
      "buffer_inv c"
      "buf_alloc c = Some (drop (?h + 1) (take (unat (buf_len ?b) - 1) (with_length body)) @ [NUL])"
    using buffer_slice_ok [OF mem b(1), of "buffer_size ?b - 1" "of_nat (?h + 1)"] bounds
    unfolding ufrom uto b(3) by blast
  have "drop (?h + 1) (take (unat (buf_len ?b) - 1) (with_length body)) =
      (if 1024 dvd ?n then butlast body else body)"
  proof (cases "1024 dvd ?n")
    case True
    then have "unat (buf_len ?b) - 1 = ?h + 1 + (length body - 1)" using tight(3) n body0 by simp
    then have "drop (?h + 1) (take (unat (buf_len ?b) - 1) (with_length body)) = butlast body"
      by (simp add: with_length_def butlast_conv_take)
    with True show ?thesis by simp
  next
    case False
    then have "take (unat (buf_len ?b) - 1) (with_length body) = with_length body"
      using tight(1) by simp
    with False show ?thesis by (simp add: with_length_def)
  qed
  moreover have "data_ptr c =
      Inr (drop (?h + 1) (take (unat (buf_len ?b) - 1) (with_length body)) @ [NUL])"
    using c(2) by (rule buffer_invE) (use c(3) in simp)
  ultimately show ?thesis using c(1,2) unfolding start by auto
qed

definition g_ready :: "int_state \<Rightarrow> nat option \<Rightarrow> bool" where
  "g_ready g answer \<longleftrightarrow> 0 < fst (receive_size g answer) \<and> fst (receive_size g answer) < 2 ^ 32"

lemma jug_int_receive_message:
  assumes mem: "ample mem" and g: "g_ready g answer"
    and cs: "concat cs = with_length body" "\<forall>c \<in> set cs. c \<noteq> []"
    and body: "NUL \<notin> set body" "body \<noteq> []" "length (with_length body) < 30000000"
  shows "\<exists>c g'. jug_int_receive mem answer g (map Chunk cs @ rest) = Inr (Some c, rest, g') \<and>
    data_ptr c = Inr ((if 1024 dvd length (with_length body) then butlast body else body) @ [NUL])"
proof -
  obtain mx g' where mx: "receive_size g answer = (mx, g')" "0 < mx" "mx < 2 ^ 32"
    using g by (cases "receive_size g answer") (auto simp: g_ready_def)
  obtain b where b: "buffer_new mem = Some b" "heap_buffer_inv (mem, b)" "buffer_abs b = []"
    using buffer_new_ok [OF mem] mem by (auto simp: heap_buffer_inv_def)
  let ?st = "\<lparr>request_buffer = b, read_size_acc = 0, metadata_read = False, request_size = 0,
    body_start_index = 0\<rparr>"
  have "receiving mem body [] ?st" using b by (simp add: receiving_def)
  moreover have "concat cs \<noteq> []" unfolding cs(1) by (simp add: with_length_def)
  ultimately obtain st where st: "receive_loop mem mx (map Chunk cs @ rest) ?st = Inr (Some st, rest)"
      "receiving mem body (with_length body) st"
    using receive_loop_ok [of mem body "[]" ?st cs mx rest] cs body mx(2) by auto
  obtain c where "buffer_slice mem (request_buffer st) (word_of_int (body_start_index st + 1))
      (buffer_size (request_buffer st) - 1) = Inr (Some c)"
      "data_ptr c = Inr ((if 1024 dvd length (with_length body) then butlast body else body) @ [NUL])"
    using slice_of_message [OF mem st(2) body(2,3)] by blast
  moreover have "can_alloc mem mx" using mem mx(3) by (simp add: ampleD)
  ultimately show ?thesis
    using mx(1) b(1) st(1) by (auto simp: jug_int_receive_def)
qed

section \<open>Laws of sending\<close>

text \<open>As long as every call of \<open>send\<close> takes something, all of it is sent.\<close>

lemma send_loop_all:
  assumes "\<And>k. 0 < answer k"
  shows "fst (send_loop answer k s b) = s"
proof (induction s arbitrary: k b rule: length_induct)
  case (1 s)
  define r where "r = nat (min (answer k) (int (length s)))"
  show ?case
  proof (cases "s = []")
    case True
    then show ?thesis by (simp add: send_loop.simps)
  next
    case False
    then have r: "0 < r" "r \<le> length s" "min (answer k) (int (length s)) = int r"
      using assms [of k] by (auto simp: r_def min_def)
    then have "fst (send_loop answer (Suc k) (drop r s) (int r)) = drop r s"
      using 1 False by simp
    with False r show ?thesis
      by (subst send_loop.simps) (simp add: split_beta)
  qed
qed

text \<open>Only a prefix of the data ever goes out.\<close>

lemma send_loop_prefix: "\<exists>t. s = fst (send_loop answer k s b) @ t"
proof (induction s arbitrary: k b rule: length_induct)
  case (1 s)
  define r where "r = min (answer k) (int (length s))"
  show ?case
  proof (cases "s = [] \<or> r \<le> 0")
    case True
    then show ?thesis by (subst send_loop.simps) (auto simp: r_def Let_def)
  next
    case False
    then have "length (drop (nat r) s) < length s" by simp
    then obtain t where "drop (nat r) s = fst (send_loop answer (Suc k) (drop (nat r) s) r) @ t"
      using 1 by blast
    then have "s = (take (nat r) s @ fst (send_loop answer (Suc k) (drop (nat r) s) r)) @ t"
      by (metis append_assoc append_take_drop_id)
    moreover have "fst (send_loop answer k s b) =
        take (nat r) s @ fst (send_loop answer (Suc k) (drop (nat r) s) r)"
      using False by (subst send_loop.simps) (simp add: r_def Let_def split_beta)
    ultimately show ?thesis by metis
  qed
qed

section \<open>Laws of malformed requests\<close>

lemma skip_line_split: "skip_line p = Inr q \<Longrightarrow> \<exists>pre. p = pre @ LF # q \<and> LF \<notin> set pre"
proof (induction p)
  case (Cons c p)
  show ?case
  proof (cases "c = LF")
    case True
    with Cons.prems show ?thesis by auto
  next
    case False
    then obtain pre where "p = pre @ LF # q" "LF \<notin> set pre" using Cons by auto
    with False show ?thesis by (intro exI [of _ "c # pre"]) simp
  qed
qed simp

lemma c_strlen_Inr: "c_strlen p = Inr n \<Longrightarrow> n < length p \<and> NUL \<notin> set (take n p)"
proof (induction p arbitrary: n)
  case (Cons c p)
  then show ?case by (auto simp: c_then_Inr split: if_splits)
qed simp

lemma c_atoi_range: "c_atoi p = Inr z \<Longrightarrow> - (2 ^ 31) \<le> z \<and> z < 2 ^ 31"
  using int32_range by (auto simp: c_atoi_def c_then_Inr)

text \<open>The comparison of a \<open>size_t\<close> with an \<open>int\<close> that C makes: a negative \<open>int\<close> is larger than every length.\<close>

lemma size_t_cmp:
  assumes "n < 2 ^ 63" "- (2 ^ 31) \<le> z" "z < 2 ^ 31"
  shows "(of_nat n :: size_t) < word_of_int z \<longleftrightarrow> z < 0 \<or> int n < z"
proof -
  have n: "uint (of_nat n :: size_t) = int n" "int n < 2 ^ 63"
    using assms(1) by (simp_all add: uint_nat of_nat_less_numeral_power_cancel_iff)
  have "uint (word_of_int z :: size_t) = (if z < 0 then z + 2 ^ 64 else z)"
  proof (cases "z < 0")
    case True
    have "z mod 2 ^ 64 = (z + 2 ^ 64) mod 2 ^ 64" by simp
    also have "\<dots> = z + 2 ^ 64" using True assms(2) by (intro mod_pos_pos_trivial) simp_all
    finally show ?thesis using True by (simp add: uint_word_of_int)
  next
    case False
    then have "z mod 2 ^ 64 = z" using assms(3) by (intro mod_pos_pos_trivial) simp_all
    then show ?thesis using False by (simp add: uint_word_of_int)
  qed
  then show ?thesis using n assms(2) unfolding word_less_def by (cases "z < 0") simp_all
qed

lemma decode_data_shape:
  assumes "decode_data mem p = Inr (Some (s, q))" "length p < 2 ^ 63"
  shows "\<exists>pre r. c_atoi p = Inr (int (length s)) \<and> p = pre @ [LF] @ s @ r \<and> LF \<notin> set pre \<and>
    NUL \<notin> set s \<and> q = drop 1 r"
proof -
  obtain z p' len where z: "c_atoi p = Inr z" and p': "skip_line p = Inr p'"
      and len: "c_strlen p' = Inr len" and ok: "\<not> (of_nat len :: size_t) < word_of_int z"
      and s: "s = take (nat z) p'" and q: "q = drop (nat z + 1) p'"
    using assms(1) by (auto simp: decode_data_def c_then_Inr split: if_splits)
  obtain pre where pre: "p = pre @ LF # p'" "LF \<notin> set pre" using skip_line_split [OF p'] by blast
  have nul: "len < length p'" "NUL \<notin> set (take len p')" using c_strlen_Inr [OF len] by auto
  have "0 \<le> z \<and> z \<le> int len"
    using ok size_t_cmp [of len z] c_atoi_range [OF z] nul(1) pre(1) assms(2) by simp
  then have "length s = nat z" "NUL \<notin> set s"
    using nul set_take_subset_set_take [of "nat z" len p'] by (auto simp: s nat_le_iff)
  moreover have "p' = s @ drop (nat z) p'" "q = drop 1 (drop (nat z) p')"
    by (simp_all add: s q add.commute)
  ultimately show ?thesis
    using z pre \<open>0 \<le> z \<and> z \<le> int len\<close>
    by (intro exI [of _ pre] exI [of _ "drop (nat z) p'"]) simp
qed

section \<open>Properties\<close>

lemma digit_char_numeral: "digit_char 1 = CHR ''1''" "digit_char 2 = CHR ''2''"
  "digit_char (Suc (Suc 0)) = CHR ''2''"
  unfolding digit_char_def by code_simp+

lemma g_ready_default [simp]: "g_ready \<lparr>g_socketbuffer_max_size = 0,
    g_socketbuffer_max_size_calculated = False\<rparr> None"
  by (simp add: g_ready_def receive_size_def RECEIVE_SIZE_MAX_def)

lemma request_arrives:
  assumes body: "body = request_body inp out src"
    and "ample mem" "g_ready g answer"
    and "concat cs = with_length body" "\<forall>c \<in> set cs. c \<noteq> []"
    and "NUL \<notin> set inp" "NUL \<notin> set out" "NUL \<notin> set src"
    and "length (with_length body) < 30000000" "\<not> 1024 dvd length (with_length body)"
  shows "\<exists>b g'. jug_int_receive mem answer g (map Chunk cs @ rest) = Inr (Some b, rest, g') \<and>
    jug_int_decode mem b blank_request = Inr (0, data_request inp out src)"
proof -
  have "NUL \<notin> set body" "body \<noteq> []"
    using assms(6-8) by (simp_all add: body request_body_def request_head_def)
  then obtain b g' where "jug_int_receive mem answer g (map Chunk cs @ rest) = Inr (Some b, rest, g')"
      "data_ptr b = Inr (body @ [NUL])"
    using jug_int_receive_message [OF assms(2-5), where rest = rest] assms(9,10) by auto
  moreover have "length inp + length out + length src < 30000000"
    using assms(9) by (simp add: body with_length_def request_body_def request_head_def)
  ultimately show ?thesis using decode_body [OF assms(2) assms(6-8)] by (auto simp: body)
qed

lemma kilobyte_truncated:
  assumes body: "body = request_body inp out src" and "src \<noteq> []"
    and "ample mem" "g_ready g answer"
    and "concat cs = with_length body" "\<forall>c \<in> set cs. c \<noteq> []"
    and "NUL \<notin> set inp" "NUL \<notin> set out" "NUL \<notin> set src"
    and "length (with_length body) < 30000000" "1024 dvd length (with_length body)"
  shows "\<exists>b g' req. jug_int_receive mem answer g (map Chunk cs @ rest) = Inr (Some b, rest, g') \<and>
    jug_int_decode mem b blank_request = Inr (-2, req)"
proof -
  have "NUL \<notin> set body" "body \<noteq> []"
    using assms(7-9) by (simp_all add: body request_body_def request_head_def)
  then obtain b g' where "jug_int_receive mem answer g (map Chunk cs @ rest) = Inr (Some b, rest, g')"
      "data_ptr b = Inr (butlast body @ [NUL])"
    using jug_int_receive_message [OF assms(3-6), where rest = rest] assms(10,11) by auto
  moreover have "length inp + length out + length src < 30000000"
    using assms(10) by (simp add: body with_length_def request_body_def request_head_def)
  ultimately show ?thesis
    using decode_truncated_body [OF assms(3) assms(7-9)] assms(2) by (auto simp: body)
qed

text \<open>C5: A judging request with inline data that the client prints on the socket arrives whole however
  the network cuts it into pieces, the receive loop reads nothing of what follows it, and decoding
  it gives back exactly the input, the expected output and the source; this holds whenever the length
  of the whole message is not a multiple of 1024.\<close>

theorem request_round_trip:
  assumes body: "body = request_body inp out src"
    and "ample mem" "g_ready g answer"
    and "concat cs = with_length body" "\<forall>c \<in> set cs. c \<noteq> []"
    and "NUL \<notin> set inp" "NUL \<notin> set out" "NUL \<notin> set src"
    and "length (with_length body) < 30000000" "\<not> 1024 dvd length (with_length body)"
  shows "\<exists>b g'. jug_int_receive mem answer g (map Chunk cs @ rest) = Inr (Some b, rest, g') \<and>
    jug_int_decode mem b blank_request = Inr (0, data_request inp out src)"
  using assms by (rule request_arrives)

lemma small_request:
  "request_body ''1'' ''2'' ''m'' = ''0'' @ [LF] @ ''0'' @ [LF] @ ''1'' @ [LF] @ ''1'' @ [LF] @
     ''0'' @ [LF] @ ''1'' @ [LF] @ ''2'' @ [LF] @ ''1'' @ [LF] @ ''m''"
  by (simp add: request_body_def request_head_def digit_char_def) code_simp

lemma small_message: "with_length (request_body ''1'' ''2'' ''m'') =
    ''17'' @ [LF] @ request_body ''1'' ''2'' ''m''"
  unfolding with_length_def small_request by code_simp

lemmas small_message_text = small_message [unfolded small_request, simplified]

theorem request_round_trip_witness:
  "\<exists>b g'. jug_int_receive roomy None
      \<lparr>g_socketbuffer_max_size = 0, g_socketbuffer_max_size_calculated = False\<rparr>
      (map Chunk [''17'' @ [LF], request_body ''1'' ''2'' ''m''] @ [Chunk ''next'']) =
        Inr (Some b, [Chunk ''next''], g') \<and>
    jug_int_decode roomy b blank_request = Inr (0, data_request ''1'' ''2'' ''m'')"
  by (rule request_round_trip [OF refl])
    (auto simp: small_message_text small_request dest: dvd_imp_le)

text \<open>A request whose whole message is a multiple of 1024 bytes long fills the receive buffer
  exactly; the slice then leaves out its last byte and the decoder refuses the request (\<open>-2\<close>), however
  the message is cut into pieces.\<close>

theorem full_kilobyte_request_refused:
  assumes body: "body = request_body inp out src" and "src \<noteq> []"
    and "ample mem" "g_ready g answer"
    and "concat cs = with_length body" "\<forall>c \<in> set cs. c \<noteq> []"
    and "NUL \<notin> set inp" "NUL \<notin> set out" "NUL \<notin> set src"
    and "length (with_length body) < 30000000" "1024 dvd length (with_length body)"
  shows "\<exists>b g' req. jug_int_receive mem answer g (map Chunk cs @ rest) = Inr (Some b, rest, g') \<and>
    jug_int_decode mem b blank_request = Inr (-2, req)"
  using assms by (rule kilobyte_truncated)

text \<open>A request of exactly 1024 bytes: one byte of input and of output, 1000 of source.\<close>

lemma dec_nat_longer: "10 \<le> n \<Longrightarrow> length (dec_nat n) = Suc (length (dec_nat (n div 10)))"
  by (subst dec_nat.simps) simp

lemma dec_nat_4: "1000 \<le> n \<Longrightarrow> n < 10000 \<Longrightarrow> length (dec_nat n) = 4"
  by (simp add: dec_nat_longer div_le_mono div_mult2_eq [symmetric] less_mult_imp_div_less)

lemma kilobyte_body: "length (request_body ''1'' ''2'' (replicate 1000 CHR ''x'')) = 1019"
  by (simp add: request_body_def request_head_def dec_nat_4)

lemma kilobyte_message: "length (with_length (request_body ''1'' ''2'' (replicate 1000 CHR ''x''))) = 1024"
  by (simp only: with_length_def length_append length_Cons kilobyte_body) (simp add: dec_nat_4)

theorem full_kilobyte_request_refused_witness:
  "\<exists>b g' req. jug_int_receive roomy None
      \<lparr>g_socketbuffer_max_size = 0, g_socketbuffer_max_size_calculated = False\<rparr>
      (map Chunk [with_length (request_body ''1'' ''2'' (replicate 1000 CHR ''x''))] @ []) =
        Inr (Some b, [], g') \<and>
    jug_int_decode roomy b blank_request = Inr (-2, req)"
proof (rule full_kilobyte_request_refused [OF refl, where inp = "''1''" and out = "''2''"])
  show "\<forall>c \<in> set [with_length (request_body ''1'' ''2'' (replicate 1000 CHR ''x''))]. c \<noteq> []"
    by (simp add: with_length_def)
  show "1024 dvd length (with_length (request_body ''1'' ''2'' (replicate 1000 CHR ''x'')))"
    "length (with_length (request_body ''1'' ''2'' (replicate 1000 CHR ''x''))) < 30000000"
    unfolding kilobyte_message by simp_all
qed simp_all

text \<open>C27: Whatever the client sends, a field that the decoder accepts has exactly the announced size, lies
  inside the text, and contains no terminator: a negative size or one larger than the text that is
  left is refused.\<close>

theorem decode_data_bounds:
  assumes "decode_data mem p = Inr (Some (s, q))" "length p < 2 ^ 63"
  shows "\<exists>pre r. c_atoi p = Inr (int (length s)) \<and> p = pre @ [LF] @ s @ r \<and> LF \<notin> set pre \<and>
    NUL \<notin> set s \<and> q = drop 1 r"
  using assms by (rule decode_data_shape)

theorem decode_data_bounds_witness:
  "\<exists>pre r. c_atoi (''2'' @ [LF] @ ''abc'' @ [NUL]) = Inr (int (length ''ab'')) \<and>
    ''2'' @ [LF] @ ''abc'' @ [NUL] = pre @ [LF] @ ''ab'' @ r \<and> LF \<notin> set pre \<and>
    NUL \<notin> set ''ab'' \<and> [NUL] = drop 1 r"
  using decode_data_bounds [of roomy "dec_nat 2 @ LF # ''ab'' @ CHR ''c'' # [NUL]" "''ab''" "[NUL]"]
    decode_data_read [of "''ab''" "CHR ''c''" "[NUL]" roomy]
  by (simp add: roomy_def digit_char_numeral)

text \<open>C28: A request without a single line end makes the decoder read past the end of the buffer: the
  loops that look for the line end have no other exit.\<close>

theorem decode_without_line_end:
  assumes "LF \<notin> set s" "data_ptr b = Inr (s @ [NUL])" "c_atoi (s @ [NUL]) = Inr t"
  shows "jug_int_decode mem b req = Inl Out_of_bounds"
proof -
  have "skip_line (s @ [NUL]) = Inl Out_of_bounds" using assms(1) by (induction s) auto
  then show ?thesis using assms(2,3) by (simp add: jug_int_decode_def buffer_get_string_def)
qed

theorem decode_without_line_end_witness:
  "jug_int_decode roomy \<lparr>buf_len = 1, buf_alloc = Some (''0'' @ [NUL]), buf_data = 0\<rparr> blank_request =
     Inl Out_of_bounds"
  by (rule decode_without_line_end [of "''0''" _ 0]) (simp_all, code_simp)

text \<open>C29: As long as every \<open>send\<close> takes something, the client receives the length of the verdict text, a
  line end and the text; different verdicts have different texts, and the text and the response fit
  the arrays \<open>hr_vedict[50]\<close> and \<open>response[100]\<close>.\<close>

theorem verdict_is_sent:
  assumes "\<And>k. 0 < answer k"
  shows "fst (jug_int_send_verdict answer v) = with_length (jug_int_verdict_to_string v) \<and>
    length (jug_int_verdict_to_string v) < 50 \<and>
    length (fst (jug_int_send_verdict answer v)) < 100 \<and>
    (jug_int_verdict_to_string v = jug_int_verdict_to_string w \<longleftrightarrow> v = w)"
proof -
  have sent: "fst (jug_int_send_verdict answer v) = with_length (jug_int_verdict_to_string v)"
    by (simp add: jug_int_send_verdict_def send_loop_all [OF assms] with_length_def Let_def)
  have len: "length (jug_int_verdict_to_string v) < 50" by (cases v) simp_all
  then have "length (with_length (jug_int_verdict_to_string v)) < 100"
    unfolding with_length_def length_append length_Cons
    using length_dec_nat [of "length (jug_int_verdict_to_string v)"]
    by (cases v) (simp_all add: dec_nat_longer)
  moreover have "jug_int_verdict_to_string v = jug_int_verdict_to_string w \<longleftrightarrow> v = w"
    by (cases v; cases w) simp_all
  ultimately show ?thesis using sent len by simp
qed

theorem verdict_is_sent_witness:
  "fst (jug_int_send_verdict (\<lambda>k. 3) VERDICT_WRONG) =
     with_length (jug_int_verdict_to_string VERDICT_WRONG)"
  using verdict_is_sent [of "\<lambda>k. 3" VERDICT_WRONG VERDICT_WRONG] by simp

end
