(* ===== verification/Client.thy ===== *)
theory Client
  imports Interface
begin

text \<open>
  The command line client (\<open>src/client.c\<close>): it prints a request from three files
  (\<open>kudosdjudge_forge_dd\<close>), sends it (\<open>kudosjudge_send\<close>) and reads the reply (\<open>kudosjudge_receive\<close>).
  A file is the string it contains, \<open>None\<close> when it cannot be opened. The fixed arrays of the code are
  kept with their sizes: writing past one is the fault \<open>Buffer_overflow\<close>.
\<close>

section \<open>Forging a request\<close>

text \<open>One of the three loops that read a file block by block into \<open>dst\<close>, which has room for \<open>cap\<close> bytes.
  A block that is filled completely puts its terminator at \<open>block_buffer[10000]\<close>; a shorter one has
  met the end of the file, so the loop ends after it.\<close>

definition read_file :: "nat \<Rightarrow> string option \<Rightarrow> string c_result" where
  "read_file cap file = (case file of
       None \<Rightarrow> Inl Null_deref
     | Some s \<Rightarrow>
         let block = take 10000 s in
         if length block \<ge> 10000 then Inl Buffer_overflow
         else let text = cstr (block @ [NUL]) in
           if length text + 1 \<le> cap then Inr text else Inl Buffer_overflow)"

text \<open>The two \<open>sprintf\<close> calls, into objects of \<open>cap\<close> bytes.\<close>

definition forge_text :: "nat \<Rightarrow> string \<Rightarrow> string \<Rightarrow> string \<Rightarrow> string c_result" where
  "forge_text cap input output source =
     (let body = dec_nat 0 @ [LF] @ dec_nat 0 @ [LF] @ dec_nat (length input) @ [LF] @ input @ [LF] @
            dec_nat 0 @ [LF] @ dec_nat (length output) @ [LF] @ output @ [LF] @
            dec_nat (length source) @ [LF] @ source;
          request = dec_int (int32 (int (length body))) @ [LF] @ body in
      if length body + 1 \<le> cap \<and> length request + 1 \<le> cap then Inr request
      else Inl Buffer_overflow)"

definition kudosdjudge_forge_dd ::
  "allocator \<Rightarrow> string option \<Rightarrow> string option \<Rightarrow> string option \<Rightarrow> string option c_result" where
  "kudosdjudge_forge_dd mem source_file input_file output_file =
     (case input_file of
        None \<Rightarrow> Inl Null_deref
      | Some i \<Rightarrow>
          if \<not> can_alloc mem (length i + 1) then Inl Null_deref
          else c_then (read_file 1000 source_file) (\<lambda>source.
            c_then (read_file (length i + 1) input_file) (\<lambda>input.
              c_then (read_file 4000 output_file) (\<lambda>output.
                let cap = length source + length input + length output + 400 in
                if \<not> can_alloc mem cap then Inr None
                else c_then (forge_text cap input output source) (\<lambda>request. Inr (Some request))))))"

section \<open>Sending and receiving\<close>

definition kudosjudge_send :: "(nat \<Rightarrow> int) \<Rightarrow> string \<Rightarrow> string \<times> int" where
  "kudosjudge_send answer s = (fst (send_loop answer 0 s 0), 1)"

text \<open>The first loop: each \<open>recv\<close> overwrites \<open>init_buffer\<close>, but the counter accumulates. It has no exit when
  the peer closes before a line end has come. The result is the array, the counter and \<open>size_expected\<close>;
  \<open>None\<close> when \<open>recv\<close> fails.\<close>

function receive_header ::
  "sock \<Rightarrow> char list \<Rightarrow> nat \<Rightarrow> ((char list \<times> nat \<times> int) option \<times> sock) c_result" where
  "receive_header s init_buffer acc = (case sock_recv s 100 of
       (None, s') \<Rightarrow> Inr (None, s')
     | (Some d, s') \<Rightarrow>
         if length d \<ge> 100 then Inl Buffer_overflow
         else if d = [] then Inl Diverges
         else let init1 = d @ NUL # drop (length d + 1) init_buffer;
                  acc1 = acc + length d in
           case find_sub [LF] (cstr init1) of
             Some pp \<Rightarrow> c_then (c_atoi init1) (\<lambda>z. Inr (Some (init1, acc1, int32 (int pp + 1 + z)), s'))
           | None \<Rightarrow> receive_header s' init1 acc1)"
  by pat_completeness auto
termination
  by (relation "measure (\<lambda>(s, b, acc). sock_size s)") (auto dest: sock_recv_smaller [OF sym])

text \<open>The second loop: \<open>tmp\<close> is the offset where the first piece ended and is never advanced, so every
  further piece overwrites the one before it.\<close>

function receive_rest ::
  "sock \<Rightarrow> char list \<Rightarrow> nat \<Rightarrow> int \<Rightarrow> nat \<Rightarrow> (char list option \<times> sock) c_result" where
  "receive_rest s buffer tmp size_expected acc = (case sock_recv s (nat size_expected) of
       (None, s') \<Rightarrow> Inr (None, s')
     | (Some d, s') \<Rightarrow>
         if tmp + length d > length buffer then Inl Buffer_overflow
         else let buffer1 = take tmp buffer @ d @ drop (tmp + length d) buffer;
                  acc1 = acc + length d in
           if int acc1 \<ge> size_expected then Inr (Some buffer1, s')
           else if d = [] then Inl Diverges
           else receive_rest s' buffer1 tmp size_expected acc1)"
  by pat_completeness auto
termination
  by (relation "measure (\<lambda>(s, b, t, e, acc). sock_size s)") (auto dest: sock_recv_smaller [OF sym])

text \<open>The tail: terminate at \<open>tmp\<close>, skip the header, copy the rest into \<open>strlen(buffer)\<close> bytes.\<close>

definition reply_text :: "char list \<Rightarrow> nat \<Rightarrow> string c_result" where
  "reply_text buffer tmp =
     (if tmp \<ge> length buffer then Inl Buffer_overflow
      else let b = buffer[tmp := NUL] in
        c_then (skip_line b) (\<lambda>p. c_then (c_strlen b) (\<lambda>n. c_then (c_strlen p) (\<lambda>k.
          if k + 1 \<le> n then Inr (cstr p) else Inl Buffer_overflow))))"

definition kudosjudge_receive :: "allocator \<Rightarrow> sock \<Rightarrow> (string option \<times> sock) c_result" where
  "kudosjudge_receive mem s =
     c_then (receive_header s (map (junk mem) [0..<100]) 0) (\<lambda>(h, s1). case h of
         None \<Rightarrow> Inr (None, s1)
       | Some (init_buffer, acc, size_expected) \<Rightarrow>
           if size_expected + 10 < 0 \<or> \<not> can_alloc mem (nat (size_expected + 10)) then Inl Null_deref
           else let buffer0 = map (junk mem) [0..<nat (size_expected + 10)] in
             c_then (c_memcpy buffer0 init_buffer acc) (\<lambda>buffer1.
               c_then (receive_rest s1 buffer1 acc size_expected acc) (\<lambda>(r, s2). case r of
                   None \<Rightarrow> Inr (None, s2)
                 | Some buffer2 \<Rightarrow> c_then (reply_text buffer2 acc) (\<lambda>t. Inr (Some t, s2)))))"

section \<open>The program\<close>

text \<open>What the program meets outside: whether the socket can be created and connected, the files, what each
  \<open>send\<close> takes and what the daemon answers.\<close>

record client_world =
  sock_created :: bool
  connected :: bool
  file_of :: "string \<Rightarrow> string option"
  send_answer :: "nat \<Rightarrow> int"
  reply_sock :: sock

text \<open>The exit status, the bytes sent and the verdict printed. \<open>argv[argc]\<close> is the null pointer.\<close>

definition client_host :: "string list \<Rightarrow> (string \<times> nat) c_result" where
  "client_host argv =
     (if length argv > 4 \<and> take 2 (argv ! 1) = ''-h'' then
        if length (argv ! 2) + 1 \<le> 100 then Inr (argv ! 2, 3) else Inl Buffer_overflow
      else Inr (''127.0.0.1'', 1))"

definition client_main ::
  "allocator \<Rightarrow> client_world \<Rightarrow> string list \<Rightarrow> (int \<times> string \<times> string option) c_result" where
  "client_main mem w argv =
     (if length argv < 4 then Inr (0, [], None)
      else c_then (client_host argv) (\<lambda>(host, files_index).
        if \<not> sock_created w then Inr (5, [], None)
        else if \<not> connected w then Inr (1, [], None)
        else if files_index + 2 \<ge> length argv then Inl Null_deref
        else c_then (kudosdjudge_forge_dd mem (file_of w (argv ! files_index))
              (file_of w (argv ! (files_index + 1))) (file_of w (argv ! (files_index + 2)))) (\<lambda>request.
          case request of
            None \<Rightarrow> Inr (1, [], None)
          | Some r \<Rightarrow>
              c_then (kudosjudge_receive mem (reply_sock w)) (\<lambda>(reply, _).
                Inr (0, fst (kudosjudge_send (send_answer w) r), reply)))))"

section \<open>Laws of forging\<close>

declare receive_header.simps [simp del] receive_rest.simps [simp del]

lemma read_file_ok:
  assumes "NUL \<notin> set s" "length s < 10000" "length s < cap"
  shows "read_file cap (Some s) = Inr s"
  using assms by (simp add: read_file_def)

lemma forge_text_ok:
  assumes "length inp < 10000" "length out < 4000" "length src < 1000"
    and "length inp + length out + length src + 400 \<le> cap"
  shows "forge_text cap inp out src = Inr (with_length (request_body inp out src))"
proof -
  have d: "length (dec_nat (length inp)) \<le> 5" "length (dec_nat (length out)) \<le> 5"
      "length (dec_nat (length src)) \<le> 5"
    using assms by (simp_all add: length_dec_nat_5)
  then have l: "length (request_body inp out src) \<le> length inp + length out + length src + 40"
    by (simp add: request_body_def request_head_def)
  then have "length (dec_nat (length (request_body inp out src))) \<le> 5"
    using assms by (intro length_dec_nat_5) simp
  moreover have "dec_int (int32 (int (length (request_body inp out src)))) =
      dec_nat (length (request_body inp out src))"
    using l assms by (simp add: dec_int_def)
  ultimately show ?thesis
    using l assms(4)
    by (simp add: forge_text_def Let_def with_length_def request_body_def request_head_def)
qed

lemma forge_ok:
  assumes "ample mem" "NUL \<notin> set inp" "NUL \<notin> set out" "NUL \<notin> set src"
    and "length inp < 10000" "length out < 4000" "length src < 1000"
  shows "kudosdjudge_forge_dd mem (Some src) (Some inp) (Some out) =
    Inr (Some (with_length (request_body inp out src)))"
  using assms
  by (simp add: kudosdjudge_forge_dd_def read_file_ok forge_text_ok ampleD Let_def)

section \<open>Laws of the reply\<close>

lemma receive_rest_ok:
  assumes "tmp + length (concat cs) \<le> length buffer" "\<forall>c \<in> set cs. c \<noteq> []"
    and "want = int (acc + length (concat cs))"
  shows "\<exists>b. receive_rest (map Chunk cs) buffer tmp want acc = Inr (Some b, []) \<and>
    take tmp b = take tmp buffer \<and> length b = length buffer"
  using assms
proof (induction cs arbitrary: buffer acc)
  case Nil
  then show ?case by (subst receive_rest.simps) simp
next
  case (Cons c cs)
  let ?b = "take tmp buffer @ c @ drop (tmp + length c) buffer"
  have recv: "sock_recv (map Chunk (c # cs)) (nat want) = (Some c, map Chunk cs)"
    using Cons.prems(3) by simp
  have b: "length ?b = length buffer" "take tmp ?b = take tmp buffer"
    using Cons.prems(1) by auto
  have step: "receive_rest (map Chunk (c # cs)) buffer tmp want acc =
      (if int (acc + length c) \<ge> want then Inr (Some ?b, map Chunk cs)
       else receive_rest (map Chunk cs) ?b tmp want (acc + length c))"
    by (subst receive_rest.simps) (use recv Cons.prems(1,2) in \<open>simp add: Let_def\<close>)
  show ?case
  proof (cases "int (acc + length c) \<ge> want")
    case True
    then have "length (concat cs) = 0" using Cons.prems(3) by simp
    then have "cs = []" using Cons.prems(2) by (cases cs) simp_all
    with True step b show ?thesis by simp
  next
    case False
    have "\<exists>b'. receive_rest (map Chunk cs) ?b tmp want (acc + length c) = Inr (Some b', []) \<and>
        take tmp b' = take tmp ?b \<and> length b' = length ?b"
      by (rule Cons.IH) (use Cons.prems b(1) in auto)
    with False step b show ?thesis by auto
  qed
qed

lemma reply_text_ok:
  assumes "length h + 1 + length t < length b" "take (length h + 1 + length t) b = h @ LF # t"
    and "LF \<notin> set h" "NUL \<notin> set h" "NUL \<notin> set t"
  shows "reply_text b (length h + 1 + length t) = Inr t"
proof -
  let ?n = "length h + 1 + length t"
  have "b[?n := NUL] = take ?n b @ NUL # drop (Suc ?n) b"
    using assms(1) by (rule upd_conv_take_nth_drop)
  then have "b[?n := NUL] = (h @ LF # t) @ NUL # drop (Suc ?n) b" using assms(2) by simp
  moreover from this have "c_strlen (b[?n := NUL]) = Inr (length (h @ LF # t))"
    using assms(4,5) by (simp only:) (rule c_strlen_terminated, simp)
  ultimately show ?thesis
    using assms by (simp add: reply_text_def skip_line_at)
qed

text \<open>What the client makes of a reply whose first piece contains the header: exactly the part of the text
  that came with it.\<close>

lemma kudosjudge_receive_ok:
  assumes mem: "ample mem" and c: "c = dec_nat (length v) @ LF # t"
    and msg: "concat (c # cs) = with_length v" "\<forall>c \<in> set cs. c \<noteq> []"
    and v: "NUL \<notin> set v" "length (with_length v) < 100"
  shows "kudosjudge_receive mem (map Chunk (c # cs)) = Inr (Some t, [])"
proof -
  let ?h = "dec_nat (length v)"
  let ?init = "c @ NUL # drop (length c + 1) (map (junk mem) [0..<100])"
  have tv: "t @ concat cs = v" using msg(1) c by (simp add: with_length_def)
  have len: "length c < 100" "length c + length (concat cs) = length (with_length v)"
    using arg_cong [OF msg(1), of length] v(2) by simp_all
  have "NUL \<notin> set (t @ concat cs)" unfolding tv by (rule v(1))
  then have nul: "NUL \<notin> set c" "NUL \<notin> set t" using c by auto
  have n100: "length v < 100" using v(2) by (simp add: with_length_def)
  have idx: "find_sub [LF] (cstr ?init) = Some (length ?h)"
    unfolding cstr_terminated [OF nul(1)] by (simp add: c find_sub_char)
  have "c_atoi ?init = Inr (int (length v))"
    using n100 c_atoi_dec_nat [of "length v" LF] by (simp add: c)
  then have "receive_header (map Chunk (c # cs)) (map (junk mem) [0..<100]) 0 =
      Inr (Some (?init, length c, int32 (int (length ?h) + 1 + int (length v))), map Chunk cs)"
    by (subst receive_header.simps) (use idx len(1) in \<open>simp add: c\<close>)
  moreover have "int32 (int (length ?h) + 1 + int (length v)) = int (length (with_length v))"
    using v(2) by (simp add: with_length_def)
  moreover define want where "want = int (length (with_length v))"
  ultimately have head: "receive_header (map Chunk (c # cs)) (map (junk mem) [0..<100]) 0 =
      Inr (Some (?init, length c, want), map Chunk cs)"
    by (simp only:)
  let ?b0 = "map (junk mem) [0..<nat (want + 10)]"
  let ?b1 = "c @ drop (length c) ?b0"
  have cap: "nat (want + 10) = length (with_length v) + 10" by (simp add: want_def nat_add_distrib)
  have copy: "c_memcpy ?b0 ?init (length c) = Inr ?b1"
    using len cap by (simp add: c_memcpy_def)
  have "length c + length (concat cs) \<le> length ?b1" using len cap by simp
  then obtain b2 where b2: "receive_rest (map Chunk cs) ?b1 (length c) want (length c) =
      Inr (Some b2, [])" "take (length c) b2 = take (length c) ?b1" "length b2 = length ?b1"
    using receive_rest_ok [OF _ msg(2)] len(2) by (metis want_def)
  have "length c = length ?h + 1 + length t" by (simp add: c)
  moreover have "length c < length b2" using len cap b2(3) by simp
  moreover have "take (length c) b2 = ?h @ LF # t" using b2(2) by (simp add: c)
  ultimately have "reply_text b2 (length c) = Inr t"
    using reply_text_ok [of ?h t b2] nul(2) by simp
  moreover have "can_alloc mem (nat (want + 10))" using cap v(2) mem by (simp add: ampleD)
  ultimately show ?thesis
    using head copy b2(1) by (simp add: kudosjudge_receive_def want_def)
qed

section \<open>Properties\<close>

text \<open>For files within the client's limits (source below 1000 bytes, output below 4000, input below
  10000, no terminator inside) the forged request is the length line followed by the body the
  daemon's decoder expects, and the two \<open>sprintf\<close> calls stay inside their objects.\<close>

theorem forge_prints_request:
  assumes "ample mem" "NUL \<notin> set inp" "NUL \<notin> set out" "NUL \<notin> set src"
    and "length inp < 10000" "length out < 4000" "length src < 1000"
  shows "kudosdjudge_forge_dd mem (Some src) (Some inp) (Some out) =
    Inr (Some (with_length (request_body inp out src)))"
  using assms by (rule forge_ok)

theorem forge_prints_request_witness:
  "kudosdjudge_forge_dd roomy (Some ''m'') (Some ''1'') (Some ''2'') =
     Inr (Some (with_length (request_body ''1'' ''2'' ''m'')))"
  by (rule forge_prints_request) simp_all

text \<open>A source file of 1000 bytes or more, or any file of 10000 bytes or more, is written past the
  end of one of the client's arrays before anything is sent.\<close>

theorem forge_overflows:
  assumes "NUL \<notin> set src" "1000 \<le> length src" "can_alloc mem (length inp + 1)"
  shows "kudosdjudge_forge_dd mem (Some src) (Some inp) out = Inl Buffer_overflow"
  using assms by (simp add: kudosdjudge_forge_dd_def read_file_def Let_def)

theorem forge_overflows_witness:
  "kudosdjudge_forge_dd roomy (Some (replicate 1000 CHR ''x'')) (Some ''1'') (Some ''2'') =
     Inl Buffer_overflow"
  by (rule forge_overflows) (simp_all add: roomy_def)

text \<open>When the header comes with the first piece of the daemon's reply, the client shows exactly
  the part of the verdict that came with that piece: the whole verdict when the reply arrives in one
  piece, a truncated one otherwise, since later pieces are written over each other and cut off.\<close>

theorem client_reads_first_piece:
  assumes "ample mem" "c = dec_nat (length v) @ LF # t"
    and "concat (c # cs) = with_length v" "\<forall>c \<in> set cs. c \<noteq> []"
    and "NUL \<notin> set v" "length (with_length v) < 100"
  shows "kudosjudge_receive mem (map Chunk (c # cs)) = Inr (Some t, []) \<and>
    (cs = [] \<longleftrightarrow> t = v)"
proof -
  have "t @ concat cs = v" using assms(2,3) by (simp add: with_length_def)
  moreover from this have "cs = [] \<longleftrightarrow> t = v" using assms(4) by (cases cs) auto
  ultimately show ?thesis using kudosjudge_receive_ok [OF assms] by blast
qed

theorem client_reads_first_piece_witness:
  "kudosjudge_receive roomy (map Chunk [dec_nat (length ''ACCEPTED'') @ LF # ''ACC'', ''EPTED'']) = Inr (Some ''ACC'', [])"
  using client_reads_first_piece [of roomy _ "''ACCEPTED''" "''ACC''" "[''EPTED'']"]
  by (simp add: with_length_def)

end
