(* ===== verification/Compare.thy ===== *)
theory Compare
  imports Prelude_C
begin

text \<open>
  The output checker (\<open>src/compare.c\<close>): \<open>compare_output\<close> compares a piece of the submission's output with
  the reference file from its current offset on, ignoring carriage returns, and moves the offset. The
  model keeps the offset, the \<open>lseek\<close> that moves it back, and the two counters that decide about it.
  The locale \<open>comparator\<close> states what the judge needs of a checker and derives from it what a whole
  run, in pieces of any size, decides.
\<close>

section \<open>The reference file\<close>

definition O_RDONLY :: "32 word" where "O_RDONLY = 0"
definition O_RDWR :: "32 word" where "O_RDWR = 2"
definition READ_SIZE :: nat where "READ_SIZE = 256"

text \<open>An open regular file: its contents and offset, whether the descriptor is valid, the flags it was
  opened with, and whether reading it fails.\<close>

record ref_file =
  content :: string
  offset :: nat
  fd_valid :: bool
  fd_flags :: "32 word"
  read_error :: bool

definition ref_read :: "ref_file \<Rightarrow> nat \<Rightarrow> string option \<times> ref_file" where
  "ref_read f n = (if read_error f then (None, f)
     else let d = take n (drop (offset f) (content f)) in (Some d, f\<lparr>offset := offset f + length d\<rparr>))"

text \<open>\<open>lseek\<close> to a negative offset fails and moves nothing.\<close>

definition ref_seek_back :: "ref_file \<Rightarrow> nat \<Rightarrow> ref_file" where
  "ref_seek_back f n = (if n \<le> offset f then f\<lparr>offset := offset f - n\<rparr> else f)"

section \<open>The checker\<close>

text \<open>The inner loop over a block of the reference and the rest of the piece: the value returned at a
  mismatch, or the rest of the piece with \<open>i\<close>, \<open>read_plus\<close> and \<open>goback\<close>.\<close>

fun match_block ::
  "string \<Rightarrow> string \<Rightarrow> nat \<Rightarrow> int \<Rightarrow> int \<Rightarrow> int + (string \<times> nat \<times> int \<times> int)" where
  "match_block [] rx i read_plus goback = Inr (rx, i, read_plus, goback)"
| "match_block (b # bs) [] i read_plus goback = Inr ([], i, read_plus, goback)"
| "match_block (b # bs) (r # rx) i read_plus goback =
     (if b = CR then match_block bs (r # rx) i (read_plus + 1) goback
      else if r = CR then match_block (b # bs) rx (Suc i) read_plus (goback + 1)
      else if r \<noteq> b then Inl (int i + 1)
      else match_block bs rx (Suc i) read_plus goback)"

lemma match_block_shape:
  "match_block bs rx i p g = Inr (rx', i', p', g') \<Longrightarrow>
     length rx' \<le> length rx \<and> (length rx' = length rx \<and> rx \<noteq> [] \<longrightarrow> p' = p + int (length bs) \<and> g' = g)"
  by (induction bs rx i p g rule: match_block.induct) (force split: if_splits)+

text \<open>The outer loop over the piece.\<close>

function compare_loop :: "ref_file \<Rightarrow> string \<Rightarrow> int \<Rightarrow> int \<Rightarrow> int \<times> ref_file" where
  "compare_loop f tmprx read_plus goback =
     (if tmprx = [] then (0, f)
      else case ref_read f (min READ_SIZE (length tmprx)) of
        (None, f1) \<Rightarrow> (-30, f1)
      | (Some buffer, f1) \<Rightarrow>
          if buffer = [] then (if \<forall>c \<in> set tmprx. c = CR \<or> c = LF then 0 else 20, f1)
          else case match_block buffer tmprx 0 read_plus goback of
            Inl ret \<Rightarrow> (ret, f1)
          | Inr (tmprx', i, read_plus', goback') \<Rightarrow>
              let dec = goback' - read_plus';
                  f2 = (if dec > 0 then ref_seek_back f1 (nat dec) else f1) in
              compare_loop f2 tmprx' read_plus' goback')"
  by pat_completeness auto
termination
proof (relation "measures [\<lambda>(f, rx, p, g). length rx, \<lambda>(f, rx, p, g). nat (g - p),
    \<lambda>(f, rx, p, g). length (content f) - offset f]", goal_cases)
  case 1
  then show ?case by simp
next
  case (2 f rx p g rd f1 buffer m rx' r1 i r2 p' g' dec f2)
  have d: "buffer = take (min READ_SIZE (length rx)) (drop (offset f) (content f))"
      "f1 = f\<lparr>offset := offset f + length buffer\<rparr>"
    using 2(2,3) by (auto simp: ref_read_def Let_def split: if_splits)
  then have len: "offset f + length buffer \<le> length (content f)" "0 < length buffer"
    using 2(4) by auto
  have m: "length rx' \<le> length rx"
      "length rx' = length rx \<longrightarrow> p' = p + int (length buffer) \<and> g' = g"
    using match_block_shape [of buffer rx 0 p g rx' i p' g'] 2 by auto
  show ?case
  proof (cases "length rx' = length rx")
    case True
    then have "p' = p + int (length buffer)" "g' = g" using m(2) by auto
    moreover have "length (content f) - (offset f + length buffer) < length (content f) - offset f"
      using len by linarith
    ultimately show ?thesis using True d(2) len(2) 2(9,10) by (auto simp: ref_seek_back_def)
  qed (use m(1) in simp)
qed

text \<open>The last call only looks whether the reference has anything left but line ends.\<close>

function compare_end :: "ref_file \<Rightarrow> int \<times> ref_file" where
  "compare_end f = (case ref_read f READ_SIZE of
       (None, f1) \<Rightarrow> (-55, f1)
     | (Some buffer, f1) \<Rightarrow>
         if buffer = [] then (0, f1)
         else if \<exists>c \<in> set buffer. c \<noteq> LF \<and> c \<noteq> CR then (10, f1)
         else compare_end f1)"
  by pat_completeness auto
termination
  by (relation "measure (\<lambda>f. length (content f) - offset f)")
    (auto simp: ref_read_def READ_SIZE_def Let_def split: if_splits)

definition compare_output :: "ref_file \<Rightarrow> string \<Rightarrow> int \<Rightarrow> int \<times> ref_file" where
  "compare_output f rx stage =
     (if stage = 0 \<and> \<not> fd_valid f then (-10, f)
      else if stage = 0 \<and> fd_flags f AND O_RDWR = 0 \<and> fd_flags f AND O_RDONLY = 0 then (-20, f)
      else if stage = -1 then compare_end f
      else compare_loop f rx 0 0)"

section \<open>The interface of a checker\<close>

text \<open>\<open>rest f\<close>: what the reference still expects, carriage returns aside. A piece without carriage returns
  is accepted exactly if the reference goes on with it, or is exhausted by it up to line ends; the end
  is accepted exactly if only line ends are left.\<close>

definition strip_LF :: "string \<Rightarrow> string" where
  "strip_LF s = rev (dropWhile (\<lambda>c. c = LF) (rev s))"

text \<open>The judge's use of a checker: the pieces in order, numbered from \<open>n\<close>, until one is refused, then
  the end.\<close>

primrec judge_pieces :: "('f \<Rightarrow> string \<Rightarrow> int \<Rightarrow> int \<times> 'f) \<Rightarrow> 'f \<Rightarrow> nat \<Rightarrow> string list \<Rightarrow> bool" where
  "judge_pieces cmp f n [] = (fst (cmp f [] (-1)) = 0)"
| "judge_pieces cmp f n (x # xs) =
     (case cmp f x (int n) of (r, f') \<Rightarrow> r = 0 \<and> judge_pieces cmp f' (Suc n) xs)"

lemma strip_LF_Nil: "strip_LF s = [] \<longleftrightarrow> set s \<subseteq> {LF}"
  by (auto simp: strip_LF_def dropWhile_eq_Nil_conv)

lemma strip_LF_append: "strip_LF (s @ t) = (if set t \<subseteq> {LF} then strip_LF s else s @ strip_LF t)"
proof (induction t rule: rev_induct)
  case (snoc c t)
  have "strip_LF ((s @ t) @ [c]) = (if c = LF then strip_LF (s @ t) else s @ t @ [c])"
      "strip_LF (t @ [c]) = (if c = LF then strip_LF t else t @ [c])"
    by (simp_all add: strip_LF_def)
  then show ?case using snoc by auto
qed simp

lemma strip_LF_cancel: "strip_LF (s @ t) = strip_LF (s @ u) \<longleftrightarrow> strip_LF t = strip_LF u"
proof -
  have short: "length (strip_LF s) < length (s @ strip_LF t)" if "\<not> set t \<subseteq> {LF}" for t
  proof -
    have "length (strip_LF s) \<le> length s" 
      using length_dropWhile_le [of "\<lambda>c. c = LF" "rev s"] by (simp add: strip_LF_def)
    moreover have "strip_LF t \<noteq> []" using that by (simp add: strip_LF_Nil)
    ultimately show ?thesis by (cases "strip_LF t") auto
  qed
  have ne: "strip_LF s \<noteq> s @ strip_LF t" "s @ strip_LF t \<noteq> strip_LF s"
    if "\<not> set t \<subseteq> {LF}" for t using short [OF that] by (metis less_irrefl)+
  show ?thesis
    by (cases "set t \<subseteq> {LF}"; cases "set u \<subseteq> {LF}")
      (use ne [of t] ne [of u] strip_LF_Nil [of t] strip_LF_Nil [of u] in \<open>auto simp: strip_LF_append\<close>)
qed

lemma strip_LF_split: "\<exists>k. s = strip_LF s @ replicate k LF"
proof (induction s rule: rev_induct)
  case (snoc c s)
  then obtain k where k: "s = strip_LF s @ replicate k LF" by blast
  show ?case
  proof (cases "c = LF")
    case True
    then have "s @ [c] = (strip_LF s @ replicate k LF) @ [LF]" using k by simp
    also have "\<dots> = strip_LF (s @ [c]) @ replicate (Suc k) LF"
      using True by (simp add: strip_LF_append replicate_append_same)
    finally show ?thesis by blast
  next
    case False
    then show ?thesis by (intro exI [of _ 0]) (simp add: strip_LF_def)
  qed
qed (simp add: strip_LF_def)

text \<open>If \<open>x\<close> followed by something agrees with \<open>r\<close>, one of \<open>x\<close> and \<open>r\<close> starts with the other, and only
  line ends follow when \<open>r\<close> is the shorter.\<close>

lemma strip_LF_prefix:
  assumes "strip_LF (x @ y) = strip_LF r"
  shows "(\<exists>t. r = x @ t) \<or> (\<exists>k. x = r @ replicate k LF)"
proof -
  obtain a b where a: "x @ y = strip_LF r @ replicate a LF" and b: "r = strip_LF r @ replicate b LF"
    using assms strip_LF_split [of "x @ y"] strip_LF_split [of r] by auto
  from a obtain t where "x = strip_LF r @ t \<and> t @ y = replicate a LF \<or>
      x @ t = strip_LF r \<and> y = t @ replicate a LF"
    unfolding append_eq_append_conv2 by blast
  then consider "strip_LF r = x @ t" | "x = strip_LF r @ t" "replicate a LF = t @ y"
    by metis
  then show ?thesis
  proof cases
    case 1
    then show ?thesis using b by (metis append_assoc)
  next
    case 2
    then have t: "t = replicate (length t) LF"
      by (metis append_eq_conv_conj take_replicate length_replicate)
    show ?thesis
    proof (cases "length t \<le> b")
      case True
      then have "replicate b LF = t @ replicate (b - length t) LF"
        by (subst t) (simp flip: replicate_add)
      then show ?thesis using 2(1) b by (metis append_assoc)
    next
      case False
      then have "t = replicate b LF @ replicate (length t - b) LF"
        by (subst t) (simp flip: replicate_add)
      then show ?thesis using 2(1) b by (metis append_assoc)
    qed
  qed
qed

locale comparator =
  fixes good :: "'f \<Rightarrow> bool"
    and rest :: "'f \<Rightarrow> string"
    and cmp :: "'f \<Rightarrow> string \<Rightarrow> int \<Rightarrow> int \<times> 'f"
  assumes piece_prefix: "good f \<Longrightarrow> CR \<notin> set x \<Longrightarrow> stage \<noteq> -1 \<Longrightarrow> rest f = x @ t \<Longrightarrow>
      \<exists>f'. cmp f x stage = (0, f') \<and> good f' \<and> rest f' = t"
    and piece_longer: "good f \<Longrightarrow> CR \<notin> set x \<Longrightarrow> stage \<noteq> -1 \<Longrightarrow> x = rest f @ replicate k LF \<Longrightarrow>
      \<exists>f'. cmp f x stage = (0, f') \<and> good f' \<and> rest f' = []"
    and piece_wrong: "good f \<Longrightarrow> CR \<notin> set x \<Longrightarrow> stage \<noteq> -1 \<Longrightarrow> fst (cmp f x stage) = 0 \<Longrightarrow>
      (\<exists>t. rest f = x @ t) \<or> (\<exists>k. x = rest f @ replicate k LF)"
    and end_iff: "good f \<Longrightarrow> fst (cmp f x (-1)) = 0 \<longleftrightarrow> set (rest f) \<subseteq> {LF}"
begin

text \<open>Whatever the pieces, the run is accepted exactly if the whole output and the reference agree up to
  line ends at their ends.\<close>

lemma pieces_iff:
  assumes "good f" "CR \<notin> set (concat xs)"
  shows "judge_pieces cmp f n xs \<longleftrightarrow> strip_LF (concat xs) = strip_LF (rest f)"
  using assms
proof (induction xs arbitrary: f n)
  case Nil
  have "strip_LF [] = []" by (simp add: strip_LF_def)
  then show ?case using Nil by (auto simp: end_iff simp flip: strip_LF_Nil)
next
  case (Cons x xs)
  then have x: "CR \<notin> set x" "CR \<notin> set (concat xs)" "int n \<noteq> -1" by auto
  have "judge_pieces cmp f n (x # xs) \<longleftrightarrow> strip_LF (x @ concat xs) = strip_LF (rest f)"
    if "\<exists>t. rest f = x @ t"
  proof -
    from that obtain t f' where t: "rest f = x @ t"
        and f': "cmp f x (int n) = (0, f')" "good f'" "rest f' = t"
      using piece_prefix [OF Cons.prems(1) x(1,3)] by blast
    with Cons.IH [OF f'(2) x(2)] show ?thesis by (simp add: strip_LF_cancel)
  qed
  moreover have "judge_pieces cmp f n (x # xs) \<longleftrightarrow> strip_LF (x @ concat xs) = strip_LF (rest f)"
    if "\<exists>k. x = rest f @ replicate k LF"
  proof -
    from that obtain k f' where k: "x = rest f @ replicate k LF"
        and f': "cmp f x (int n) = (0, f')" "good f'" "rest f' = []"
      using piece_longer [OF Cons.prems(1) x(1,3)] by blast
    have "strip_LF (x @ concat xs) = strip_LF (rest f) \<longleftrightarrow> set (concat xs) \<subseteq> {LF}"
      using strip_LF_cancel [of "rest f" "replicate k LF @ concat xs" "[]"]
        strip_LF_Nil [of "replicate k LF @ concat xs"] strip_LF_Nil [of "[]"]
      by (auto simp: k)
    then show ?thesis
      using f' Cons.IH [OF f'(2) x(2)] strip_LF_Nil [of "concat xs"] strip_LF_Nil [of "[]"] by simp
  qed
  moreover have "(\<exists>t. rest f = x @ t) \<or> (\<exists>k. x = rest f @ replicate k LF)"
    if "judge_pieces cmp f n (x # xs)"
    using piece_wrong [OF Cons.prems(1) x(1,3)] that by auto
  moreover have "(\<exists>t. rest f = x @ t) \<or> (\<exists>k. x = rest f @ replicate k LF)"
    if "strip_LF (x @ concat xs) = strip_LF (rest f)"
    using that by (rule strip_LF_prefix)
  ultimately show ?case by auto
qed

end

section \<open>The code's checker provides it\<close>

text \<open>A reference the code can read: opened for reading and writing, with no read error.\<close>

definition ref_good :: "ref_file \<Rightarrow> bool" where
  "ref_good f \<longleftrightarrow> fd_valid f \<and> fd_flags f AND O_RDWR \<noteq> 0 \<and> \<not> read_error f"

definition ref_rest :: "ref_file \<Rightarrow> string" where
  "ref_rest f = filter (\<lambda>c. c \<noteq> CR) (drop (offset f) (content f))"

declare compare_loop.simps [simp del] compare_end.simps [simp del]

lemma ref_good_offset [simp]: "ref_good (f\<lparr>offset := n\<rparr>) = ref_good f"
  by (simp add: ref_good_def)

lemma ref_rest_advance:
  "ref_rest f = filter (\<lambda>c. c \<noteq> CR) (take n (drop (offset f) (content f))) @
     ref_rest (f\<lparr>offset := offset f + length (take n (drop (offset f) (content f)))\<rparr>)"
proof -
  let ?d = "drop (offset f) (content f)"
  have "drop (offset f + length (take n ?d)) (content f) = drop n ?d"
    by (cases "n \<le> length ?d") (auto simp: min_def add.commute)
  moreover have "filter (\<lambda>c. c \<noteq> CR) ?d =
      filter (\<lambda>c. c \<noteq> CR) (take n ?d) @ filter (\<lambda>c. c \<noteq> CR) (drop n ?d)"
    by (metis append_take_drop_id filter_append)
  ultimately show ?thesis by (simp add: ref_rest_def)
qed

text \<open>The inner loop on a piece without carriage returns: the block is a prefix of what is compared, or
  the first difference is reported.\<close>

lemma match_block_noCR:
  assumes "CR \<notin> set rx" "length bs \<le> length rx" and d: "d = filter (\<lambda>c. c \<noteq> CR) bs"
  shows "if take (length d) rx = d
    then match_block bs rx i p g =
      Inr (drop (length d) rx, i + length d, p + int (length bs - length d), g)
    else \<exists>r > 0. match_block bs rx i p g = Inl r"
  using assms
proof (induction bs rx i p g arbitrary: d rule: match_block.induct)
  case (3 b bs r rx i p g)
  have le: "length (filter (\<lambda>c. c \<noteq> CR) bs) \<le> length bs" by simp
  show ?case
  proof (cases "b = CR")
    case True
    with 3 le show ?thesis by (auto simp: Suc_diff_le)
  next
    case False
    with 3 le show ?thesis by (cases "r = b") auto
  qed
qed auto

text \<open>The whole comparison of a piece without carriage returns.\<close>

definition piece_spec :: "ref_file \<Rightarrow> string \<Rightarrow> int \<times> ref_file \<Rightarrow> bool" where
  "piece_spec f x res = (ref_good (snd res) \<and>
     (if \<exists>t. ref_rest f = x @ t then fst res = 0 \<and> ref_rest f = x @ ref_rest (snd res)
      else if \<exists>k. x = ref_rest f @ replicate k LF then fst res = 0 \<and> ref_rest (snd res) = []
      else fst res \<noteq> 0))"

lemma piece_spec_shift:
  assumes "ref_rest f = d @ ref_rest f1" "x = d @ y" "piece_spec f1 y res"
  shows "piece_spec f x res"
  using assms by (auto simp: piece_spec_def split: if_splits)

lemma piece_spec_mismatch:
  assumes "ref_rest f = d @ e" "length d \<le> length x" "take (length d) x \<noteq> d" "ref_good f1" "r \<noteq> 0"
  shows "piece_spec f x (r, f1)"
proof -
  have "d = take (length d) x" if "d @ e = x @ t" for t
    using arg_cong [OF that, of "take (length d)"] assms(2) by simp
  moreover have "d = take (length d) x" if "x = (d @ e) @ u" for u
    using that by simp
  ultimately show ?thesis using assms unfolding piece_spec_def by force
qed

lemma compare_loop_spec:
  assumes "ref_good f" "CR \<notin> set x" "0 \<le> p"
  shows "piece_spec f x (compare_loop f x p 0)"
  using assms
proof (induction f x p "0 :: int" rule: compare_loop.induct)
  case (1 f x p)
  define n where "n = min READ_SIZE (length x)"
  define d where "d = take n (drop (offset f) (content f))"
  define f1 where "f1 = f\<lparr>offset := offset f + length d\<rparr>"
  have rd: "ref_read f n = (Some d, f1)"
    using 1(2) by (simp add: ref_read_def ref_good_def d_def f1_def Let_def)
  have rest: "ref_rest f = filter (\<lambda>c. c \<noteq> CR) d @ ref_rest f1" and good: "ref_good f1"
    using ref_rest_advance [of f n] 1(2) by (simp_all add: d_def f1_def)
  have dx: "length d \<le> length x" by (simp add: d_def n_def)
  consider "x = []" | "x \<noteq> []" "d = []" | "x \<noteq> []" "d \<noteq> []" by blast
  then show ?case
  proof cases
    case 1
    then show ?thesis using \<open>ref_good f\<close> by (simp add: compare_loop.simps piece_spec_def)
  next
    case 2
    then have "drop (offset f) (content f) = []" by (auto simp: d_def n_def READ_SIZE_def min_def split: if_splits)
    then have r: "ref_rest f = []" "ref_rest f1 = []" using rest by (simp_all add: ref_rest_def)
    have lf: "(\<forall>c \<in> set x. c = CR \<or> c = LF) \<longleftrightarrow> (\<exists>k. x = replicate k LF)"
      using 1(3) by (metis in_set_replicate replicate_eqI)
    have "compare_loop f x p 0 = (if \<forall>c \<in> set x. c = CR \<or> c = LF then 0 else 20, f1)"
      by (subst compare_loop.simps) (use 2 rd in \<open>simp add: n_def\<close>)
    then show ?thesis using 2(1) r good unfolding lf by (auto simp: piece_spec_def)
  next
    case 3
    let ?D = "filter (\<lambda>c. c \<noteq> CR) d"
    define p' where "p' = p + int (length d - length ?D)"
    have p': "0 \<le> p'" using 1(4) by (simp add: p'_def)
    have m: "if take (length ?D) x = ?D
        then match_block d x 0 p 0 =
          Inr (drop (length ?D) x, 0 + length ?D, p + int (length d - length ?D), 0)
        else \<exists>r > 0. match_block d x 0 p 0 = Inl r"
      using match_block_noCR [OF 1(3) dx refl] .
    have D: "length ?D \<le> length x" using dx length_filter_le [of _ d] by (rule le_trans [rotated])
    show ?thesis
    proof (cases "take (length ?D) x = ?D")
      case True
      then have mb: "match_block d x 0 p 0 = Inr (drop (length ?D) x, length ?D, p', 0)"
        using m by (simp add: p'_def)
      have "compare_loop f x p 0 = compare_loop f1 (drop (length ?D) x) p' 0"
        by (subst compare_loop.simps) (use 3 rd mb p' in \<open>simp add: n_def\<close>)
      moreover have "piece_spec f1 (drop (length ?D) x) (compare_loop f1 (drop (length ?D) x) p' 0)"
        by (rule 1(1) [OF 3(1) rd [unfolded n_def, symmetric] refl 3(2) mb refl refl refl refl])
          (use 1(3) p' good in \<open>auto dest: in_set_dropD\<close>)
      moreover have "x = ?D @ drop (length ?D) x" using True by (metis append_take_drop_id)
      ultimately show ?thesis using piece_spec_shift [OF rest] by metis
    next
      case False
      then obtain r where r: "match_block d x 0 p 0 = Inl r" "r > 0" using m by auto
      have "compare_loop f x p 0 = (r, f1)"
        by (subst compare_loop.simps) (use 3 rd r(1) in \<open>simp add: n_def\<close>)
      then show ?thesis using piece_spec_mismatch [OF rest D False good] r(2) by simp
    qed
  qed
qed

lemma compare_end_spec: "ref_good f \<Longrightarrow> fst (compare_end f) = 0 \<longleftrightarrow> set (ref_rest f) \<subseteq> {LF}"
proof (induction f rule: compare_end.induct)
  case (1 f)
  define d where "d = take READ_SIZE (drop (offset f) (content f))"
  define f1 where "f1 = f\<lparr>offset := offset f + length d\<rparr>"
  have rd: "ref_read f READ_SIZE = (Some d, f1)"
    using 1(2) by (simp add: ref_read_def ref_good_def d_def f1_def Let_def)
  have rest: "ref_rest f = filter (\<lambda>c. c \<noteq> CR) d @ ref_rest f1" and good: "ref_good f1"
    using ref_rest_advance [of f READ_SIZE] 1(2) by (simp_all add: d_def f1_def)
  consider "d = []" | "d \<noteq> []" "\<exists>c \<in> set d. c \<noteq> LF \<and> c \<noteq> CR" | "d \<noteq> []" "\<forall>c \<in> set d. c = LF \<or> c = CR"
    by blast
  then show ?case
  proof cases
    case 1
    then have "drop (offset f) (content f) = []" by (simp add: d_def READ_SIZE_def)
    then show ?thesis using 1 rd by (subst compare_end.simps) (simp add: ref_rest_def)
  next
    case 2
    then show ?thesis using rd rest by (subst compare_end.simps) auto
  next
    case 3
    then have "fst (compare_end f) = fst (compare_end f1)" using rd by (subst compare_end.simps) auto
    moreover have "fst (compare_end f1) = 0 \<longleftrightarrow> set (ref_rest f1) \<subseteq> {LF}"
      using 1(1) [OF rd [symmetric] refl 3(1) _ good] 3(2) by auto
    ultimately show ?thesis using 3 rest by auto
  qed
qed

lemma compare_output_spec:
  assumes "ref_good f" "CR \<notin> set x" "stage \<noteq> -1"
  shows "piece_spec f x (compare_output f x stage)"
  using assms compare_loop_spec [of f x 0] by (auto simp: compare_output_def ref_good_def)

interpretation ref_checker: comparator ref_good ref_rest compare_output
proof (unfold_locales, goal_cases)
  case (1 f x stage t)
  then show ?case using compare_output_spec [of f x stage]
    by (cases "compare_output f x stage") (auto simp: piece_spec_def split: if_splits)
next
  case (2 f x stage k)
  then show ?case using compare_output_spec [of f x stage]
    by (cases "compare_output f x stage") (auto simp: piece_spec_def split: if_splits)
next
  case (3 f x stage)
  then show ?case using compare_output_spec [of f x stage]
    by (cases "compare_output f x stage") (auto simp: piece_spec_def split: if_splits)
next
  case (4 f x)
  then show ?case by (simp add: compare_output_def compare_end_spec)
qed

section \<open>Properties\<close>

text \<open>C15: For a submission whose output has no carriage return, the checker accepts the output, delivered
  in pieces of any size, exactly if it equals the reference without its carriage returns, up to line
  ends at the end of either.\<close>

theorem checker_decides_equality:
  assumes "ref_good f" "offset f = 0" "CR \<notin> set (concat pieces)"
  shows "judge_pieces compare_output f 0 pieces \<longleftrightarrow>
    strip_LF (concat pieces) = strip_LF (filter (\<lambda>c. c \<noteq> CR) (content f))"
  using ref_checker.pieces_iff [OF assms(1,3), of 0] assms(2) by (simp add: ref_rest_def)

definition sample_ref :: "string \<Rightarrow> ref_file" where
  "sample_ref s = \<lparr>content = s, offset = 0, fd_valid = True, fd_flags = O_RDWR, read_error = False\<rparr>"

theorem checker_decides_equality_witness:
  "judge_pieces compare_output (sample_ref (''1'' @ [CR, LF] @ ''2'' @ [LF])) 0 [''1'', [LF] @ ''2'']"
  using checker_decides_equality
    [of "sample_ref (''1'' @ [CR, LF] @ ''2'' @ [LF])" "[''1'', [LF] @ ''2'']"]
  by (simp add: sample_ref_def ref_good_def O_RDWR_def strip_LF_def)

text \<open>An output that differs from the reference only by a carriage return before each line end is
  judged wrong: the offset is moved back by the number of carriage returns although the whole
  reference was matched, and the last call finds the reference unfinished.\<close>

theorem crlf_output_judged_wrong:
  "fst (compare_output (sample_ref (''x'' @ [LF] @ ''y'' @ [LF]))
     (''x'' @ [CR, LF] @ ''y'' @ [CR, LF]) 0) = 0 \<and>
   \<not> judge_pieces compare_output (sample_ref (''x'' @ [LF] @ ''y'' @ [LF])) 0
     [''x'' @ [CR, LF] @ ''y'' @ [CR, LF]]"
  by (simp add: sample_ref_def compare_output_def compare_loop.simps compare_end.simps ref_read_def
      ref_seek_back_def READ_SIZE_def O_RDWR_def Let_def)

text \<open>A reference opened read-only is refused with \<open>-20\<close> although it is readable: \<open>O_RDONLY\<close> is
  zero, so the test for it never succeeds.\<close>

theorem read_only_reference_refused:
  assumes "fd_valid f" "fd_flags f = O_RDONLY"
  shows "compare_output f rx 0 = (-20, f)"
  using assms by (simp add: compare_output_def O_RDONLY_def)

theorem read_only_reference_refused_witness:
  "compare_output (sample_ref ''1''\<lparr>fd_flags := O_RDONLY\<rparr>) ''1'' 0 =
     (-20, sample_ref ''1''\<lparr>fd_flags := O_RDONLY\<rparr>)"
  by (rule read_only_reference_refused) (simp_all add: sample_ref_def)

end
