(* ===== verification/Template.thy ===== *)
theory Template
  imports Prelude_C
begin

text \<open>
  The template process (\<open>src/runner.c\<close>, \<open>jug_runner_template*\<close>): a light process that the daemon asks,
  through shared memory, to clone a watcher. Modelled are the serialisation of the request
  (\<open>jug_runner_template_serialize\<close> and \<open>_unserialize\<close>) on the bytes it consists of, and the handshake
  between the worker threads (\<open>jug_runner_template_clone\<close>) and the template (\<open>jug_runner_template\<close> and its
  signal handler) as a step relation in which every access to the shared flag is a step of its own.
\<close>

section \<open>Integers as bytes\<close>

definition int_bytes :: "int \<Rightarrow> string" where
  "int_bytes z = map (\<lambda>k. char_of (z div k)) [1, 256, 65536, 16777216]"

definition bytes_int :: "string \<Rightarrow> int" where
  "bytes_int s = (case s of
       a # b # c # d # _ \<Rightarrow> int32 (of_char a + 256 * of_char b + 65536 * of_char c + 16777216 * of_char d)
     | _ \<Rightarrow> 0)"

lemma length_int_bytes [simp]: "length (int_bytes z) = 4"
  by (simp add: int_bytes_def)

lemma int32_mod: "int32 (z mod 2 ^ 32) = int32 z"
proof -
  have "(z mod 2 ^ 32 + 2 ^ 31) mod 2 ^ 32 = (z + 2 ^ 31) mod (2 ^ 32 :: int)" by (rule mod_add_left_eq)
  then show ?thesis by (simp only: int32_def)
qed

text \<open>Reading back the four bytes of an \<open>int\<close> gives the \<open>int\<close>.\<close>

lemma bytes_of_word: "z mod 256 + 256 * (z div 256 mod 256) + 65536 * (z div 65536 mod 256) +
    16777216 * (z div 16777216 mod 256) = z mod (2 ^ 32 :: int)"
proof -
  have a: "z mod 65536 = 256 * (z div 256 mod 256) + z mod 256"
    using zmod_zmult2_eq [of 256 z 256] by simp
  have b: "z mod 16777216 = 65536 * (z div 65536 mod 256) + z mod 65536"
    using zmod_zmult2_eq [of 256 z 65536] by simp
  have c: "z mod 4294967296 = 16777216 * (z div 16777216 mod 256) + z mod 16777216"
    using zmod_zmult2_eq [of 256 z 16777216] by simp
  have p: "(2 ^ 32 :: int) = 4294967296" by simp
  show ?thesis unfolding p c b a by (simp only: ac_simps)
qed

lemma bytes_int_bytes [simp]: "bytes_int (int_bytes z @ r) = int32 z"
proof -
  have "bytes_int (int_bytes z @ r) = int32 (z mod 256 + 256 * (z div 256 mod 256) +
      65536 * (z div 65536 mod 256) + 16777216 * (z div 16777216 mod 256))"
    by (simp only: bytes_int_def int_bytes_def list.map append.simps list.case div_by_1 of_char_of)
  then show ?thesis by (simp only: bytes_of_word int32_mod)
qed

section \<open>Serialisation\<close>

text \<open>\<open>sizeof\<close> of the two structures on x86-64: fourteen \<open>int\<close>s; seven \<open>int\<close>s, two pointers and padding.\<close>

definition SIZEOF_RUN_PARAMS :: nat where "SIZEOF_RUN_PARAMS = 56"
definition SIZEOF_SANDBOX :: nat where "SIZEOF_SANDBOX = 48"
definition TEMPLATE_MAX_TX :: nat where "TEMPLATE_MAX_TX = 1024"

record clone_child_params =
  run_params_bytes :: string
  sandbox_bytes :: string
  binary_path :: string
  child_argv :: "string list"

definition jug_runner_template_serialize :: "clone_child_params \<Rightarrow> string" where
  "jug_runner_template_serialize ccp =
     run_params_bytes ccp @ sandbox_bytes ccp @ (binary_path ccp @ [NUL]) @
     int_bytes (int (length (child_argv ccp))) @ concat (map (\<lambda>a. a @ [NUL]) (child_argv ccp))"

text \<open>\<open>memcpy\<close> of the first \<open>n\<close> bytes, and a string with its terminator, from the pointer on.\<close>

definition take_bytes :: "nat \<Rightarrow> ptr \<Rightarrow> (string \<times> ptr) c_result" where
  "take_bytes n p = (if n \<le> length p then Inr (take n p, drop n p) else Inl Out_of_bounds)"

definition take_string :: "ptr \<Rightarrow> (string \<times> ptr) c_result" where
  "take_string p = c_then (c_strlen p) (\<lambda>n. Inr (take n p, drop (n + 1) p))"

fun take_argv :: "nat \<Rightarrow> ptr \<Rightarrow> string list c_result" where
  "take_argv 0 p = Inr []"
| "take_argv (Suc n) p =
     c_then (take_string p) (\<lambda>(a, q). c_then (take_argv n q) (\<lambda>as. Inr (a # as)))"

definition jug_runner_template_unserialize :: "ptr \<Rightarrow> clone_child_params c_result" where
  "jug_runner_template_unserialize serial =
     c_then (take_bytes SIZEOF_RUN_PARAMS serial) (\<lambda>(rp, p1).
     c_then (take_bytes SIZEOF_SANDBOX p1) (\<lambda>(sb, p2).
     c_then (take_string p2) (\<lambda>(path, p3).
     c_then (take_bytes 4 p3) (\<lambda>(n, p4).
     let argc = bytes_int n in
     if argc < 0 then Inl Buffer_overflow
     else c_then (take_argv (nat argc) p4) (\<lambda>as.
       Inr \<lparr>run_params_bytes = rp, sandbox_bytes = sb, binary_path = path, child_argv = as\<rparr>)))))"

text \<open>A request as the code builds it.\<close>

definition ccp_ok :: "clone_child_params \<Rightarrow> bool" where
  "ccp_ok ccp \<longleftrightarrow> length (run_params_bytes ccp) = SIZEOF_RUN_PARAMS \<and>
     length (sandbox_bytes ccp) = SIZEOF_SANDBOX \<and> NUL \<notin> set (binary_path ccp) \<and>
     (\<forall>a \<in> set (child_argv ccp). NUL \<notin> set a) \<and> length (child_argv ccp) < 2 ^ 31"

lemma take_string_at [simp]: "NUL \<notin> set s \<Longrightarrow> take_string (s @ NUL # r) = Inr (s, r)"
  by (simp add: take_string_def)

lemma take_bytes_at [simp]: "n = length s \<Longrightarrow> take_bytes n (s @ r) = Inr (s, r)"
  by (simp add: take_bytes_def)

lemma take_argv_at [simp]:
  "\<forall>a \<in> set as. NUL \<notin> set a \<Longrightarrow> take_argv (length as) (concat (map (\<lambda>a. a @ [NUL]) as) @ r) = Inr as"
  by (induction as) simp_all

lemma unserialize_serialize:
  assumes "ccp_ok ccp"
  shows "jug_runner_template_unserialize (jug_runner_template_serialize ccp @ rest) = Inr ccp"
proof -
  have n: "int32 (int (length (child_argv ccp))) = int (length (child_argv ccp))"
    using assms by (intro int32_id) (simp_all add: ccp_ok_def of_nat_less_numeral_power_cancel_iff)
  show ?thesis
    using assms bytes_int_bytes [of "int (length (child_argv ccp))" "[]"]
    by (simp add: jug_runner_template_unserialize_def jug_runner_template_serialize_def ccp_ok_def
        n Let_def)
qed

lemma length_serialize:
  "length (jug_runner_template_serialize ccp) = length (run_params_bytes ccp) +
     length (sandbox_bytes ccp) + length (binary_path ccp) + 1 + 4 +
     sum_list (map (\<lambda>a. length a + 1) (child_argv ccp))"
  by (simp add: jug_runner_template_serialize_def length_concat comp_def)

section \<open>The handshake\<close>

text \<open>Where a worker is in \<open>jug_runner_template_clone\<close>: before the call or after it (with the pid it
  returned), at the mutex, and at each access to the shared memory.\<close>

datatype worker_pc =
    W_idle
  | W_lock          \<comment> \<open>\<open>pthread_mutex_lock\<close>\<close>
  | W_wait_S        \<comment> \<open>\<open>while(template_shm[0]!='S')\<close>\<close>
  | W_kill          \<comment> \<open>\<open>kill(template_pid,SIGUSR1)\<close>\<close>
  | W_wait_R1       \<comment> \<open>\<open>while(template_shm[0]!='R')\<close>\<close>
  | W_put           \<comment> \<open>length and data of the request\<close>
  | W_set_K         \<comment> \<open>\<open>template_shm[0]='K'\<close>\<close>
  | W_wait_R2       \<comment> \<open>\<open>while(template_shm[0]!='R')\<close>\<close>
  | W_read          \<comment> \<open>the pid\<close>
  | W_set_K2 int    \<comment> \<open>\<open>template_shm[0]='K'\<close>\<close>
  | W_unlock int
  | W_done int
  | W_crash         \<comment> \<open>it has written past the end of the shared memory\<close>

text \<open>Where the template is: starting, in its loop (about to write \<open>'S'\<close>, or asleep), or in its signal
  handler, which returns to where the loop was interrupted.\<close>

datatype template_pc =
    T_boot
  | T_loop
  | T_sleep
  | H_set_R
  | H_wait_K
  | H_read
  | H_clone
  | H_put
  | H_set_R2
  | H_wait_K2
  | H_set_R3
  | H_crash   \<comment> \<open>it has written past the end of \<open>tx_buf\<close>\<close>

record handshake =
  tpl_pid :: int
  shm_flag :: char
  shm_len :: int
  shm_data :: string
  pipe_mutex :: "nat option"
  sig_pending :: bool
  tpc :: template_pc
  return_pc :: template_pc
  tx_buf :: string
  cloned_pid :: int
  wpc :: "nat \<Rightarrow> worker_pc"
  request :: "nat \<Rightarrow> string"
  asked :: nat                          \<comment> \<open>\<open>count_submissions\<close>\<close>
  served_ok :: nat                      \<comment> \<open>\<open>count_submissions_success\<close>\<close>
  spawned :: "(string \<times> int) list"   \<comment> \<open>every watcher cloned so far: for which request, its pid\<close>

text \<open>The size of the shared memory: a byte for the flag, an \<open>int\<close> for the length, and the data.\<close>

definition TEMPLATE_SHM_SIZE :: nat where "TEMPLATE_SHM_SIZE = 2028"

definition pid_return :: "int \<Rightarrow> int" where
  "pid_return pid = (if pid = -1 then -2 else pid)"

inductive hstep :: "handshake \<Rightarrow> handshake \<Rightarrow> bool" where
  call: "wpc s w = W_idle \<or> wpc s w = W_done p \<Longrightarrow> 0 \<le> tpl_pid s \<Longrightarrow> length a < 2 ^ 31 \<Longrightarrow>
    hstep s (s\<lparr>wpc := (wpc s)(w := W_lock), request := (request s)(w := a)\<rparr>)"
| refused: "wpc s w = W_idle \<or> wpc s w = W_done p \<Longrightarrow> tpl_pid s < 0 \<Longrightarrow>
    hstep s (s\<lparr>wpc := (wpc s)(w := W_done (-1)), request := (request s)(w := a)\<rparr>)"
| lock: "wpc s w = W_lock \<Longrightarrow> pipe_mutex s = None \<Longrightarrow>
    hstep s (s\<lparr>wpc := (wpc s)(w := W_wait_S), pipe_mutex := Some w, asked := Suc (asked s)\<rparr>)"
| see_S: "wpc s w = W_wait_S \<Longrightarrow> shm_flag s = CHR ''S'' \<Longrightarrow>
    hstep s (s\<lparr>wpc := (wpc s)(w := W_kill)\<rparr>)"
| kill_sent: "wpc s w = W_kill \<Longrightarrow>
    hstep s (s\<lparr>wpc := (wpc s)(w := W_wait_R1), sig_pending := True\<rparr>)"
| kill_failed: "wpc s w = W_kill \<Longrightarrow>
    hstep s (s\<lparr>wpc := (wpc s)(w := W_done (-1)), pipe_mutex := None\<rparr>)"
| see_R1: "wpc s w = W_wait_R1 \<Longrightarrow> shm_flag s = CHR ''R'' \<Longrightarrow>
    hstep s (s\<lparr>wpc := (wpc s)(w := W_put)\<rparr>)"
| put_overflow: "wpc s w = W_put \<Longrightarrow> 5 + length (request s w) > TEMPLATE_SHM_SIZE \<Longrightarrow>
    hstep s (s\<lparr>wpc := (wpc s)(w := W_crash)\<rparr>)"
| put: "wpc s w = W_put \<Longrightarrow> 5 + length (request s w) \<le> TEMPLATE_SHM_SIZE \<Longrightarrow>
    hstep s (s\<lparr>wpc := (wpc s)(w := W_set_K), shm_len := int (length (request s w)),
      shm_data := request s w @ drop (length (request s w)) (shm_data s)\<rparr>)"
| set_K: "wpc s w = W_set_K \<Longrightarrow>
    hstep s (s\<lparr>wpc := (wpc s)(w := W_wait_R2), shm_flag := CHR ''K''\<rparr>)"
| see_R2: "wpc s w = W_wait_R2 \<Longrightarrow> shm_flag s = CHR ''R'' \<Longrightarrow>
    hstep s (s\<lparr>wpc := (wpc s)(w := W_read)\<rparr>)"
| read_pid: "wpc s w = W_read \<Longrightarrow>
    hstep s (s\<lparr>wpc := (wpc s)(w := W_set_K2 (bytes_int (take (nat (shm_len s)) (shm_data s))))\<rparr>)"
| set_K2: "wpc s w = W_set_K2 p \<Longrightarrow>
    hstep s (s\<lparr>wpc := (wpc s)(w := W_unlock p), shm_flag := CHR ''K''\<rparr>)"
| unlock: "wpc s w = W_unlock p \<Longrightarrow>
    hstep s (s\<lparr>wpc := (wpc s)(w := W_done p), pipe_mutex := None, served_ok := Suc (served_ok s)\<rparr>)"
| boot: "tpc s = T_boot \<Longrightarrow> 0 \<le> tpl_pid s \<Longrightarrow> hstep s (s\<lparr>tpc := T_loop, shm_flag := CHR ''N''\<rparr>)"
| write_S: "tpc s = T_loop \<Longrightarrow> hstep s (s\<lparr>tpc := T_sleep, shm_flag := CHR ''S''\<rparr>)"
| wake: "tpc s = T_sleep \<Longrightarrow> hstep s (s\<lparr>tpc := T_loop\<rparr>)"
| signalled: "tpc s = T_loop \<or> tpc s = T_sleep \<Longrightarrow> sig_pending s \<Longrightarrow>
    hstep s (s\<lparr>tpc := H_set_R, return_pc := tpc s, sig_pending := False\<rparr>)"
| set_R: "tpc s = H_set_R \<Longrightarrow> hstep s (s\<lparr>tpc := H_wait_K, shm_flag := CHR ''R''\<rparr>)"
| see_K: "tpc s = H_wait_K \<Longrightarrow> shm_flag s = CHR ''K'' \<Longrightarrow> hstep s (s\<lparr>tpc := H_read\<rparr>)"
| read_overflow: "tpc s = H_read \<Longrightarrow> nat (shm_len s) > TEMPLATE_MAX_TX \<Longrightarrow> hstep s (s\<lparr>tpc := H_crash\<rparr>)"
| read_request: "tpc s = H_read \<Longrightarrow> nat (shm_len s) \<le> TEMPLATE_MAX_TX \<Longrightarrow>
    hstep s (s\<lparr>tpc := H_clone, tx_buf := take (nat (shm_len s)) (shm_data s)\<rparr>)"
| no_stack: "tpc s = H_clone \<Longrightarrow> hstep s (s\<lparr>tpc := return_pc s\<rparr>)"
| clone_ok: "tpc s = H_clone \<Longrightarrow> 0 < p \<Longrightarrow> p < 2 ^ 31 \<Longrightarrow>
    hstep s (s\<lparr>tpc := H_put, cloned_pid := p, spawned := (tx_buf s, p) # spawned s\<rparr>)"
| clone_failed: "tpc s = H_clone \<Longrightarrow> hstep s (s\<lparr>tpc := H_put, cloned_pid := -1\<rparr>)"
| put_pid: "tpc s = H_put \<Longrightarrow>
    hstep s (s\<lparr>tpc := H_set_R2, shm_len := 4,
      shm_data := int_bytes (pid_return (cloned_pid s)) @ drop 4 (shm_data s)\<rparr>)"
| set_R2: "tpc s = H_set_R2 \<Longrightarrow> hstep s (s\<lparr>tpc := H_wait_K2, shm_flag := CHR ''R''\<rparr>)"
| see_K2: "tpc s = H_wait_K2 \<Longrightarrow> shm_flag s = CHR ''K'' \<Longrightarrow> hstep s (s\<lparr>tpc := H_set_R3\<rparr>)"
| set_R3: "tpc s = H_set_R3 \<Longrightarrow> hstep s (s\<lparr>tpc := return_pc s, shm_flag := CHR ''R''\<rparr>)"

text \<open>The state \<open>jug_runner_template_init\<close> leaves: the shared memory holds \<open>"INIT"\<close>, no worker has called. The pid of the template
  is arbitrary; it is negative when there is no template process.\<close>

definition handshake_init :: handshake where
  "handshake_init = \<lparr>tpl_pid = 2, shm_flag = CHR ''I'', shm_len = 0, shm_data = [], pipe_mutex = None,
     sig_pending = False, tpc = T_boot, return_pc = T_loop, tx_buf = [], cloned_pid = 0,
     wpc = (\<lambda>w. W_idle), request = (\<lambda>w. []), asked = 0, served_ok = 0, spawned = []\<rparr>"

inductive hreach :: "handshake \<Rightarrow> bool" where
  init: "hreach (handshake_init\<lparr>tpl_pid := t\<rparr>)"
| step: "hreach s \<Longrightarrow> hstep s s' \<Longrightarrow> hreach s'"

section \<open>The invariant\<close>

definition critical :: "worker_pc \<Rightarrow> bool" where
  "critical c \<longleftrightarrow> \<not> (c = W_idle \<or> c = W_lock \<or> (\<exists>p. c = W_done p))"

lemma critical_simps [simp]:
  "\<not> critical W_idle" "\<not> critical W_lock" "\<not> critical (W_done p)" "critical W_wait_S"
  "critical W_kill" "critical W_wait_R1" "critical W_put" "critical W_set_K" "critical W_wait_R2"
  "critical W_read" "critical (W_set_K2 p)" "critical (W_unlock p)" "critical W_crash"
  by (simp_all add: critical_def)

definition in_loop :: "handshake \<Rightarrow> bool" where
  "in_loop s \<longleftrightarrow> tpc s = T_loop \<or> tpc s = T_sleep"

text \<open>The pid a worker may return for its request: the one of a watcher cloned for it, or the code of a
  failed clone.\<close>

definition pid_for :: "handshake \<Rightarrow> string \<Rightarrow> int \<Rightarrow> bool" where
  "pid_for s a p \<longleftrightarrow> p = -2 \<or> (a, p) \<in> set (spawned s) \<and> 0 < p"

text \<open>No request is being served: the template is starting, in its loop or finishing the last request.\<close>

definition quiet :: "handshake \<Rightarrow> bool" where
  "quiet s \<longleftrightarrow> \<not> sig_pending s \<and>
     (tpc s = T_boot \<and> shm_flag s \<noteq> CHR ''S'' \<or> in_loop s \<or>
      tpc s = H_wait_K2 \<and> shm_flag s = CHR ''K'' \<or> tpc s = H_set_R3 \<and> shm_flag s = CHR ''K'')"

text \<open>The request, resp. the answer, lies in the shared memory.\<close>

definition has_request :: "handshake \<Rightarrow> string \<Rightarrow> bool" where
  "has_request s a \<longleftrightarrow> take (nat (shm_len s)) (shm_data s) = a"

definition has_pid :: "handshake \<Rightarrow> string \<Rightarrow> bool" where
  "has_pid s a \<longleftrightarrow> (\<exists>p. pid_for s a p \<and> - (2 ^ 31) \<le> p \<and> p < 2 ^ 31 \<and>
     take (nat (shm_len s)) (shm_data s) = int_bytes p)"

text \<open>What holds of the template and the shared memory for each position of the worker that holds the
  mutex, \<open>a\<close> its request.\<close>

fun phase :: "handshake \<Rightarrow> string \<Rightarrow> worker_pc \<Rightarrow> bool" where
  "phase s a W_wait_S = quiet s"
| "phase s a W_kill = (in_loop s \<and> shm_flag s = CHR ''S'' \<and> \<not> sig_pending s)"
| "phase s a W_wait_R1 =
     (in_loop s \<and> sig_pending s \<and> shm_flag s = CHR ''S'' \<or>
      \<not> sig_pending s \<and> tpc s = H_set_R \<and> shm_flag s = CHR ''S'' \<or>
      \<not> sig_pending s \<and> tpc s = H_wait_K \<and> shm_flag s = CHR ''R'')"
| "phase s a W_put = (\<not> sig_pending s \<and> tpc s = H_wait_K \<and> shm_flag s = CHR ''R'')"
| "phase s a W_set_K =
     (\<not> sig_pending s \<and> tpc s = H_wait_K \<and> shm_flag s = CHR ''R'' \<and> has_request s a)"
| "phase s a W_wait_R2 = (\<not> sig_pending s \<and>
     (shm_flag s = CHR ''K'' \<and>
        (tpc s = H_crash \<or> (tpc s = H_wait_K \<or> tpc s = H_read) \<and> has_request s a \<or>
         tpc s = H_clone \<and> tx_buf s = a \<or>
         tpc s = H_put \<and> pid_for s a (pid_return (cloned_pid s)) \<and> cloned_pid s < 2 ^ 31 \<or>
         tpc s = H_set_R2 \<and> has_pid s a) \<or>
      shm_flag s = CHR ''R'' \<and> tpc s = H_wait_K2 \<and> has_pid s a \<or>
      in_loop s \<and> shm_flag s \<noteq> CHR ''R''))"
| "phase s a W_read =
     (\<not> sig_pending s \<and> tpc s = H_wait_K2 \<and> shm_flag s = CHR ''R'' \<and> has_pid s a)"
| "phase s a (W_set_K2 p) =
     (\<not> sig_pending s \<and> tpc s = H_wait_K2 \<and> shm_flag s = CHR ''R'' \<and> pid_for s a p)"
| "phase s a (W_unlock p) = (quiet s \<and> pid_for s a p)"
| "phase s a W_crash = (\<not> sig_pending s \<and> tpc s = H_wait_K \<and> shm_flag s = CHR ''R'')"
| "phase s a _ = True"

definition hinv :: "handshake \<Rightarrow> bool" where
  "hinv s \<longleftrightarrow> (return_pc s = T_loop \<or> return_pc s = T_sleep) \<and>
     (\<forall>w. critical (wpc s w) \<longleftrightarrow> pipe_mutex s = Some w) \<and>
     (case pipe_mutex s of None \<Rightarrow> quiet s | Some w \<Rightarrow> phase s (request s w) (wpc s w)) \<and>
     (\<forall>w p. wpc s w = W_done p \<longrightarrow> p = -1 \<or> pid_for s (request s w) p)"

lemmas hinv_defs = hinv_def quiet_def in_loop_def has_request_def has_pid_def pid_for_def

text \<open>A step of the worker that holds the mutex, and the step by which it gives the mutex back.\<close>

lemma hinv_worker:
  assumes "hinv s" "wpc s w = c0" "critical c0" "critical c"
    and "wpc s' = (wpc s)(w := c)" "pipe_mutex s' = pipe_mutex s" "request s' = request s"
    and "return_pc s' = return_pc s" "spawned s' = spawned s"
    and "phase s (request s w) c0 \<Longrightarrow> phase s' (request s w) c"
  shows "hinv s'"
proof -
  have "pipe_mutex s = Some w" "phase s (request s w) c0" using assms(1-3) by (auto simp: hinv_def)
  then show ?thesis using assms unfolding hinv_def by (auto simp: pid_for_def)
qed

lemma hinv_leave:
  assumes "hinv s" "wpc s w = c0" "critical c0"
    and "s' = s\<lparr>wpc := (wpc s)(w := W_done p), pipe_mutex := None, served_ok := n\<rparr>"
    and "phase s (request s w) c0 \<Longrightarrow> quiet s \<and> (p = -1 \<or> pid_for s (request s w) p)"
  shows "hinv s'"
proof -
  have m: "pipe_mutex s = Some w" "phase s (request s w) c0" using assms(1-3) by (auto simp: hinv_def)
  moreover have "quiet s' = quiet s" by (simp add: assms(4) quiet_def in_loop_def)
  moreover have "critical (wpc s v) \<longleftrightarrow> v = w" for v using assms(1) m(1) by (auto simp: hinv_def)
  ultimately show ?thesis using assms unfolding hinv_def by (auto simp: pid_for_def)
qed

lemma hinv_template:
  assumes "hinv s" "return_pc s' = T_loop \<or> return_pc s' = T_sleep"
    and "wpc s' = wpc s" "pipe_mutex s' = pipe_mutex s" "request s' = request s"
    and sp: "set (spawned s) \<subseteq> set (spawned s')"
    and ph: "quiet s \<Longrightarrow> quiet s'"
      "\<And>a. phase s a W_kill \<Longrightarrow> phase s' a W_kill"
      "\<And>a. phase s a W_wait_R1 \<Longrightarrow> phase s' a W_wait_R1"
      "\<And>a. phase s a W_put \<Longrightarrow> phase s' a W_put"
      "\<And>a. phase s a W_set_K \<Longrightarrow> phase s' a W_set_K"
      "\<And>a. phase s a W_wait_R2 \<Longrightarrow> phase s' a W_wait_R2"
      "\<And>a. phase s a W_read \<Longrightarrow> phase s' a W_read"
      "\<And>a p. phase s a (W_set_K2 p) \<Longrightarrow> phase s' a (W_set_K2 p)"
  shows "hinv s'"
proof -
  have pid: "pid_for s' a p" if "pid_for s a p" for a p using that sp by (auto simp: pid_for_def)
  have crash: "phase s' a W_crash" if "phase s a W_crash" for a using that ph(4) by simp
  have "phase s' a c" if "phase s a c" for a c
    using that ph pid crash
    by (cases c) (auto simp del: phase.simps simp add: phase.simps(1,9,11-13))
  moreover have "\<forall>w p. wpc s' w = W_done p \<longrightarrow> p = -1 \<or> pid_for s' (request s' w) p"
    using assms(1,3,5) pid unfolding hinv_def by metis
  ultimately show ?thesis using assms(1-5) ph(1) by (auto simp: hinv_def split: option.splits)
qed

lemma phase_workers [simp]:
  "phase (s\<lparr>wpc := x, request := y\<rparr>) a c = phase s a c" "quiet (s\<lparr>wpc := x, request := y\<rparr>) = quiet s"
  by (cases c) (simp_all add: hinv_defs)

lemma hstep_hinv: "hstep s s' \<Longrightarrow> hinv s \<Longrightarrow> hinv s'"
proof (induction rule: hstep.induct)
  case (call s w p a)
  then have "\<not> critical (wpc s w)" by auto
  then have "pipe_mutex s \<noteq> Some w" using call.prems by (simp add: hinv_def)
  with call show ?case by (auto simp: hinv_def pid_for_def split: option.splits)
next
  case (refused s w p a)
  then have "\<not> critical (wpc s w)" by auto
  then have "pipe_mutex s \<noteq> Some w" using refused.prems by (simp add: hinv_def)
  with refused show ?case by (auto simp: hinv_def pid_for_def split: option.splits)
next
  case (put_overflow s w)
  show ?case by (rule hinv_worker [of s w W_put W_crash]) (use put_overflow in auto)
next
  case (read_overflow s)
  show ?case by (rule hinv_template [of s]) (use read_overflow in \<open>auto simp: hinv_defs\<close>)
next
  case (lock s w)
  then show ?case by (auto simp: hinv_def pid_for_def quiet_def in_loop_def)
next
  case (see_S s w)
  show ?case
    by (rule hinv_worker [of s w W_wait_S W_kill]) (use see_S in \<open>auto simp: quiet_def in_loop_def\<close>)
next
  case (kill_sent s w)
  show ?case
    by (rule hinv_worker [of s w W_kill W_wait_R1]) (use kill_sent in \<open>auto simp: in_loop_def\<close>)
next
  case (kill_failed s w)
  show ?case
    by (rule hinv_leave [where s = s and w = w and ?c0.0 = W_kill and p = "-1" and n = "served_ok s"]) (use kill_failed in \<open>auto simp: quiet_def\<close>)
next
  case (see_R1 s w)
  show ?case
    by (rule hinv_worker [of s w W_wait_R1 W_put]) (use see_R1 in \<open>auto simp: in_loop_def\<close>)
next
  case (put s w)
  show ?case
    by (rule hinv_worker [of s w W_put W_set_K]) (use put in \<open>auto simp: has_request_def\<close>)
next
  case (set_K s w)
  show ?case
    by (rule hinv_worker [of s w W_set_K W_wait_R2]) (use set_K in \<open>auto simp: has_request_def\<close>)
next
  case (see_R2 s w)
  show ?case
    by (rule hinv_worker [of s w W_wait_R2 W_read]) (use see_R2 in \<open>auto simp: has_pid_def pid_for_def in_loop_def\<close>)
next
  case (read_pid s w)
  let ?p = "bytes_int (take (nat (shm_len s)) (shm_data s))"
  have p: "?p = p" if "take (nat (shm_len s)) (shm_data s) = int_bytes p" "- (2 ^ 31) \<le> p" "p < 2 ^ 31" for p
    using that bytes_int_bytes [of p "[]"] by simp
  show ?case
    by (rule hinv_worker [of s w W_read "W_set_K2 ?p"]) (use read_pid p in \<open>auto simp: has_pid_def pid_for_def\<close>)
next
  case (set_K2 s w p)
  show ?case
    by (rule hinv_worker [of s w "W_set_K2 p" "W_unlock p"]) (use set_K2 in \<open>auto simp: quiet_def pid_for_def\<close>)
next
  case (unlock s w p)
  show ?case by (rule hinv_leave [where s = s and w = w and ?c0.0 = "W_unlock p" and p = p and n = "Suc (served_ok s)"]) (use unlock in auto)
next
  case (boot s)
  show ?case by (rule hinv_template [of s]) (use boot in \<open>auto simp: hinv_defs\<close>)
next
  case (write_S s)
  show ?case by (rule hinv_template [of s]) (use write_S in \<open>auto simp: hinv_defs\<close>)
next
  case (wake s)
  show ?case by (rule hinv_template [of s]) (use wake in \<open>auto simp: hinv_defs\<close>)
next
  case (signalled s)
  show ?case by (rule hinv_template [of s]) (use signalled in \<open>auto simp: hinv_defs\<close>)
next
  case (set_R s)
  show ?case by (rule hinv_template [of s]) (use set_R in \<open>auto simp: hinv_defs\<close>)
next
  case (see_K s)
  show ?case by (rule hinv_template [of s]) (use see_K in \<open>auto simp: hinv_defs\<close>)
next
  case (read_request s)
  show ?case by (rule hinv_template [of s]) (use read_request in \<open>auto simp: hinv_defs\<close>)
next
  case (no_stack s)
  show ?case by (rule hinv_template [of s]) (use no_stack in \<open>auto simp: hinv_defs\<close>)
next
  case (clone_ok s p)
  show ?case by (rule hinv_template [of s]) (use clone_ok in \<open>auto simp: hinv_defs pid_return_def\<close>)
next
  case (clone_failed s)
  show ?case by (rule hinv_template [of s]) (use clone_failed in \<open>auto simp: hinv_defs pid_return_def\<close>)
next
  case (put_pid s)
  show ?case by (rule hinv_template [of s]) (use put_pid in \<open>auto simp: hinv_defs pid_return_def\<close>)
next
  case (set_R2 s)
  show ?case by (rule hinv_template [of s]) (use set_R2 in \<open>auto simp: hinv_defs\<close>)
next
  case (see_K2 s)
  show ?case by (rule hinv_template [of s]) (use see_K2 in \<open>auto simp: hinv_defs\<close>)
next
  case (set_R3 s)
  show ?case by (rule hinv_template [of s]) (use set_R3 in \<open>auto simp: hinv_defs\<close>)
qed

lemma hreach_hinv: "hreach s \<Longrightarrow> hinv s"
proof (induction rule: hreach.induct)
  case init
  then show ?case by (simp add: hinv_def handshake_init_def quiet_def)
next
  case (step s s')
  then show ?case by (auto intro: hstep_hinv)
qed

text \<open>The two counters of the runner: no more requests have succeeded than have been made, and while one is being served
  there is one more.\<close>

lemma hreach_counts: "hreach s \<Longrightarrow> served_ok s + (if pipe_mutex s = None then 0 else 1) \<le> asked s"
proof (induction rule: hreach.induct)
  case (step s s')
  have "pipe_mutex s = Some w" if "critical (wpc s w)" for w
    using hreach_hinv [OF step.hyps(1)] that by (simp add: hinv_def)
  then have "wpc s w = W_unlock p \<Longrightarrow> pipe_mutex s = Some w" for w p by (simp add: critical_def)
  with step(2,3) show ?case by cases (auto split: if_splits)
qed (simp add: handshake_init_def)

text \<open>When the handler gives up before it has answered, the worker waits for an answer that never comes,
  and keeps the mutex.\<close>

definition abandoned :: "handshake \<Rightarrow> nat \<Rightarrow> bool" where
  "abandoned s w \<longleftrightarrow> hinv s \<and> wpc s w = W_wait_R2 \<and> pipe_mutex s = Some w \<and> in_loop s \<and>
     shm_flag s \<noteq> CHR ''R'' \<and> \<not> sig_pending s"

lemma abandoned_critical: "abandoned s w \<Longrightarrow> critical (wpc s v) \<Longrightarrow> v = w"
  by (auto simp: abandoned_def hinv_def)

lemma abandoned_step:
  assumes "hstep s s'" "abandoned s w"
  shows "abandoned s' w"
proof -
  have "hinv s'" using assms by (auto simp: abandoned_def intro: hstep_hinv)
  moreover have a: "wpc s w = W_wait_R2" "pipe_mutex s = Some w" "in_loop s" "shm_flag s \<noteq> CHR ''R''"
      "\<not> sig_pending s"
    using assms(2) by (simp_all add: abandoned_def)
  have c: "v = w" if "critical (wpc s v)" for v using abandoned_critical [OF assms(2) that] .
  have no: "wpc s v \<noteq> W_wait_S" "wpc s v \<noteq> W_kill" "wpc s v \<noteq> W_wait_R1" "wpc s v \<noteq> W_put"
      "wpc s v \<noteq> W_set_K" "wpc s v \<noteq> W_read" "wpc s v \<noteq> W_set_K2 p" "wpc s v \<noteq> W_unlock p" for v p
    using c [of v] a(1) by (auto simp: critical_def)
  from assms(1) have "wpc s' w = W_wait_R2 \<and> pipe_mutex s' = Some w \<and> in_loop s' \<and>
      shm_flag s' \<noteq> CHR ''R'' \<and> \<not> sig_pending s'"
    by cases (use a no in \<open>auto simp: in_loop_def\<close>)
  ultimately show ?thesis by (simp add: abandoned_def)
qed

lemma abandoned_forever: "hstep\<^sup>*\<^sup>* s t \<Longrightarrow> abandoned s w \<Longrightarrow> abandoned t w"
  by (induction rule: rtranclp_induct) (auto intro: abandoned_step)

lemma hinv_clone:
  assumes "hinv s" "tpc s = H_clone"
  shows "\<exists>w. abandoned (s\<lparr>tpc := return_pc s\<rparr>) w"
proof -
  have "hinv (s\<lparr>tpc := return_pc s\<rparr>)" using assms by (auto intro: hstep_hinv hstep.no_stack)
  moreover obtain w where w: "pipe_mutex s = Some w" "phase s (request s w) (wpc s w)"
    using assms by (auto simp: hinv_def quiet_def in_loop_def split: option.splits)
  moreover from w assms have "wpc s w = W_wait_R2"
    by (cases "wpc s w") (auto simp: hinv_def quiet_def in_loop_def critical_def)
  ultimately show ?thesis using assms by (auto simp: abandoned_def in_loop_def hinv_def)
qed

section \<open>A concrete run\<close>

text \<open>One worker asks for a watcher: up to the clone, and on to its return.\<close>

definition at_clone :: handshake where
  "at_clone = handshake_init\<lparr>shm_flag := CHR ''K'', shm_len := 1, shm_data := ''q'', pipe_mutex := Some 0,
     tpc := H_clone, return_pc := T_sleep, tx_buf := ''q'', wpc := (\<lambda>w. W_idle)(0 := W_wait_R2),
     request := (\<lambda>w. [])(0 := ''q''), asked := 1\<rparr>"

lemma hreach_at_clone: "hreach at_clone"
proof -
  let ?s0 = "handshake_init\<lparr>tpc := T_sleep, shm_flag := CHR ''S''\<rparr>"
  let ?w = "\<lambda>c. (\<lambda>w. W_idle)(0 := c)"
  let ?s1 = "?s0\<lparr>request := (\<lambda>w. [])(0 := ''q''), pipe_mutex := Some 0, asked := 1\<rparr>"
  let ?s2 = "?s1\<lparr>return_pc := T_sleep, tpc := H_wait_K, shm_flag := CHR ''R''\<rparr>"
  let ?s3 = "?s2\<lparr>shm_len := 1, shm_data := ''q'', shm_flag := CHR ''K''\<rparr>"
  have "hreach (handshake_init\<lparr>tpc := T_loop, shm_flag := CHR ''N''\<rparr>)"
    using hreach.step [OF hreach.init [of 2] hstep.boot] by (simp add: handshake_init_def)
  from hreach.step [OF this hstep.write_S] have "hreach ?s0" by (simp add: handshake_init_def)
  from hreach.step [OF this hstep.call [of _ 0 _ "''q''"]]
  have "hreach (?s0\<lparr>wpc := ?w W_lock, request := (\<lambda>w. [])(0 := ''q'')\<rparr>)"
    by (simp add: handshake_init_def)
  from hreach.step [OF this hstep.lock [of _ 0]] have "hreach (?s1\<lparr>wpc := ?w W_wait_S\<rparr>)"
    by (simp add: handshake_init_def)
  from hreach.step [OF this hstep.see_S [of _ 0]] have "hreach (?s1\<lparr>wpc := ?w W_kill\<rparr>)" by (simp add: handshake_init_def)
  from hreach.step [OF this hstep.kill_sent [of _ 0]]
  have "hreach (?s1\<lparr>wpc := ?w W_wait_R1, sig_pending := True\<rparr>)" by (simp add: handshake_init_def)
  from hreach.step [OF this hstep.signalled]
  have "hreach (?s1\<lparr>wpc := ?w W_wait_R1, return_pc := T_sleep, tpc := H_set_R\<rparr>)"
    by (simp add: handshake_init_def)
  from hreach.step [OF this hstep.set_R] have "hreach (?s2\<lparr>wpc := ?w W_wait_R1\<rparr>)" by (simp add: handshake_init_def)
  from hreach.step [OF this hstep.see_R1 [of _ 0]] have "hreach (?s2\<lparr>wpc := ?w W_put\<rparr>)" by (simp add: handshake_init_def)
  from hreach.step [OF this hstep.put [of _ 0, unfolded TEMPLATE_SHM_SIZE_def]]
  have "hreach (?s2\<lparr>wpc := ?w W_set_K, shm_len := 1, shm_data := ''q''\<rparr>)"
    by (simp add: handshake_init_def)
  from hreach.step [OF this hstep.set_K [of _ 0]] have "hreach (?s3\<lparr>wpc := ?w W_wait_R2\<rparr>)" by (simp add: handshake_init_def)
  from hreach.step [OF this hstep.see_K] have "hreach (?s3\<lparr>wpc := ?w W_wait_R2, tpc := H_read\<rparr>)" by (simp add: handshake_init_def)
  from hreach.step [OF this hstep.read_request [unfolded TEMPLATE_MAX_TX_def]] show ?thesis by (simp add: at_clone_def handshake_init_def)
qed

definition at_return :: handshake where
  "at_return = at_clone\<lparr>pipe_mutex := None, tpc := H_wait_K2, cloned_pid := 42, shm_len := 4,
     shm_data := int_bytes 42, spawned := [(''q'', 42)], served_ok := 1, wpc := (\<lambda>w. W_idle)(0 := W_done 42)\<rparr>"

lemma hreach_at_return: "hreach at_return"
proof -
  note defs = at_clone_def handshake_init_def pid_return_def
  let ?w = "\<lambda>c. (\<lambda>w. W_idle)(0 := c)"
  let ?s1 = "at_clone\<lparr>cloned_pid := 42, spawned := [(''q'', 42)]\<rparr>"
  let ?s2 = "?s1\<lparr>shm_len := 4, shm_data := int_bytes 42, tpc := H_wait_K2\<rparr>"
  from hreach.step [OF hreach_at_clone hstep.clone_ok [of _ 42]]
  have "hreach (?s1\<lparr>tpc := H_put\<rparr>)" by (simp add: defs)
  from hreach.step [OF this hstep.put_pid] have "hreach (?s2\<lparr>tpc := H_set_R2\<rparr>)" by (simp add: defs)
  from hreach.step [OF this hstep.set_R2] have "hreach (?s2\<lparr>shm_flag := CHR ''R''\<rparr>)" by (simp add: defs)
  from hreach.step [OF this hstep.see_R2 [of _ 0]]
  have "hreach (?s2\<lparr>shm_flag := CHR ''R'', wpc := ?w W_read\<rparr>)" by (simp add: defs)
  from hreach.step [OF this hstep.read_pid [of _ 0]]
  have "hreach (?s2\<lparr>shm_flag := CHR ''R'', wpc := ?w (W_set_K2 42)\<rparr>)"
    using bytes_int_bytes [of 42 "[]"] by (simp add: defs)
  from hreach.step [OF this hstep.set_K2 [of _ 0]] have "hreach (?s2\<lparr>wpc := ?w (W_unlock 42)\<rparr>)"
    by (simp add: defs)
  from hreach.step [OF this hstep.unlock [of _ 0]] show ?thesis by (simp add: defs at_return_def)
qed

section \<open>Properties\<close>

text \<open>C13: Under every interleaving of the workers and the template, a worker that returns from
  \<open>jug_runner_template_clone\<close> returns the pid of a watcher cloned for its own request, or \<open>-1\<close> when the
  template could not be signalled, or \<open>-2\<close> when cloning failed; and at most one worker is inside.\<close>

theorem worker_gets_own_watcher:
  assumes "hreach s"
  shows "(wpc s w = W_done p \<longrightarrow> p = -1 \<or> p = -2 \<or> (request s w, p) \<in> set (spawned s) \<and> 0 < p) \<and>
    (critical (wpc s v) \<and> critical (wpc s w) \<longrightarrow> v = w)"
  using hreach_hinv [OF assms] by (auto simp: hinv_def pid_for_def)

theorem worker_gets_own_watcher_witness:
  "hreach at_return \<and> wpc at_return 0 = W_done 42 \<and> (request at_return 0, 42) \<in> set (spawned at_return)"
  using worker_gets_own_watcher [OF hreach_at_return, of 0 42] hreach_at_return
  by (simp add: at_return_def)

text \<open>C31: If the signal handler cannot allocate the stack of the watcher, it answers on a pipe nobody
  reads: the worker it was serving waits for ever and keeps the mutex, so that no worker is ever
  served again.\<close>

theorem no_stack_blocks_every_worker:
  assumes "hreach s" "tpc s = H_clone"
  shows "\<exists>w. \<forall>t. hstep\<^sup>*\<^sup>* (s\<lparr>tpc := return_pc s\<rparr>) t \<longrightarrow>
    wpc t w = W_wait_R2 \<and> pipe_mutex t = Some w"
proof -
  obtain w where "abandoned (s\<lparr>tpc := return_pc s\<rparr>) w"
    using hinv_clone [OF hreach_hinv [OF assms(1)] assms(2)] by blast
  then show ?thesis by (meson abandoned_forever abandoned_def)
qed

theorem no_stack_blocks_every_worker_witness:
  "hreach at_clone \<and> (\<exists>w. \<forall>t. hstep\<^sup>*\<^sup>* (at_clone\<lparr>tpc := return_pc at_clone\<rparr>) t \<longrightarrow>
     wpc t w = W_wait_R2 \<and> pipe_mutex t = Some w)"
  using no_stack_blocks_every_worker [OF hreach_at_clone] hreach_at_clone by (simp add: at_clone_def)

text \<open>C30: What the template reads back from the bytes of a request is the request: the structures, the
  path of the binary and its arguments, whatever bytes follow in the shared memory. With the one
  argument the daemon passes and a path of at most 98 bytes the request fits the \<open>TEMPLATE_MAX_TX\<close> bytes of
  the template's buffer.\<close>

theorem request_survives_serialisation:
  assumes "ccp_ok ccp"
  shows "jug_runner_template_unserialize (jug_runner_template_serialize ccp @ rest) = Inr ccp \<and>
    (child_argv ccp = [binary_path ccp] \<and> length (binary_path ccp) < 99 \<longrightarrow>
      length (jug_runner_template_serialize ccp) \<le> TEMPLATE_MAX_TX)"
  using assms unserialize_serialize [OF assms]
  by (auto simp: length_serialize ccp_ok_def SIZEOF_RUN_PARAMS_def SIZEOF_SANDBOX_def TEMPLATE_MAX_TX_def)

definition sample_ccp :: clone_child_params where
  "sample_ccp = \<lparr>run_params_bytes = replicate SIZEOF_RUN_PARAMS NUL,
     sandbox_bytes = replicate SIZEOF_SANDBOX NUL, binary_path = ''/x'', child_argv = [''/x'']\<rparr>"

theorem request_survives_serialisation_witness:
  "jug_runner_template_unserialize (jug_runner_template_serialize sample_ccp @ ''junk'') = Inr sample_ccp \<and>
   length (jug_runner_template_serialize sample_ccp) \<le> TEMPLATE_MAX_TX"
  using request_survives_serialisation [of sample_ccp "''junk''"]
  by (simp add: sample_ccp_def ccp_ok_def)

end
