(* ===== verification/Log.thy ===== *)
theory Log
  imports Prelude_C
begin

text \<open>
  The debugging messages (\<open>src/log.c\<close>): which tags are in focus, and the buffers messages are printed into. The table
  of tags, \<open>_focus_tags[20][10]\<close>, is one object of 200 bytes, because tags are copied with a bound of 19 bytes
  into rows of 10 and compared over 20.
\<close>

section \<open>Operations\<close>

record log_state =
  is_focus_tags :: bool
  focus_tags :: "char list"

definition log_start :: log_state where
  "log_start = \<lparr>is_focus_tags = False, focus_tags = replicate 200 NUL\<rparr>"

text \<open>\<open>strncpy(_focus_tags[i], s, 19)\<close>: always 19 bytes, filled up with terminators.\<close>

definition copy_tag :: "nat \<Rightarrow> string \<Rightarrow> char list \<Rightarrow> char list c_result" where
  "copy_tag i s arr =
     (let b = take 19 (s @ replicate 19 NUL) in
      if 10 * i + 19 > length arr then Inl Buffer_overflow
      else Inr (take (10 * i) arr @ b @ drop (10 * i + 19) arr))"

text \<open>The loop; the array of tags ends with the null pointer. Its result is the number of rows written.\<close>

fun copy_tags :: "nat \<Rightarrow> string option list \<Rightarrow> char list \<Rightarrow> (nat \<times> char list) c_result" where
  "copy_tags i [] arr = Inl Out_of_bounds"
| "copy_tags i (None # ts) arr = Inr (i, arr)"
| "copy_tags i (Some s # ts) arr =
     (if i \<le> 8 then c_then (copy_tag i s arr) (copy_tags (i + 1) ts) else Inr (i, arr))"

text \<open>The argument is the array, or the null pointer, which is dereferenced.\<close>

definition debug_focus :: "string option list option \<Rightarrow> log_state \<Rightarrow> log_state c_result" where
  "debug_focus tags st = (case tags of
       None \<Rightarrow> Inl Null_deref
     | Some ts \<Rightarrow> c_then (copy_tags 0 ts (focus_tags st)) (\<lambda>(i, arr).
         if 10 * i \<ge> length arr then Inl Buffer_overflow
         else Inr (st\<lparr>is_focus_tags := True, focus_tags := arr[10 * i := NUL]\<rparr>)))"

text \<open>\<open>strncmp(p, s, n) == 0\<close>.\<close>

fun c_strneq :: "ptr \<Rightarrow> ptr \<Rightarrow> nat \<Rightarrow> bool c_result" where
  "c_strneq p s 0 = Inr True"
| "c_strneq (a # p) (b # s) (Suc n) =
     (if a \<noteq> b then Inr False else if a = NUL then Inr True else c_strneq p s n)"
| "c_strneq _ _ (Suc n) = Inl Out_of_bounds"

fun in_focus :: "nat list \<Rightarrow> char list \<Rightarrow> string \<Rightarrow> bool c_result" where
  "in_focus [] arr tag = Inr False"
| "in_focus (i # is) arr tag = c_then (c_strneq (drop (10 * i) arr) (tag @ [NUL]) 20) (\<lambda>eq.
     if eq then Inr True else in_focus is arr tag)"

text \<open>What is printed; \<open>formatted\<close> is what \<open>vsprintf\<close> makes of the message, in a buffer of the length of the message and
  the tag plus 120.\<close>

definition debugt :: "allocator \<Rightarrow> log_state \<Rightarrow> string \<Rightarrow> string \<Rightarrow> string \<Rightarrow> string option c_result" where
  "debugt mem st tag msg formatted =
     c_then (if is_focus_tags st then in_focus [0..<8] (focus_tags st) tag else Inr True) (\<lambda>show_it.
       if \<not> show_it then Inr None
       else if \<not> can_alloc mem (length msg + length tag + 120) then Inl Null_deref
       else if length formatted + 1 > length msg + length tag + 120 then Inl Buffer_overflow
       else Inr (Some (''+ '' @ tag @ '': '' @ formatted @ [LF])))"

text \<open>\<open>debug\<close> and \<open>kjd_log\<close>, which differ in where the line goes.\<close>

definition debug :: "allocator \<Rightarrow> string \<Rightarrow> string \<Rightarrow> string c_result" where
  "debug mem msg formatted =
     (if \<not> can_alloc mem (length msg + 120) then Inl Null_deref
      else if length formatted + 1 > length msg + 120 then Inl Buffer_overflow
      else Inr (''+ '' @ formatted @ [LF]))"

definition kjd_log :: "allocator \<Rightarrow> string \<Rightarrow> string \<Rightarrow> string c_result" where
  "kjd_log mem msg formatted =
     (if \<not> can_alloc mem (length msg + 120) then Inl Null_deref
      else if length formatted + 1 > length msg + 120 then Inl Buffer_overflow
      else Inr (formatted @ [LF]))"

text \<open>\<open>debugl\<close>; \<open>err\<close> is what \<open>strerror\<close> says of \<open>errno\<close>.\<close>

definition debugl :: "int \<Rightarrow> string \<Rightarrow> string" where
  "debugl errno err = ''+ ('' @ dec_int errno @ '':'' @ err @ '')'' @ [LF]"

text \<open>\<open>sprintf(d, "%s...", d, ...)\<close> prints the buffer into itself: a conversion that goes from left to right reads every byte of
  the text just before it writes it back to where it was, and then writes the rest over the terminator.\<close>

function self_copy :: "nat \<Rightarrow> char list \<Rightarrow> (nat \<times> char list) c_result" where
  "self_copy i buf =
     (if i \<ge> length buf then Inl Out_of_bounds
      else if buf ! i = NUL then Inr (i, buf)
      else self_copy (i + 1) (buf[i := buf ! i]))"
  by pat_completeness auto
termination by (relation "measure (\<lambda>(i, buf). length buf - i)") auto

declare self_copy.simps [simp del]

definition write_at :: "nat \<Rightarrow> string \<Rightarrow> char list \<Rightarrow> char list c_result" where
  "write_at i t buf =
     (if i + length t + 1 > length buf then Inl Buffer_overflow
      else Inr (take i buf @ t @ NUL # drop (i + length t + 1) buf))"

definition debugll :: "allocator \<Rightarrow> string \<Rightarrow> string \<Rightarrow> int \<Rightarrow> string \<Rightarrow> string c_result" where
  "debugll mem msg formatted errno err =
     (let n = length msg + length err + 240 in
      if \<not> can_alloc mem n then Inl Null_deref
      else c_then (write_at 0 formatted (map (junk mem) [0..<n])) (\<lambda>buf.
        c_then (self_copy 0 buf) (\<lambda>(i, buf).
          c_then (write_at i ('' : ('' @ dec_int errno @ '','' @ err @ '')'') buf) (\<lambda>buf.
            Inr (''+ '' @ cstr buf @ [LF])))))"

text \<open>\<open>"%02x"\<close> of a \<open>char\<close>, which is signed and widened to \<open>int\<close> first.\<close>

definition hex_char :: "nat \<Rightarrow> char" where
  "hex_char d = (if d < 10 then digit_char d else char_of (d + 87))"

fun hex_nat :: "nat \<Rightarrow> string" where
  "hex_nat n = (if n < 16 then [hex_char n] else hex_nat (n div 16) @ [hex_char (n mod 16)])"

declare hex_nat.simps [simp del]

definition print_02x :: "char \<Rightarrow> string" where
  "print_02x c =
     (let k = of_char c :: nat; s = hex_nat (if k < 128 then k else 2 ^ 32 - 256 + k) in
      replicate (2 - length s) (CHR ''0'') @ s)"

fun print_from :: "(char \<Rightarrow> string) \<Rightarrow> nat \<Rightarrow> char list \<Rightarrow> string c_result" where
  "print_from show_byte 0 buffer = Inr [LF]"
| "print_from show_byte (Suc len) [] = Inl Out_of_bounds"
| "print_from show_byte (Suc len) (c # buffer) =
     c_then (print_from show_byte len buffer) (\<lambda>rest. Inr (show_byte c @ rest))"

definition print_bytes :: "char list \<Rightarrow> int \<Rightarrow> string c_result" where
  "print_bytes buffer len =
     print_from (\<lambda>c. (if c = LF then ''{'' @ print_02x c @ ''}'' else []) @ print_02x c) (nat len) buffer"

definition debug_fnprintf :: "char list \<Rightarrow> int \<Rightarrow> string c_result" where
  "debug_fnprintf buffer len = print_from (\<lambda>c. [c]) (nat len) buffer"

text \<open>\<open>print_focus_tags\<close>; a tag that fills its row is printed together with the rows behind it.\<close>

fun print_rows :: "nat list \<Rightarrow> char list \<Rightarrow> string c_result" where
  "print_rows [] arr = Inr []"
| "print_rows (i # is) arr =
     (if 10 * i \<ge> length arr then Inl Out_of_bounds
      else if arr ! (10 * i) = NUL then Inr []
      else if NUL \<notin> set (drop (10 * i) arr) then Inl Out_of_bounds
      else c_then (print_rows is arr) (\<lambda>rest. Inr (''Focus On: ['' @ cstr (drop (10 * i) arr) @ '']'' @ [LF] @ rest)))"

definition print_focus_tags :: "log_state \<Rightarrow> string c_result" where
  "print_focus_tags st = print_rows [0..<10] (focus_tags st)"

section \<open>Laws\<close>

text \<open>A row of the table, and a tag that fits into one.\<close>

definition row :: "nat \<Rightarrow> char list \<Rightarrow> string" where
  "row i arr = take 10 (drop (10 * i) arr)"

definition short_tag :: "string \<Rightarrow> bool" where
  "short_tag s \<longleftrightarrow> length s < 10 \<and> NUL \<notin> set s \<and> s \<noteq> []"

definition row_holds :: "char list \<Rightarrow> nat \<Rightarrow> string \<Rightarrow> bool" where
  "row_holds arr i s \<longleftrightarrow> NUL \<notin> set s \<and> (\<exists>r. row i arr = s @ NUL # r)"

lemma self_copy_stops:
  "i \<le> length s \<Longrightarrow> NUL \<notin> set s \<Longrightarrow> self_copy i (s @ NUL # r) = Inr (length s, s @ NUL # r)"
proof (induction "length s - i" arbitrary: i)
  case 0
  then have "i = length s" by simp
  then show ?case by (simp add: self_copy.simps [of "length s"])
next
  case (Suc k)
  then have "i < length s" by simp
  then have "s ! i \<noteq> NUL" using Suc.prems(2) nth_mem by metis
  then show ?case using Suc \<open>i < length s\<close> by (simp add: self_copy.simps [of i] nth_append list_update_append)
qed

lemma print_from_ok:
  "len \<le> length buffer \<Longrightarrow> print_from show_byte len buffer = Inr (concat (map show_byte (take len buffer)) @ [LF])"
  by (induction show_byte len buffer rule: print_from.induct) auto

lemma row_text:
  assumes "row_holds arr i s"
  shows "NUL \<in> set (drop (10 * i) arr)" "cstr (drop (10 * i) arr) = s" "10 * i < length arr"
    "arr ! (10 * i) = NUL \<longleftrightarrow> s = []"
proof -
  obtain r where r: "take 10 (drop (10 * i) arr) = s @ NUL # r" "NUL \<notin> set s" using assms by (auto simp: row_holds_def row_def)
  then have d: "drop (10 * i) arr = s @ NUL # (r @ drop 10 (drop (10 * i) arr))"
    using append_take_drop_id [of 10 "drop (10 * i) arr"] by simp
  show "NUL \<in> set (drop (10 * i) arr)" "cstr (drop (10 * i) arr) = s" by (subst d, simp add: r(2))+
  show len: "10 * i < length arr" using d by (metis drop_all list.discI append_is_Nil_conv not_le)
  have "arr ! (10 * i) = hd (drop (10 * i) arr)" using len by (simp add: hd_drop_conv_nth)
  then show "arr ! (10 * i) = NUL \<longleftrightarrow> s = []" using d r(2) by (cases s) auto
qed

lemma c_strneq_terminated:
  "NUL \<notin> set s \<Longrightarrow> NUL \<notin> set t \<Longrightarrow> length s < n \<Longrightarrow>
     c_strneq (s @ NUL # p) (t @ [NUL]) n = Inr (s = t)"
proof (induction s arbitrary: t n)
  case Nil
  then show ?case by (cases t; cases n) auto
next
  case (Cons a s)
  then show ?case by (cases t; cases n) auto
qed

lemma c_strneq_row:
  assumes "row_holds arr i s" "NUL \<notin> set t"
  shows "c_strneq (drop (10 * i) arr) (t @ [NUL]) 20 = Inr (s = t)"
proof -
  obtain r where r: "row i arr = s @ NUL # r" "NUL \<notin> set s" using assms(1) by (auto simp: row_holds_def)
  then have "drop (10 * i) arr = s @ NUL # (r @ drop 10 (drop (10 * i) arr))"
    using append_take_drop_id [of 10 "drop (10 * i) arr"] by (simp add: row_def)
  moreover have "length (row i arr) \<le> 10" by (simp add: row_def)
  ultimately show ?thesis using c_strneq_terminated [OF r(2) assms(2), of 20] r(1) by simp
qed

lemma in_focus_rows:
  assumes "\<forall>i \<in> set is. row_holds arr i (f i)" "NUL \<notin> set t"
  shows "in_focus is arr t = Inr (\<exists>i \<in> set is. f i = t)"
  using assms(1) by (induction "is") (auto simp: c_strneq_row [OF _ assms(2)])

lemma row_take: "j < i \<Longrightarrow> row j (take (10 * i) arr) = row j arr"
  by (auto simp: row_def drop_take min_def)

lemma copy_tag_rows:
  assumes "length arr = 200" "i \<le> 8" "short_tag s"
  obtains arr' where "copy_tag i s arr = Inr arr'" "length arr' = 200" "row_holds arr' i s"
    "\<forall>j. j < i \<or> i + 1 < j \<longrightarrow> row j arr' = row j arr"
proof -
  let ?b = "take 19 (s @ replicate 19 NUL)"
  let ?a = "take (10 * i) arr @ ?b @ drop (10 * i + 19) arr"
  have s: "length s < 10" "NUL \<notin> set s" using assms(3) by (simp_all add: short_tag_def)
  have "row i ?a = s @ replicate (10 - length s) NUL" using assms s by (simp add: row_def min_def)
  moreover have "10 - length s = Suc (9 - length s)" using s by simp
  ultimately have "row_holds ?a i s" using s by (auto simp: row_holds_def)
  moreover have "row j ?a = row j arr" if "j < i" for j
    using that assms row_take [OF that, of ?a] row_take [OF that, of arr] by simp
  moreover have "row j ?a = row j arr" if "i + 1 < j" for j
  proof -
    have "drop (10 * j) ?a = drop (10 * j - 10 * i - 19) (drop (10 * i + 19) arr)"
      using that assms s(1) by (simp add: min_def)
    also have "\<dots> = drop (10 * j) arr" using that by simp
    finally show ?thesis by (simp add: row_def)
  qed
  moreover have "copy_tag i s arr = Inr ?a" "length ?a = 200" using assms by (simp_all add: copy_tag_def)
  ultimately show thesis using that by metis
qed

lemma copy_tags_rows:
  "length arr = 200 \<Longrightarrow> i + length ts \<le> 9 \<Longrightarrow> \<forall>s \<in> set ts. short_tag s \<Longrightarrow>
   \<exists>arr'. copy_tags i (map Some ts @ [None]) arr = Inr (i + length ts, arr') \<and> length arr' = 200 \<and>
     (\<forall>k < length ts. row_holds arr' (i + k) (ts ! k)) \<and>
     (\<forall>j. j < i \<or> i + length ts < j \<longrightarrow> row j arr' = row j arr)"
proof (induction ts arbitrary: i arr)
  case (Cons s ts)
  obtain arr1 where arr1: "copy_tag i s arr = Inr arr1" "length arr1 = 200" "row_holds arr1 i s"
      "\<forall>j. j < i \<or> i + 1 < j \<longrightarrow> row j arr1 = row j arr"
    using copy_tag_rows [of arr i s] Cons.prems by auto
  then obtain arr' where arr': "copy_tags (i + 1) (map Some ts @ [None]) arr1 = Inr (i + 1 + length ts, arr')"
      "length arr' = 200" "\<forall>k < length ts. row_holds arr' (i + 1 + k) (ts ! k)"
      "\<forall>j. j < i + 1 \<or> i + 1 + length ts < j \<longrightarrow> row j arr' = row j arr1"
    using Cons.IH [of arr1 "i + 1"] Cons.prems by auto
  have "row_holds arr' i s" using arr1(3) arr'(4) by (simp add: row_holds_def)
  then have "\<forall>k < length (s # ts). row_holds arr' (i + k) ((s # ts) ! k)"
    using arr'(3) by (auto simp: nth_Cons split: nat.splits)
  then show ?case using arr1 arr' Cons.prems(2) by auto
qed simp

lemma debug_focus_rows:
  assumes "length (focus_tags st) = 200" "length ts \<le> 8" "\<forall>s \<in> set ts. short_tag s"
  obtains st' where "debug_focus (Some (map Some ts @ [None])) st = Inr st'" "is_focus_tags st'"
    "length (focus_tags st') = 200" "\<forall>k < length ts. row_holds (focus_tags st') k (ts ! k)"
    "row_holds (focus_tags st') (length ts) []" "\<forall>j > length ts. row j (focus_tags st') = row j (focus_tags st)"
proof -
  let ?n = "length ts"
  obtain arr where arr: "copy_tags 0 (map Some ts @ [None]) (focus_tags st) = Inr (?n, arr)" "length arr = 200"
      "\<forall>k < ?n. row_holds arr k (ts ! k)" "\<forall>j > ?n. row j arr = row j (focus_tags st)"
    using copy_tags_rows [OF assms(1), of 0 ts] assms(2,3) by auto
  let ?a = "arr[10 * ?n := NUL]"
  have drops: "drop (10 * ?n) ?a = NUL # drop (10 * ?n + 1) arr"
    using arr(2) assms(2) by (simp add: drop_update_swap) (simp add: Cons_nth_drop_Suc [symmetric])
  have "row_holds ?a ?n []" by (simp add: row_holds_def row_def drops)
  moreover have "row k ?a = row k arr" if "k < ?n" for k
    using row_take [OF that, of ?a] row_take [OF that, of arr] by (simp add: take_update_cancel)
  moreover have "row k ?a = row k arr" if "k > ?n" for k
    using that by (simp add: row_def drop_update_cancel)
  ultimately show thesis
    using arr assms(2)
    by (intro that [of "st\<lparr>is_focus_tags := True, focus_tags := ?a\<rparr>"])
      (simp_all add: debug_focus_def row_holds_def)
qed

text \<open>What \<open>print_focus_tags\<close> lists: the tags of the rows before the first empty one.\<close>

lemma print_rows_upto:
  "\<forall>k < length ts. row_holds arr (i + k) (ts ! k) \<and> ts ! k \<noteq> [] \<Longrightarrow> row_holds arr (i + length ts) [] \<Longrightarrow>
   i + length ts < n \<Longrightarrow>
   print_rows [i..<n] arr = Inr (concat (map (\<lambda>s. ''Focus On: ['' @ s @ '']'' @ [LF]) ts))"
proof (induction ts arbitrary: i)
  case Nil
  then show ?case using row_text [of arr i "[]"] by (simp add: upt_rec)
next
  case (Cons s ts)
  have "row_holds arr i s" "s \<noteq> []" using Cons.prems(1) by (auto dest: spec [of _ 0])
  moreover have "print_rows [Suc i..<n] arr = Inr (concat (map (\<lambda>s. ''Focus On: ['' @ s @ '']'' @ [LF]) ts))"
  proof (rule Cons.IH)
    show "\<forall>k < length ts. row_holds arr (Suc i + k) (ts ! k) \<and> ts ! k \<noteq> []"
      using Cons.prems(1) by (metis Suc_less_eq add_Suc_shift length_Cons nth_Cons_Suc)
  qed (use Cons.prems(2,3) in simp_all)
  ultimately show ?case using row_text [of arr i s] Cons.prems(3) by (simp add: upt_rec [of i])
qed

text \<open>The line \<open>debugll\<close> prints, and when its buffer is too small for it.\<close>

lemma write_at_start:
  "length t < length buf \<Longrightarrow> write_at 0 t buf = Inr (t @ NUL # drop (length t + 1) buf)"
  by (simp add: write_at_def)

lemma write_at_end:
  "write_at (length s) t (s @ NUL # r) =
     (if length t \<le> length r then Inr ((s @ t) @ NUL # drop (length t) r) else Inl Buffer_overflow)"
  by (simp add: write_at_def)

lemma debugll_prints:
  assumes "NUL \<notin> set formatted" "NUL \<notin> set err" "can_alloc mem (length msg + length err + 240)"
    and "length formatted < length msg + length err + 240"
  shows "debugll mem msg formatted errno err =
    (if length formatted + length (dec_int errno) + 6 < length msg + 240
     then Inr (''+ '' @ formatted @ '' : ('' @ dec_int errno @ '','' @ err @ '')'' @ [LF]) else Inl Buffer_overflow)"
proof -
  let ?n = "length msg + length err + 240" and ?t = "'' : ('' @ dec_int errno @ '','' @ err @ '')''"
  define r where "r = drop (length formatted + 1) (map (junk mem) [0..<?n])"
  have "write_at 0 formatted (map (junk mem) [0..<?n]) = Inr (formatted @ NUL # r)"
    using assms(4) unfolding r_def by (intro write_at_start) simp
  moreover have "self_copy 0 (formatted @ NUL # r) = Inr (length formatted, formatted @ NUL # r)"
    by (rule self_copy_stops) (simp_all add: assms(1))
  moreover have "NUL \<notin> set (dec_int errno)" using dec_int_chars [of NUL errno] by auto
  then have "cstr ((formatted @ ?t) @ NUL # drop (length ?t) r) = formatted @ ?t"
    by (intro cstr_terminated) (simp add: assms(1,2))
  moreover have "length ?t \<le> length r \<longleftrightarrow> length formatted + length (dec_int errno) + 6 < length msg + 240"
    using assms(4) by (simp add: r_def) arith
  ultimately show ?thesis
    using assms(3) by (simp add: debugll_def Let_def write_at_end)
qed

section \<open>Properties\<close>

text \<open>Up to eight tags of at most nine characters: from the start, exactly the messages with one of these tags are
  printed, each as one line, and \<open>print_focus_tags\<close> lists exactly these tags.\<close>

theorem focus_selects_tags:
  assumes "length ts \<le> 8" "\<forall>s \<in> set ts. short_tag s" "NUL \<notin> set tag" "tag \<noteq> []"
    and "can_alloc mem (length msg + length tag + 120)" "length formatted < length msg + length tag + 120"
  shows "\<exists>st. debug_focus (Some (map Some ts @ [None])) log_start = Inr st \<and>
    debugt mem st tag msg formatted =
      Inr (if tag \<in> set ts then Some (''+ '' @ tag @ '': '' @ formatted @ [LF]) else None) \<and>
    print_focus_tags st = Inr (concat (map (\<lambda>s. ''Focus On: ['' @ s @ '']'' @ [LF]) ts))"
proof -
  have "length (focus_tags log_start) = 200" by (simp add: log_start_def)
  then obtain st where st: "debug_focus (Some (map Some ts @ [None])) log_start = Inr st" "is_focus_tags st"
      "\<forall>k < length ts. row_holds (focus_tags st) k (ts ! k)" "row_holds (focus_tags st) (length ts) []"
      "\<forall>j > length ts. row j (focus_tags st) = row j (focus_tags log_start)"
    using debug_focus_rows assms(1,2) by metis
  let ?f = "\<lambda>k. if k < length ts then ts ! k else []"
  have empty: "row j (focus_tags log_start) = NUL # replicate 9 NUL" if "j < 8" for j
    using that by (simp add: row_def log_start_def) (simp add: numeral_eq_Suc)
  have "\<forall>k \<in> set [0..<8]. row_holds (focus_tags st) k (?f k)"
  proof
    fix k :: nat
    assume "k \<in> set [0..<8]"
    then show "row_holds (focus_tags st) k (?f k)"
      using st(3-5) empty [of k] by (cases k "length ts" rule: linorder_cases) (auto simp: row_holds_def)
  qed
  from in_focus_rows [OF this assms(3)]
  have "in_focus [0..<8] (focus_tags st) tag = Inr (\<exists>k \<in> {0..<8}. ?f k = tag)" by simp
  moreover have "(\<exists>k \<in> {0..<8}. ?f k = tag) \<longleftrightarrow> tag \<in> set ts"
    using assms(1,4) by (auto simp: in_set_conv_nth split: if_splits)
  moreover have "print_focus_tags st = Inr (concat (map (\<lambda>s. ''Focus On: ['' @ s @ '']'' @ [LF]) ts))"
    unfolding print_focus_tags_def by (rule print_rows_upto) (use st(3,4) assms(1,2) in \<open>auto simp: short_tag_def\<close>)
  ultimately show ?thesis using st(1,2) assms(5,6) by (auto simp: debugt_def)
qed

theorem focus_selects_tags_witness:
  "\<exists>st. debug_focus (Some [Some ''queue'', Some ''lang'', None]) log_start = Inr st \<and>
    debugt \<lparr>can_alloc = \<lambda>_. True, junk = \<lambda>_. NUL\<rparr> st ''runner'' ''up'' ''up'' = Inr None \<and>
    print_focus_tags st = Inr (''Focus On: [queue]'' @ [LF] @ ''Focus On: [lang]'' @ [LF])"
  using focus_selects_tags [of "[''queue'', ''lang'']" "''runner''" "\<lparr>can_alloc = \<lambda>_. True, junk = \<lambda>_. NUL\<rparr>" "''up''" "''up''"]
  by (simp add: short_tag_def)

text \<open>Setting a new focus does not clear the old one: a tag that was in a row behind the one after the last new tag
  stays in focus.\<close>

theorem old_tags_stay_in_focus:
  assumes "length (focus_tags st) = 200" "\<forall>s \<in> set ts. short_tag s" "length ts < j" "j < 8"
    and "row_holds (focus_tags st) j old" "\<forall>i < 8. \<exists>s. row_holds (focus_tags st) i s"
    and "can_alloc mem (length msg + length old + 120)" "length formatted < length msg + length old + 120"
  shows "\<exists>st'. debug_focus (Some (map Some ts @ [None])) st = Inr st' \<and>
    debugt mem st' old msg formatted = Inr (Some (''+ '' @ old @ '': '' @ formatted @ [LF]))"
proof -
  have "length ts \<le> 8" using assms(3,4) by simp
  then obtain st' where st': "debug_focus (Some (map Some ts @ [None])) st = Inr st'" "is_focus_tags st'"
      "\<forall>k < length ts. row_holds (focus_tags st') k (ts ! k)" "row_holds (focus_tags st') (length ts) []"
      "\<forall>j > length ts. row j (focus_tags st') = row j (focus_tags st)"
    using debug_focus_rows [OF assms(1)] assms(2) by metis
  have same: "row_holds (focus_tags st') i s \<longleftrightarrow> row_holds (focus_tags st) i s" if "length ts < i" for i s
    using st'(5) that by (simp add: row_holds_def)
  have "\<exists>s. row_holds (focus_tags st') i s" if "i < 8" for i
    using st'(3,4) assms(6) that same by (cases i "length ts" rule: linorder_cases) blast+
  then obtain f where f: "\<forall>i < 8. row_holds (focus_tags st') i (f i)" by metis
  have old: "row_holds (focus_tags st') j old" "NUL \<notin> set old" using st'(5) assms(3,5) by (simp_all add: row_holds_def)
  let ?f = "f(j := old)"
  have "\<forall>i \<in> set [0..<8]. row_holds (focus_tags st') i (?f i)" using f old(1) by simp
  from in_focus_rows [OF this old(2)] have "in_focus [0..<8] (focus_tags st') old = Inr True"
    using assms(4) by auto
  then show ?thesis using st'(1,2) assms(7,8) by (auto simp: debugt_def)
qed

theorem old_tags_stay_in_focus_witness:
  "\<exists>st st'. debug_focus (Some [Some ''a'', Some ''b'', Some ''c'', None]) log_start = Inr st \<and>
    debug_focus (Some [Some ''d'', None]) st = Inr st' \<and>
    debugt \<lparr>can_alloc = \<lambda>_. True, junk = \<lambda>_. NUL\<rparr> st' ''c'' ''up'' ''up'' = Inr (Some (''+ c: up'' @ [LF]))"
proof -
  have start: "length (focus_tags log_start) = 200" "length [''a'', ''b'', ''c''] \<le> 8" "\<forall>s \<in> set [''a'', ''b'', ''c'']. short_tag s"
    by (simp_all add: log_start_def short_tag_def)
  obtain st where st: "debug_focus (Some (map Some [''a'', ''b'', ''c''] @ [None])) log_start = Inr st"
      "length (focus_tags st) = 200" "\<forall>k < length [''a'', ''b'', ''c'']. row_holds (focus_tags st) k ([''a'', ''b'', ''c''] ! k)"
      "row_holds (focus_tags st) (length [''a'', ''b'', ''c'']) []"
      "\<forall>j > length [''a'', ''b'', ''c'']. row j (focus_tags st) = row j (focus_tags log_start)"
    by (rule debug_focus_rows [OF start])
  have "row_holds (focus_tags log_start) i []" if "i < 8" for i
    using that by (simp add: row_holds_def row_def log_start_def) (simp add: numeral_eq_Suc)
  moreover have same: "row_holds (focus_tags st) i s \<longleftrightarrow> row_holds (focus_tags log_start) i s" if "3 < i" for i s
    using st(5) that by (simp add: row_holds_def)
  moreover have "row_holds (focus_tags st) 3 []" "\<forall>k < 3. \<exists>s. row_holds (focus_tags st) k s"
    using st(3,4) by (simp_all add: eval_nat_numeral) blast
  ultimately have "\<exists>s. row_holds (focus_tags st) i s" if "i < 8" for i
    using that by (cases i "3 :: nat" rule: linorder_cases) blast+
  then show ?thesis
    using old_tags_stay_in_focus [OF st(2), of "[''d'']" 2 "''c''" "\<lparr>can_alloc = \<lambda>_. True, junk = \<lambda>_. NUL\<rparr>" "''up''" "''up''"]
      st(1) st(3) [rule_format, of 2]
    by (auto simp: short_tag_def)
qed

text \<open>The documented way to end focusing, passing the null pointer, dereferences it.\<close>

theorem focus_cannot_be_disabled: "debug_focus None st = Inl Null_deref"
  by (simp add: debug_focus_def)

text \<open>\<open>print_bytes\<close> gives two digits for a byte below 128 and eight for the others; a line end comes twice.\<close>

lemma length_hex_nat: "16 ^ m \<le> n \<Longrightarrow> n < 16 ^ Suc m \<Longrightarrow> length (hex_nat n) = Suc m"
proof (induction m arbitrary: n)
  case 0
  then show ?case by (simp add: hex_nat.simps)
next
  case (Suc m)
  then have "16 ^ m \<le> n div 16" "n div 16 < 16 ^ Suc m" by (simp_all add: less_mult_imp_div_less div_le_mono [of "16 * 16 ^ m" n 16, simplified])
  moreover have "\<not> n < 16" using Suc.prems(1) by (simp add: not_less) (metis mult_le_mono2 one_le_numeral one_le_power mult_1_right order_trans)
  ultimately show ?case using Suc.IH [of "n div 16"] by (simp add: hex_nat.simps [of n])
qed

theorem print_02x_length: "length (print_02x c) = (if (of_char c :: nat) < 128 then 2 else 8)"
proof -
  let ?k = "of_char c :: nat"
  have "?k < 256" by simp
  moreover have "length (hex_nat ?k) = 1" if "?k < 16" using that by (simp add: hex_nat.simps)
  moreover have "length (hex_nat ?k) = 2" if "16 \<le> ?k" "?k < 256" using that length_hex_nat [of 1 ?k] by simp
  moreover have "length (hex_nat (2 ^ 32 - 256 + ?k)) = 8" if "?k < 256" using that length_hex_nat [of 7 "2 ^ 32 - 256 + ?k"] by simp
  ultimately show ?thesis by (cases "?k < 16") (simp_all add: print_02x_def Let_def not_less)
qed

end
