(* ===== verification/Runner.thy ===== *)
theory Runner
  imports Judge_Types Compare Config Template Log
begin

text \<open>
  The runner (\<open>src/runner.c\<close>): its configuration, the start of the template process, the loop that feeds a
  submission and checks its output (\<open>jug_runner_run\<close>), and the verdict (\<open>jug_runner_judge\<close>). The loop is
  driven by what three system calls answer: each call of \<open>waitpid\<close>, \<open>sendfile\<close> and \<open>read\<close> takes the next
  answer from a list. A list that is used up means that the loop is still running: the result is then
  \<open>None\<close>, so that a statement about a result says that the loop ends. The checker is the function the
  code reaches through the pointer \<open>g_runner->compare_output\<close>; \<open>'f\<close> is the state it keeps. A fault inside the
  loop ends it and is kept in the state (\<open>run_fault\<close>): the only one is that of \<open>debugt\<close>, when the output of the
  submission is shown.
\<close>

section \<open>Configuration\<close>

record Runner =
  kill_on_compout :: int
  show_submission_output :: int
  stack_size_mb :: int
  output_size_limit_mb_default :: int
  nbr_instances :: int
  count_submissions :: int
  count_submissions_success :: int

definition runner_keys :: "string list" where
  "runner_keys = [''stack_size_mb'', ''kill_on_compout'', ''show_submission_output'', ''output_size_limit_mb'']"

definition jug_runner_init :: "config_env \<Rightarrow> config_state \<Rightarrow> (int \<times> Runner option \<times> config_state) c_result" where
  "jug_runner_init env st =
     c_then (read_settings (jug_get_config env ''Executer'') (can_alloc (conf_mem env) 40) runner_keys st)
       (\<lambda>(vs, st'). case vs of
           Some [stack, kill, show, out] \<Rightarrow>
             Inr (0, Some \<lparr>kill_on_compout = atoi_str kill, show_submission_output = atoi_str show,
               stack_size_mb = atoi_str stack, output_size_limit_mb_default = atoi_str out, nbr_instances = 0, count_submissions = 0,
               count_submissions_success = 0\<rparr>, st')
         | _ \<Rightarrow> Inr (-1, None, st'))"

section \<open>The template process\<close>

definition THREADS_MAX :: int where "THREADS_MAX = 24"

text \<open>What the system calls of \<open>jug_runner_template_init\<close> answer; \<open>pipe_ok k\<close> is for the \<open>k\<close>-th \<open>pipe\<close>.\<close>

record template_env =
  pipe_ok :: "nat \<Rightarrow> bool"
  mutex_ok :: bool
  shmget_ok :: bool
  shmat_ok :: bool
  stack_ok :: bool
  clone_pid :: int

text \<open>The return value and \<open>template_pid\<close>. A failing \<open>shmat\<close> returns \<open>(void*)-1\<close>, which the code compares with
  \<open>NULL\<close> and then writes to.\<close>

definition jug_runner_template_init :: "template_env \<Rightarrow> int \<Rightarrow> (int \<times> int) c_result" where
  "jug_runner_template_init w threads_max =
     (let n = nat threads_max in
      if threads_max > THREADS_MAX then Inr (-5, -1)
      else if \<exists>k < 2 * n. \<not> pipe_ok w k then Inr (-4, -1)
      else if \<not> pipe_ok w (2 * n) then Inr (-3, -1)
      else if \<not> pipe_ok w (2 * n + 1) then Inr (-3, -1)
      else if \<not> mutex_ok w then Inr (-3, -1)
      else if \<not> shmget_ok w then Inr (-1, -1)
      else if \<not> shmat_ok w then Inl Buffer_overflow
      else if \<not> stack_ok w then Inr (-1, -1)
      else if clone_pid w = -1 then Inr (-2, -1)
      else Inr (0, clone_pid w))"

text \<open>\<open>template_pid\<close> after \<open>jug_runner_template_term\<close>, and whether a process is killed.\<close>

definition jug_runner_template_term :: "int \<Rightarrow> int \<times> bool" where
  "jug_runner_template_term template_pid = (-1, template_pid > 0)"

section \<open>Running a submission\<close>

datatype wait_event = No_change | Wait_error | Exited "8 word" | Signaled | Other_event
datatype send_event = Sent nat | Send_again | Send_error
datatype read_event = Got string | Eof | Read_again | Read_error

record run_conf =
  cnfg_kill_on_compout :: bool
  output_limit_mb :: int
  datasource_size :: int
  show_output :: bool
  run_log :: log_state      \<comment> \<open>the tags \<open>debugt\<close> is focused on\<close>
  run_mem :: allocator      \<comment> \<open>where \<open>debugt\<close> takes its memory from\<close>

record 'f run_state =
  waits :: "wait_event list"
  sends :: "send_event list"
  reads :: "read_event list"
  ref :: 'f
  received_bytes :: int
  compare_stage :: int
  endoffile :: bool
  compout_detected :: bool
  spawn_succeeded :: bool
  watcher_alive :: bool
  were_done :: bool
  ds_sent_acc :: int
  watcher_result :: "int option"               \<comment> \<open>\<open>None\<close>: uninitialised\<close>
  comp_result :: "jug_sandbox_result option"   \<comment> \<open>\<open>None\<close>: uninitialised\<close>
  sigusr2_sent :: nat
  run_fault :: "c_fault option"

definition run_start :: "wait_event list \<Rightarrow> send_event list \<Rightarrow> read_event list \<Rightarrow> 'f \<Rightarrow> 'f run_state" where
  "run_start ws ss rs f = \<lparr>waits = ws, sends = ss, reads = rs, ref = f, received_bytes = 0,
     compare_stage = 0, endoffile = False, compout_detected = False, spawn_succeeded = True,
     watcher_alive = True, were_done = False, ds_sent_acc = 0, watcher_result = None,
     comp_result = None, sigusr2_sent = 0, run_fault = None\<rparr>"

text \<open>\<open>pull watcher state\<close>. The exit status is read into a \<open>char\<close>: a negative one says that the watcher failed
  before it started the submission.\<close>

definition watcher_event :: "wait_event \<Rightarrow> 'f run_state \<Rightarrow> 'f run_state" where
  "watcher_event e st = (case e of
       No_change \<Rightarrow> st
     | Wait_error \<Rightarrow> st\<lparr>watcher_alive := False\<rparr>
     | Exited status \<Rightarrow>
         (let exit_code = sint status in
          if exit_code < 0 then st\<lparr>spawn_succeeded := False, watcher_alive := False\<rparr>
          else st\<lparr>watcher_result := Some exit_code, watcher_alive := False\<rparr>)
     | Signaled \<Rightarrow> st\<lparr>watcher_result := Some (result_int JS_UNKNOWN), watcher_alive := False\<rparr>
     | Other_event \<Rightarrow> st\<lparr>watcher_result := Some (result_int JS_UNKNOWN), watcher_alive := False\<rparr>)"

definition pull_watcher :: "'f run_state \<Rightarrow> 'f run_state option" where
  "pull_watcher st =
     (if \<not> watcher_alive st then Some st
      else case waits st of [] \<Rightarrow> None | e # es \<Rightarrow> Some (watcher_event e (st\<lparr>waits := es\<rparr>)))"

definition kill_if :: "bool \<Rightarrow> 'f run_state \<Rightarrow> 'f run_state" where
  "kill_if b st = (if b then st\<lparr>sigusr2_sent := Suc (sigusr2_sent st)\<rparr> else st)"

text \<open>\<open>write to the watcher\<close>.\<close>

definition feed_watcher :: "run_conf \<Rightarrow> 'f run_state \<Rightarrow> 'f run_state option" where
  "feed_watcher cf st =
     (if ds_sent_acc st < datasource_size cf then
        (case sends st of
           [] \<Rightarrow> None
         | Sent n # ss \<Rightarrow> Some (st\<lparr>sends := ss, ds_sent_acc := int32 (ds_sent_acc st + int n)\<rparr>)
         | Send_again # ss \<Rightarrow> Some (st\<lparr>sends := ss\<rparr>)
         | Send_error # ss \<Rightarrow> Some (kill_if (cnfg_kill_on_compout cf)
             (st\<lparr>sends := ss, comp_result := Some JS_PIPE_ERROR, compout_detected := True\<rparr>)))
      else Some st)"

definition classify :: "int \<Rightarrow> jug_sandbox_result" where
  "classify nequal = (if nequal = 0 then JS_CORRECT else if nequal > 0 then JS_WRONG else JS_COMP_ERROR)"

definition c_quot :: "int \<Rightarrow> int \<Rightarrow> int" where
  "c_quot a b = (if a < 0 then - ((- a) div b) else a div b)"

text \<open>Some bytes have been read.\<close>

definition check_piece ::
  "('f \<Rightarrow> string \<Rightarrow> int \<Rightarrow> int \<times> 'f) \<Rightarrow> run_conf \<Rightarrow> string \<Rightarrow> 'f run_state \<Rightarrow> 'f run_state" where
  "check_piece cmp cf d st =
     (case cmp (ref st) d (compare_stage st) of (nequal, f) \<Rightarrow>
      let st1 = st\<lparr>ref := f, comp_result := Some (classify nequal), compare_stage := compare_stage st + 1\<rparr>;
          st2 = (if nequal \<noteq> 0
                 then kill_if (cnfg_kill_on_compout cf) (st1\<lparr>compout_detected := True\<rparr>) else st1);
          received = int32 (received_bytes st + int (length d));
          st3 = st2\<lparr>received_bytes := received\<rparr> in
      if c_quot received 1000000 > output_limit_mb cf
      then kill_if True (st3\<lparr>comp_result := Some JS_OUTPUTLIMIT\<rparr>) else st3)"

text \<open>The last call of the checker, at the end of the output.\<close>

definition check_end :: "('f \<Rightarrow> string \<Rightarrow> int \<Rightarrow> int \<times> 'f) \<Rightarrow> 'f run_state \<Rightarrow> 'f run_state" where
  "check_end cmp st = (case cmp (ref st) [] (-1) of (nequal, f) \<Rightarrow>
     st\<lparr>ref := f, comp_result := Some (classify nequal)\<rparr>)"

text \<open>With \<open>show_submission_output\<close> what \<open>read\<close> has stored is terminated and goes through \<open>debugt("stdout", "%s", buffer)\<close>, whose
  block has 128 bytes; \<open>read\<close> stores up to 255.\<close>

definition show_piece :: "run_conf \<Rightarrow> string \<Rightarrow> c_fault option" where
  "show_piece cf d =
     (if \<not> show_output cf then None
      else case debugt (run_mem cf) (run_log cf) ''stdout'' ''%s'' (cstr d) of Inl x \<Rightarrow> Some x | Inr _ \<Rightarrow> None)"

definition show_event :: "run_conf \<Rightarrow> read_event \<Rightarrow> c_fault option" where
  "show_event cf e = (case e of Got d \<Rightarrow> show_piece cf d | Eof \<Rightarrow> show_piece cf [] | _ \<Rightarrow> None)"

text \<open>\<open>process's available output\<close>: the new state, and whether the loop is left by \<open>break\<close>. \<open>check_output\<close> is the part
  without the branch that shows the output.\<close>

definition check_output ::
  "('f \<Rightarrow> string \<Rightarrow> int \<Rightarrow> int \<times> 'f) \<Rightarrow> run_conf \<Rightarrow> 'f run_state \<Rightarrow> ('f run_state \<times> bool) option" where
  "check_output cmp cf st =
     (if endoffile st \<or> compout_detected st then Some (st, \<not> watcher_alive st)
      else case reads st of
        [] \<Rightarrow> None
      | e # es \<Rightarrow> Some (let st1 = st\<lparr>reads := es\<rparr> in (case e of
            Got d \<Rightarrow> (if d = [] then check_end cmp (st1\<lparr>endoffile := True\<rparr>) else check_piece cmp cf d st1)
          | Eof \<Rightarrow> check_end cmp (st1\<lparr>endoffile := True\<rparr>)
          | Read_again \<Rightarrow> (if \<not> watcher_alive st1 then check_end cmp (st1\<lparr>were_done := True\<rparr>) else st1)
          | Read_error \<Rightarrow> kill_if (cnfg_kill_on_compout cf)
              (st1\<lparr>comp_result := Some JS_PIPE_ERROR, compout_detected := True\<rparr>)), False))"

definition take_output ::
  "('f \<Rightarrow> string \<Rightarrow> int \<Rightarrow> int \<times> 'f) \<Rightarrow> run_conf \<Rightarrow> 'f run_state \<Rightarrow> ('f run_state \<times> bool) option" where
  "take_output cmp cf st =
     (case (if endoffile st \<or> compout_detected st \<or> reads st = [] then None else show_event cf (hd (reads st))) of
        Some x \<Rightarrow> Some (st\<lparr>reads := tl (reads st), run_fault := Some x\<rparr>, True)
      | None \<Rightarrow> check_output cmp cf st)"

definition run_iteration ::
  "('f \<Rightarrow> string \<Rightarrow> int \<Rightarrow> int \<times> 'f) \<Rightarrow> run_conf \<Rightarrow> 'f run_state \<Rightarrow> ('f run_state \<times> bool) option" where
  "run_iteration cmp cf st = (case pull_watcher st of
       None \<Rightarrow> None
     | Some st1 \<Rightarrow> (case feed_watcher cf st1 of None \<Rightarrow> None | Some st2 \<Rightarrow> take_output cmp cf st2))"

definition events_left :: "'f run_state \<Rightarrow> nat" where
  "events_left st = length (waits st) + length (reads st)"

lemmas run_defs = run_iteration_def pull_watcher_def watcher_event_def feed_watcher_def take_output_def
  check_output_def check_end_def check_piece_def kill_if_def

lemma pull_watcher_shape:
  "pull_watcher st = Some st1 \<Longrightarrow> reads st1 = reads st \<and>
     (if watcher_alive st then length (waits st1) < length (waits st) else st1 = st)"
  by (auto simp: pull_watcher_def watcher_event_def Let_def split: list.splits wait_event.splits if_splits)

lemma feed_watcher_shape:
  "feed_watcher cf st = Some st1 \<Longrightarrow> reads st1 = reads st \<and> waits st1 = waits st \<and>
     watcher_alive st1 = watcher_alive st \<and> endoffile st1 = endoffile st"
  by (auto simp: feed_watcher_def kill_if_def split: list.splits send_event.splits if_splits)

lemma check_output_shape:
  "check_output cmp cf st = Some (st1, brk) \<Longrightarrow> waits st1 = waits st \<and> length (reads st1) \<le> length (reads st) \<and>
     (length (reads st1) < length (reads st) \<or> brk = (\<not> watcher_alive st))"
  by (auto simp: check_output_def check_end_def check_piece_def kill_if_def Let_def
      split: list.splits read_event.splits if_splits prod.splits)

lemma take_output_cases:
  assumes "take_output cmp cf st = Some (st1, brk)"
  shows "check_output cmp cf st = Some (st1, brk) \<or>
    (\<exists>x e es. reads st = e # es \<and> \<not> endoffile st \<and> \<not> compout_detected st \<and> show_event cf e = Some x \<and>
       st1 = st\<lparr>reads := es, run_fault := Some x\<rparr> \<and> brk)"
  using assms by (cases "reads st") (auto simp: take_output_def split: option.splits if_splits)

lemma take_output_shape:
  "take_output cmp cf st = Some (st1, brk) \<Longrightarrow> waits st1 = waits st \<and> length (reads st1) \<le> length (reads st) \<and>
     (length (reads st1) < length (reads st) \<or> brk = (\<not> watcher_alive st))"
  by (auto dest!: take_output_cases check_output_shape)

lemma check_output_fault: "check_output cmp cf st = Some (st1, brk) \<Longrightarrow> run_fault st1 = run_fault st"
  by (auto simp: check_output_def check_end_def check_piece_def kill_if_def Let_def
      split: list.splits read_event.splits if_splits prod.splits)

lemma take_output_fault:
  "take_output cmp cf st = Some (st1, brk) \<Longrightarrow> run_fault st = None \<Longrightarrow> run_fault st1 \<noteq> None \<Longrightarrow> brk"
  by (auto dest!: take_output_cases check_output_fault)

text \<open>Nothing is shown, or what is shown fits.\<close>

lemma take_output_unshown:
  "(\<And>e es. reads st = e # es \<Longrightarrow> show_event cf e = None) \<Longrightarrow> take_output cmp cf st = check_output cmp cf st"
  by (cases "reads st") (auto simp: take_output_def)

lemma show_event_simps [simp]:
  "show_event cf Read_again = None" "show_event cf Read_error = None" "show_event cf (Got d) = show_piece cf d"
  "show_event cf Eof = show_piece cf []"
  by (simp_all add: show_event_def)

lemma show_piece_off [simp]: "\<not> show_output cf \<Longrightarrow> show_piece cf d = None"
  by (simp add: show_piece_def)

lemma show_piece_unfocused:
  assumes "show_output cf" "\<not> is_focus_tags (run_log cf)" "can_alloc (run_mem cf) 128"
  shows "show_piece cf d = (if length (cstr d) < 128 then None else Some Buffer_overflow)"
  using assms by (simp add: show_piece_def debugt_def)

lemma run_iteration_shorter:
  "run_iteration cmp cf st = Some (st', False) \<Longrightarrow> events_left st' < events_left st"
  by (auto simp: run_iteration_def events_left_def split: option.splits
      dest!: pull_watcher_shape feed_watcher_shape take_output_shape split: if_splits)

function run_loop ::
  "('f \<Rightarrow> string \<Rightarrow> int \<Rightarrow> int \<times> 'f) \<Rightarrow> run_conf \<Rightarrow> 'f run_state \<Rightarrow> 'f run_state option" where
  "run_loop cmp cf st =
     (if were_done st then Some st
      else case run_iteration cmp cf st of
        None \<Rightarrow> None
      | Some (st', brk) \<Rightarrow> if brk then Some st' else run_loop cmp cf st')"
  by pat_completeness auto
termination
  by (relation "measure (\<lambda>(cmp, cf, st). events_left st)") (auto dest: run_iteration_shorter)

declare run_loop.simps [simp del]

text \<open>The result after the loop.\<close>

definition final_result :: "'f run_state \<Rightarrow> int c_result" where
  "final_result st =
     (if run_fault st \<noteq> None then Inl (the (run_fault st))
      else if spawn_succeeded st then
        (case watcher_result st of
           None \<Rightarrow> Inl Uninitialised
         | Some w \<Rightarrow> if w = result_int JS_CORRECT then
               (case comp_result st of None \<Rightarrow> Inl Uninitialised | Some c \<Rightarrow> Inr (result_int c))
             else Inr w)
      else Inr (result_int JS_UNKNOWN))"

text \<open>The loops that empty the two pipes: whether they succeed, \<open>None\<close> while they are running. The first one
  ends after 10001 reads in a row that find nothing; the second one only when everything has been sent.\<close>

fun flush_out :: "read_event list \<Rightarrow> nat \<Rightarrow> bool option" where
  "flush_out [] b = None"
| "flush_out (Got d # rs) b = (if d = [] then Some True else flush_out rs 0)"
| "flush_out (Eof # rs) b = Some True"
| "flush_out (Read_again # rs) b = (if Suc b > 10000 then Some True else flush_out rs (Suc b))"
| "flush_out (Read_error # rs) b = Some False"

fun flush_in :: "send_event list \<Rightarrow> int \<Rightarrow> int \<Rightarrow> bool option" where
  "flush_in [] acc total_size = None"
| "flush_in (Sent n # ss) acc total_size =
     (let acc1 = int32 (acc + int n) in if acc1 \<ge> total_size then Some True else flush_in ss acc1 total_size)"
| "flush_in (Send_again # ss) acc total_size = (if acc \<ge> total_size then Some True else flush_in ss acc total_size)"
| "flush_in (Send_error # ss) acc total_size = Some False"

section \<open>A run and its verdict\<close>

record run_params =
  mem_limit_mb :: int
  time_limit_ms :: int
  rp_datasource_size :: int
  watcher_pid :: int
  result :: "int option"     \<comment> \<open>\<open>None\<close>: not set\<close>

text \<open>What a run meets: whether \<open>malloc\<close> succeeds, the pid the template answers, whether the two descriptors are valid, the answers of
  the system calls in the loop and in the two loops after it, and what \<open>debugt\<close> meets.\<close>

record run_world =
  rw_alloc :: bool
  rw_pid :: int
  rw_in_pipe_ok :: bool
  rw_datasource_ok :: bool
  rw_waits :: "wait_event list"
  rw_sends :: "send_event list"
  rw_reads :: "read_event list"
  rw_flush_reads :: "read_event list"
  rw_flush_sends :: "send_event list"
  rw_log :: log_state
  rw_mem :: allocator

definition run_conf_of :: "Runner \<Rightarrow> run_world \<Rightarrow> int \<Rightarrow> run_conf" where
  "run_conf_of g w ds = \<lparr>cnfg_kill_on_compout = (kill_on_compout g mod 2 ^ 16 \<noteq> 0),
     output_limit_mb = output_size_limit_mb_default g, datasource_size = ds,
     show_output = (show_submission_output g \<noteq> 0), run_log = rw_log w, run_mem = rw_mem w\<rparr>"

definition with_limits :: "int \<Rightarrow> int \<Rightarrow> run_params \<Rightarrow> run_params" where
  "with_limits mem_default time_default rp =
     rp\<lparr>mem_limit_mb := (if mem_limit_mb rp < 0 then mem_default else mem_limit_mb rp),
        time_limit_ms := (if time_limit_ms rp < 0 then time_default else time_limit_ms rp)\<rparr>"

text \<open>The return value and the parameters with the result; \<open>None\<close> while running. The pipes of the thread
  are taken from arrays of \<open>THREADS_MAX\<close> entries. A failed clone is answered with \<open>-2\<close>, but only \<open>-1\<close> is
  noticed.\<close>

definition jug_runner_run ::
  "('f \<Rightarrow> string \<Rightarrow> int \<Rightarrow> int \<times> 'f) \<Rightarrow> Runner \<Rightarrow> int \<times> int \<Rightarrow> run_world \<Rightarrow> 'f \<Rightarrow> int \<Rightarrow> run_params \<Rightarrow>
     (int \<times> run_params) option c_result" where
  "jug_runner_run cmp g limits w f thread_order rp =
     (let rp1 = with_limits (fst limits) (snd limits) rp;
          rp2 = rp1\<lparr>watcher_pid := rw_pid w\<rparr>;
          cf = run_conf_of g w (rp_datasource_size rp) in
      if thread_order < 0 \<or> thread_order \<ge> THREADS_MAX then Inl Out_of_bounds
      else if \<not> rw_alloc w then Inl Null_deref
      else if rw_pid w = -1 then Inr (Some (-2, rp2))
      else if \<not> rw_in_pipe_ok w then Inr (Some (-3, rp2))
      else if \<not> rw_datasource_ok w then Inr (Some (-3, rp2))
      else case run_loop cmp cf (run_start (rw_waits w) (rw_sends w) (rw_reads w) f) of
        None \<Rightarrow> Inr None
      | Some st \<Rightarrow> c_then (final_result st) (\<lambda>r.
          case flush_out (rw_flush_reads w) 0 of
            None \<Rightarrow> Inr None
          | Some False \<Rightarrow> Inr (Some (0, rp2\<lparr>result := Some (result_int JS_UNKNOWN)\<rparr>))
          | Some True \<Rightarrow>
              (case flush_in (rw_flush_sends w) (ds_sent_acc st) (rp_datasource_size rp) of
                 None \<Rightarrow> Inr None
               | Some False \<Rightarrow> Inr (Some (0, rp2\<lparr>result := Some (result_int JS_UNKNOWN)\<rparr>))
               | Some True \<Rightarrow> Inr (Some (0, rp2\<lparr>result := Some r\<rparr>)))))"

text \<open>The \<open>switch\<close> of \<open>jug_runner_judge\<close>; the last line is its default.\<close>

definition verdict_of_result :: "int \<Rightarrow> jug_verdict_enum" where
  "verdict_of_result r =
     (if r = result_int JS_CORRECT then VERDICT_ACCEPTED
      else if r = result_int JS_WRONG then VERDICT_WRONG
      else if r = result_int JS_TIMELIMIT \<or> r = result_int JS_WALL_TIMELIMIT then VERDICT_TIMELIMIT
      else if r = result_int JS_OUTPUTLIMIT then VERDICT_OUTPUTLIMIT
      else if r = result_int JS_RUNTIME then VERDICT_RUNTIME
      else if r = result_int JS_PIPE_ERROR \<or> r = result_int JS_COMP_ERROR \<or> r = result_int JS_UNKNOWN
      then VERDICT_INTERNAL
      else VERDICT_INTERNAL)"

record jug_submission =
  thread_id :: int
  bin_path :: string
  input_size :: int

text \<open>\<open>in_ok\<close>, \<open>right_ok\<close>: the two \<open>open\<close> calls succeed. The path is copied into \<open>malloc(99)\<close>. Between the run and the \<open>switch\<close> the
  code compares its variable \<open>result\<close>, which has not been set yet, to decide whether to print a debugging message; the
  verdict does not depend on it, and the message is left out.\<close>

definition jug_runner_judge ::
  "('f \<Rightarrow> string \<Rightarrow> int \<Rightarrow> int \<times> 'f) \<Rightarrow> Runner \<Rightarrow> int \<times> int \<Rightarrow> int \<Rightarrow> run_world \<Rightarrow> bool \<Rightarrow> bool \<Rightarrow> 'f \<Rightarrow>
     jug_submission \<Rightarrow> jug_verdict_enum option c_result" where
  "jug_runner_judge cmp g limits use_ERFS w in_ok right_ok f sub =
     (if \<not> in_ok \<or> \<not> right_ok then Inr (Some VERDICT_INTERNAL)
      else if use_ERFS = 1 then Inr (Some VERDICT_INTERNAL)
      else if \<not> rw_alloc w then Inl Null_deref
      else if length (bin_path sub) + 1 > 99 then Inl Buffer_overflow
      else c_then (jug_runner_run cmp g limits w f (thread_id sub)
          \<lparr>mem_limit_mb = -1, time_limit_ms = -1, rp_datasource_size = input_size sub, watcher_pid = 0,
           result = None\<rparr>) (\<lambda>r. case r of
            None \<Rightarrow> Inr None
          | Some (ret, rp) \<Rightarrow>
              if ret \<noteq> 0 then Inr (Some VERDICT_INTERNAL)
              else case result rp of None \<Rightarrow> Inl Uninitialised | Some z \<Rightarrow> Inr (Some (verdict_of_result z))))"

section \<open>Laws: a correct result means that every piece was accepted\<close>

primrec accept_run ::
  "('f \<Rightarrow> string \<Rightarrow> int \<Rightarrow> int \<times> 'f) \<Rightarrow> 'f \<Rightarrow> nat \<Rightarrow> string list \<Rightarrow> 'f option" where
  "accept_run cmp f n [] = Some f"
| "accept_run cmp f n (x # xs) =
     (case cmp f x (int n) of (r, f') \<Rightarrow> if r = 0 then accept_run cmp f' (Suc n) xs else None)"

lemma accept_run_snoc: "accept_run cmp f n (xs @ [x]) =
    (case accept_run cmp f n xs of None \<Rightarrow> None
     | Some f1 \<Rightarrow> (case cmp f1 x (int (n + length xs)) of (r, f') \<Rightarrow> if r = 0 then Some f' else None))"
  by (induction xs arbitrary: f n) (auto split: prod.splits option.splits)

lemma judge_pieces_accept: "judge_pieces cmp f n xs \<longleftrightarrow>
    (\<exists>f'. accept_run cmp f n xs = Some f' \<and> fst (cmp f' [] (-1)) = 0)"
  by (induction xs arbitrary: f n) (auto split: prod.splits)

text \<open>The pieces of output among the answers of \<open>read\<close>.\<close>

definition pieces :: "read_event list \<Rightarrow> string list" where
  "pieces rs = concat (map (\<lambda>e. case e of Got d \<Rightarrow> if d = [] then [] else [d] | _ \<Rightarrow> []) rs)"

lemma pieces_simps [simp]:
  "pieces [] = []" "pieces (rs @ ss) = pieces rs @ pieces ss" "pieces [Eof] = []"
  "pieces [Read_again] = []" "pieces [Read_error] = []" "pieces [Got d] = (if d = [] then [] else [d])"
  by (simp_all add: pieces_def)

definition run_inv ::
  "('f \<Rightarrow> string \<Rightarrow> int \<Rightarrow> int \<times> 'f) \<Rightarrow> 'f \<Rightarrow> wait_event list \<Rightarrow> read_event list \<Rightarrow> 'f run_state \<Rightarrow> bool" where
  "run_inv cmp f ws rs st \<longleftrightarrow>
     (\<exists>before. rs = before @ reads st \<and>
        (\<not> endoffile st \<and> \<not> compout_detected st \<and> \<not> were_done st \<longrightarrow>
           accept_run cmp f 0 (pieces before) = Some (ref st) \<and>
           compare_stage st = int (length (pieces before))) \<and>
        ((endoffile st \<or> were_done st) \<and> comp_result st = Some JS_CORRECT \<longrightarrow>
           judge_pieces cmp f 0 (pieces before))) \<and>
     (compout_detected st \<longrightarrow> comp_result st \<noteq> Some JS_CORRECT) \<and>
     set (waits st) \<subseteq> set ws \<and> (watcher_result st = Some 0 \<longrightarrow> Exited 0 \<in> set ws)"

lemma kill_if_fields [simp]:
  "reads (kill_if b st) = reads st" "endoffile (kill_if b st) = endoffile st"
  "were_done (kill_if b st) = were_done st" "ref (kill_if b st) = ref st"
  "compare_stage (kill_if b st) = compare_stage st" "compout_detected (kill_if b st) = compout_detected st"
  "waits (kill_if b st) = waits st" "watcher_result (kill_if b st) = watcher_result st"
  "ds_sent_acc (kill_if b st) = ds_sent_acc st" "watcher_alive (kill_if b st) = watcher_alive st"
  "spawn_succeeded (kill_if b st) = spawn_succeeded st" "comp_result (kill_if b st) = comp_result st"
  "run_fault (kill_if b st) = run_fault st"
  by (simp_all add: kill_if_def)

lemma run_inv_start: "run_inv cmp f ws rs (run_start ws ss rs f)"
  by (auto simp: run_inv_def run_start_def)

lemma sint_byte_0: "sint (b :: 8 word) = 0 \<longleftrightarrow> b = 0"
  by (rule signed_eq_0_iff)

lemma run_inv_pull:
  assumes "run_inv cmp f ws rs st" "pull_watcher st = Some st1"
  shows "run_inv cmp f ws rs st1"
proof -
  have "reads st1 = reads st \<and> endoffile st1 = endoffile st \<and> compout_detected st1 = compout_detected st \<and>
      were_done st1 = were_done st \<and> ref st1 = ref st \<and> compare_stage st1 = compare_stage st \<and>
      comp_result st1 = comp_result st \<and> set (waits st1) \<subseteq> set (waits st) \<and>
      (watcher_result st1 = Some 0 \<longrightarrow> watcher_result st = Some 0 \<or> Exited 0 \<in> set (waits st))"
    using assms(2)
    by (auto simp: pull_watcher_def watcher_event_def Let_def sint_byte_0
        split: list.splits wait_event.splits if_splits)
  then show ?thesis using assms(1) unfolding run_inv_def
    by (elim conjE) (simp, blast)
qed

lemma run_inv_feed:
  assumes "run_inv cmp f ws rs st" "feed_watcher cf st = Some st1"
  shows "run_inv cmp f ws rs st1"
proof -
  have "reads st1 = reads st \<and> endoffile st1 = endoffile st \<and> were_done st1 = were_done st \<and>
      ref st1 = ref st \<and> compare_stage st1 = compare_stage st \<and> waits st1 = waits st \<and>
      watcher_result st1 = watcher_result st \<and>
      (comp_result st1 = comp_result st \<and> compout_detected st1 = compout_detected st \<or>
       comp_result st1 = Some JS_PIPE_ERROR \<and> compout_detected st1)"
    using assms(2)
    by (auto simp: feed_watcher_def kill_if_def split: list.splits send_event.splits if_splits)
  then show ?thesis using assms(1) unfolding run_inv_def
    by (elim conjE disjE; simp; blast)
qed

lemma classify_correct [simp]: "classify n = JS_CORRECT \<longleftrightarrow> n = 0"
  by (simp add: classify_def)

text \<open>The fields a step that has read something leaves behind.\<close>

lemma check_piece_fields:
  assumes "cmp (ref st) d (compare_stage st) = (n, f')" "st1 = check_piece cmp cf d st"
  shows "reads st1 = reads st" "endoffile st1 = endoffile st" "were_done st1 = were_done st" "ref st1 = f'"
    "compare_stage st1 = compare_stage st + 1" "compout_detected st1 = (compout_detected st \<or> n \<noteq> 0)"
    "waits st1 = waits st" "watcher_result st1 = watcher_result st" "ds_sent_acc st1 = ds_sent_acc st"
    "watcher_alive st1 = watcher_alive st" "spawn_succeeded st1 = spawn_succeeded st"
    "comp_result st1 = Some JS_CORRECT \<Longrightarrow> n = 0" "\<exists>c. comp_result st1 = Some c" "run_fault st1 = run_fault st"
  using assms by (simp_all add: check_piece_def Let_def split: if_splits)

lemma check_end_fields:
  assumes "st1 = check_end cmp st"
  shows "reads st1 = reads st" "endoffile st1 = endoffile st" "were_done st1 = were_done st"
    "compout_detected st1 = compout_detected st" "waits st1 = waits st"
    "watcher_result st1 = watcher_result st" "spawn_succeeded st1 = spawn_succeeded st"
    "\<exists>c. comp_result st1 = Some c \<and> (c = JS_CORRECT \<longleftrightarrow> fst (cmp (ref st) [] (-1)) = 0)" "run_fault st1 = run_fault st"
  using assms by (simp_all add: check_end_def split: prod.split)

lemma run_inv_check:
  assumes inv: "run_inv cmp f ws rs st" and out: "check_output cmp cf st = Some (st1, brk)"
    and nd: "\<not> were_done st"
  shows "run_inv cmp f ws rs st1 \<and> (brk \<longrightarrow> endoffile st1 \<or> compout_detected st1)"
proof (cases "endoffile st \<or> compout_detected st")
  case True
  then show ?thesis using inv out by (auto simp: check_output_def)
next
  case False
  then obtain e es where e: "reads st = e # es" using out by (cases "reads st") (auto simp: check_output_def)
  obtain before where b: "rs = before @ reads st" "accept_run cmp f 0 (pieces before) = Some (ref st)"
      "compare_stage st = int (length (pieces before))"
    using inv False nd by (auto simp: run_inv_def)
  have rs: "rs = (before @ [e]) @ es" using b(1) e by simp
  have w: "set (waits st) \<subseteq> set ws" "watcher_result st = Some 0 \<longrightarrow> Exited 0 \<in> set ws"
    using inv by (simp_all add: run_inv_def)
  have at_end: "run_inv cmp f ws rs (check_end cmp st2)"
    if "pieces [e] = []" "reads st2 = es" "ref st2 = ref st" "\<not> compout_detected st2"
      "endoffile st2 \<or> were_done st2" "waits st2 = waits st" "watcher_result st2 = watcher_result st" for st2
  proof -
    have "fst (cmp (ref st) [] (-1)) = 0 \<Longrightarrow> judge_pieces cmp f 0 (pieces (before @ [e]))"
      using that(1) b(2) by (simp add: judge_pieces_accept)
    then show ?thesis
      using that rs w check_end_fields [OF refl, of cmp st2] unfolding run_inv_def
      by (auto intro!: exI [of _ "before @ [e]"])
  qed
  let ?st = "st\<lparr>reads := es\<rparr>"
  consider d where "e = Got d" "d \<noteq> []" "st1 = check_piece cmp cf d ?st" |
      "pieces [e] = []" "st1 = check_end cmp (?st\<lparr>endoffile := True\<rparr>)" |
      "pieces [e] = []" "st1 = check_end cmp (?st\<lparr>were_done := True\<rparr>)" |
      "pieces [e] = []" "st1 = ?st" |
      "pieces [e] = []"
        "st1 = kill_if (cnfg_kill_on_compout cf) (?st\<lparr>comp_result := Some JS_PIPE_ERROR, compout_detected := True\<rparr>)"
    using out False e by (cases e) (auto simp: check_output_def Let_def split: if_splits)
  moreover have "\<not> brk" using out False e by (auto simp: check_output_def Let_def)
  moreover have "run_inv cmp f ws rs st1"
    if "pieces [e] = []" "st1 = ?st" using that rs w b nd False inv
    by (auto simp: run_inv_def intro!: exI [of _ "before @ [e]"])
  moreover have "run_inv cmp f ws rs st1" if "pieces [e] = []"
    "st1 = kill_if (cnfg_kill_on_compout cf) (?st\<lparr>comp_result := Some JS_PIPE_ERROR, compout_detected := True\<rparr>)"
    using that rs w by (auto simp: run_inv_def kill_if_def intro!: exI [of _ "before @ [e]"])
  moreover have "run_inv cmp f ws rs st1"
    if d: "e = Got d" "d \<noteq> []" "st1 = check_piece cmp cf d ?st" for d
  proof -
    obtain n f' where c: "cmp (ref ?st) d (compare_stage ?st) = (n, f')" by fastforce
    note fields = check_piece_fields [where st = ?st and cf = cf and cmp = cmp, OF c d(3)]
    have "accept_run cmp f 0 (pieces (before @ [e])) = Some f'" if "n = 0"
      using that d(1,2) b(2,3) c by (simp add: accept_run_snoc)
    then show ?thesis
      using fields(1-8,12) rs w nd False d(1,2) b(3) unfolding run_inv_def
      by (auto intro!: exI [of _ "before @ [e]"])
  qed
  ultimately show ?thesis
    using at_end [of "?st\<lparr>endoffile := True\<rparr>"] at_end [of "?st\<lparr>were_done := True\<rparr>"] False by cases auto
qed

lemma run_inv_output:
  assumes "run_inv cmp f ws rs st" "take_output cmp cf st = Some (st1, brk)" "\<not> were_done st" "run_fault st = None"
  shows "run_fault st1 \<noteq> None \<or>
    run_inv cmp f ws rs st1 \<and> run_fault st1 = None \<and> (brk \<longrightarrow> endoffile st1 \<or> compout_detected st1)"
  using take_output_cases [OF assms(2)]
proof
  assume "check_output cmp cf st = Some (st1, brk)"
  then show ?thesis using run_inv_check [OF assms(1) _ assms(3)] by auto
qed auto

lemma run_loop_inv:
  "run_loop cmp cf st = Some st' \<Longrightarrow> run_inv cmp f ws rs st \<Longrightarrow>
     run_fault st = None \<Longrightarrow> run_fault st' = None \<Longrightarrow>
     run_inv cmp f ws rs st' \<and> (were_done st' \<or> endoffile st' \<or> compout_detected st')"
proof (induction cmp cf st rule: run_loop.induct)
  case (1 cmp cf st)
  show ?case
  proof (cases "were_done st")
    case True
    then show ?thesis using 1 by (simp add: run_loop.simps [of cmp cf st])
  next
    case False
    then obtain st1 brk where it: "run_iteration cmp cf st = Some (st1, brk)"
        "(if brk then Some st1 else run_loop cmp cf st1) = Some st'"
      using 1(2) by (auto simp: run_loop.simps [of cmp cf st] split: option.splits)
    then obtain st2 st3 where "pull_watcher st = Some st2" "feed_watcher cf st2 = Some st3"
        "take_output cmp cf st3 = Some (st1, brk)"
      by (auto simp: run_iteration_def split: option.splits)
    moreover from this have st3: "\<not> were_done st3" "run_fault st3 = None"
      using False 1(4) by (auto simp: pull_watcher_def watcher_event_def feed_watcher_def kill_if_def Let_def
          split: list.splits wait_event.splits send_event.splits if_splits)
    ultimately have out: "run_fault st1 \<noteq> None \<and> brk \<or>
        run_inv cmp f ws rs st1 \<and> run_fault st1 = None \<and> (brk \<longrightarrow> endoffile st1 \<or> compout_detected st1)"
      using run_inv_output [OF run_inv_feed [OF run_inv_pull [OF 1(3)]] _ st3] take_output_fault by blast
    then show ?thesis using 1(1) [OF False it(1) refl] it(2) 1(5) by (cases brk) auto
  qed
qed

text \<open>The result \<open>JS_CORRECT\<close> has two reasons, and both are needed.\<close>

lemma correct_result:
  assumes "run_loop cmp cf (run_start ws ss rs f) = Some st" "final_result st = Inr (result_int JS_CORRECT)"
  shows "Exited 0 \<in> set ws \<and> (\<exists>before rest. rs = before @ rest \<and> judge_pieces cmp f 0 (pieces before))"
proof -
  have "run_fault st = None" using assms(2) by (auto simp: final_result_def split: if_splits)
  then have inv: "run_inv cmp f ws rs st" "were_done st \<or> endoffile st \<or> compout_detected st"
    using run_loop_inv [OF assms(1) run_inv_start] by (auto simp: run_start_def)
  have "watcher_result st = Some 0" "comp_result st = Some c \<Longrightarrow> result_int c = 0" "comp_result st \<noteq> None" for c
    using assms(2) by (auto simp: final_result_def split: option.splits if_splits)
  then have "watcher_result st = Some 0" "comp_result st = Some JS_CORRECT"
    by (auto) (metis int_result_int option.inject result_int.simps(1))
  then show ?thesis using inv by (auto simp: run_inv_def)
qed

section \<open>Laws: a run ends and decides\<close>

text \<open>The input can be sent: \<open>sendfile\<close> does not fail, answers at least \<open>n\<close> more calls, and never sends more than
  there is.\<close>

definition sent_total :: "send_event list \<Rightarrow> int" where
  "sent_total ss = sum_list (map (\<lambda>e. case e of Sent n \<Rightarrow> int n | _ \<Rightarrow> 0) ss)"

definition feeding :: "int \<Rightarrow> nat \<Rightarrow> 'f run_state \<Rightarrow> bool" where
  "feeding ds n st \<longleftrightarrow> 0 \<le> ds_sent_acc st \<and> ds_sent_acc st + sent_total (sends st) \<le> ds \<and> ds < 2 ^ 31 \<and>
     Send_error \<notin> set (sends st) \<and> n \<le> length (sends st)"

lemma sent_total_nonneg: "0 \<le> sent_total ss"
  unfolding sent_total_def by (induction ss) (auto split: send_event.split)

lemma feed_ok:
  assumes "feeding (datasource_size cf) (Suc n) st"
  obtains ss acc where "feed_watcher cf st = Some (st\<lparr>sends := ss, ds_sent_acc := acc\<rparr>)"
    "feeding (datasource_size cf) n (st\<lparr>sends := ss, ds_sent_acc := acc\<rparr>)"
proof (cases "ds_sent_acc st < datasource_size cf")
  case True
  obtain e ss where e: "sends st = e # ss" using assms by (cases "sends st") (auto simp: feeding_def)
  have e': "e \<noteq> Send_error" using assms e by (auto simp: feeding_def)
  show thesis
  proof (cases e)
    case (Sent k)
    have "int32 (ds_sent_acc st + int k) = ds_sent_acc st + int k"
      using assms e Sent sent_total_nonneg [of ss] by (simp add: feeding_def sent_total_def)
    then show thesis
      using assms e Sent True
      by (intro that [where ss = ss and acc = "ds_sent_acc st + int k"]) (auto simp: feed_watcher_def feeding_def sent_total_def)
  next
    case Send_again
    then show thesis
      using assms e True
      by (intro that [where ss = ss and acc = "ds_sent_acc st"]) (auto simp: feed_watcher_def feeding_def sent_total_def)
  qed (use e' in simp)
next
  case False
  then show thesis
    using assms by (intro that [where ss = "sends st" and acc = "ds_sent_acc st"]) (simp_all add: feed_watcher_def feeding_def)
qed

lemma feeding_fields [simp]:
  "feeding ds n (check_piece cmp cf d st) = feeding ds n st" "feeding ds n (check_end cmp st) = feeding ds n st"
  "feeding ds n (st\<lparr>reads := rs\<rparr>) = feeding ds n st" "feeding ds n (st\<lparr>waits := es\<rparr>) = feeding ds n st"
  "feeding ds n (st\<lparr>were_done := b\<rparr>) = feeding ds n st" "feeding ds n (st\<lparr>watcher_alive := b\<rparr>) = feeding ds n st"
  "feeding ds n (st\<lparr>watcher_result := w\<rparr>) = feeding ds n st"
  by (simp_all add: feeding_def check_piece_def check_end_def kill_if_def Let_def split: prod.split)

lemma feeding_less: "feeding ds n st \<Longrightarrow> m \<le> n \<Longrightarrow> feeding ds m st"
  by (simp add: feeding_def)

text \<open>What a finished run leaves: the watcher's result, and a comparison that is the checker's.\<close>

definition decided :: "int \<Rightarrow> int option \<Rightarrow> bool \<Rightarrow> bool \<Rightarrow> 'f run_state option \<Rightarrow> bool" where
  "decided ds res sp accept r \<longleftrightarrow> (\<exists>st c. r = Some st \<and> watcher_result st = res \<and>
     spawn_succeeded st = sp \<and> run_fault st = None \<and> feeding ds 0 st \<and> comp_result st = Some c \<and> (c = JS_CORRECT \<longleftrightarrow> accept))"

text \<open>A mismatch has been found and the watcher has ended: one iteration more, and the loop is left.\<close>

lemma run_mismatch:
  assumes "\<not> watcher_alive st" "compout_detected st" "\<not> were_done st" "feeding (datasource_size cf) (Suc n) st"
    and "comp_result st = Some c" "c \<noteq> JS_CORRECT" "run_fault st = None"
  shows "decided (datasource_size cf) (watcher_result st) (spawn_succeeded st) False (run_loop cmp cf st)"
proof -
  obtain ss acc where "feed_watcher cf st = Some (st\<lparr>sends := ss, ds_sent_acc := acc\<rparr>)"
      "feeding (datasource_size cf) n (st\<lparr>sends := ss, ds_sent_acc := acc\<rparr>)"
    using feed_ok [OF assms(4)] .
  then show ?thesis
    using assms by (subst run_loop.simps)
      (auto simp: decided_def run_iteration_def pull_watcher_def take_output_def check_output_def elim: feeding_less)
qed

text \<open>After the watcher has ended, the output comes in pieces until nothing is left to read: the loop ends, and the
  comparison is the checker's.\<close>

lemma run_rest:
  assumes "\<not> watcher_alive st" "\<not> endoffile st" "\<not> compout_detected st" "\<not> were_done st"
    and "feeding (datasource_size cf) (Suc (length ps)) st" "\<forall>d \<in> set ps. d \<noteq> []"
    and "reads st = map Got ps @ Read_again # rest" "compare_stage st = int n"
    and "run_fault st = None" "\<forall>d \<in> set ps. show_piece cf d = None"
  shows "decided (datasource_size cf) (watcher_result st) (spawn_succeeded st) (judge_pieces cmp (ref st) n ps)
    (run_loop cmp cf st)"
  using assms
proof (induction ps arbitrary: st n)
  case Nil
  obtain ss acc where feed: "feed_watcher cf st = Some (st\<lparr>sends := ss, ds_sent_acc := acc\<rparr>)"
      "feeding (datasource_size cf) 0 (st\<lparr>sends := ss, ds_sent_acc := acc\<rparr>)"
    using feed_ok Nil.prems(5) by (metis list.size(3))
  let ?st = "st\<lparr>sends := ss, ds_sent_acc := acc, reads := rest, were_done := True\<rparr>"
  have "run_iteration cmp cf st = Some (check_end cmp ?st, False)"
    using Nil feed by (simp add: run_iteration_def pull_watcher_def take_output_def check_output_def)
  moreover have "were_done (check_end cmp ?st)" by (simp add: check_end_def split: prod.split)
  ultimately have "run_loop cmp cf st = Some (check_end cmp ?st)"
    using Nil by (subst run_loop.simps) (simp add: run_loop.simps [of _ _ "check_end cmp ?st"])
  moreover have "feeding (datasource_size cf) 0 (check_end cmp ?st)" using feed(2) by simp
  ultimately show ?case
    using check_end_fields [OF refl, of cmp ?st] Nil.prems(9) by (auto simp: decided_def)
next
  case (Cons d ps)
  obtain ss acc where feed: "feed_watcher cf st = Some (st\<lparr>sends := ss, ds_sent_acc := acc\<rparr>)"
      "feeding (datasource_size cf) (Suc (length ps)) (st\<lparr>sends := ss, ds_sent_acc := acc\<rparr>)"
    using feed_ok Cons.prems(5) by (metis length_Cons)
  let ?st = "st\<lparr>sends := ss, ds_sent_acc := acc, reads := map Got ps @ Read_again # rest\<rparr>"
  define st1 where "st1 = check_piece cmp cf d ?st"
  obtain r f' where c: "cmp (ref ?st) d (compare_stage ?st) = (r, f')" by fastforce
  note f = check_piece_fields [where st = ?st and cf = cf and cmp = cmp, OF c st1_def]
  have step: "run_loop cmp cf st = run_loop cmp cf st1"
    using Cons.prems feed
    by (subst run_loop.simps) (simp add: run_iteration_def pull_watcher_def take_output_def check_output_def st1_def)
  have j: "judge_pieces cmp (ref st) n (d # ps) \<longleftrightarrow> r = 0 \<and> judge_pieces cmp f' (Suc n) ps"
    using c Cons.prems(8) by simp
  have fd: "feeding (datasource_size cf) (Suc (length ps)) st1"
    using feed(2) by (simp add: st1_def feeding_def check_piece_def kill_if_def Let_def split: prod.split)
  show ?case
  proof (cases "r = 0")
    case True
    have "decided (datasource_size cf) (watcher_result st1) (spawn_succeeded st1)
        (judge_pieces cmp (ref st1) (Suc n) ps) (run_loop cmp cf st1)"
      by (rule Cons.IH) (use Cons.prems f True fd in simp_all)
    then show ?thesis unfolding step j using True f by simp
  next
    case False
    obtain c1 where c1: "comp_result st1 = Some c1" "c1 \<noteq> JS_CORRECT" using f(12,13) False by auto
    have "decided (datasource_size cf) (watcher_result st1) (spawn_succeeded st1) False (run_loop cmp cf st1)"
      by (rule run_mismatch [OF _ _ _ fd c1]) (use Cons.prems f False in simp_all)
    then show ?thesis unfolding step j using False f by simp
  qed
qed

text \<open>The iteration that sees the end of the watcher is an iteration of a state in which it has ended.\<close>

lemma run_watcher_ends:
  assumes "watcher_alive st" "waits st = Exited 0 # ws" "\<not> were_done st"
  shows "run_loop cmp cf st = run_loop cmp cf (st\<lparr>waits := ws, watcher_result := Some 0, watcher_alive := False\<rparr>)"
proof -
  let ?t = "st\<lparr>waits := ws, watcher_result := Some 0, watcher_alive := False\<rparr>"
  have "run_iteration cmp cf st = run_iteration cmp cf ?t"
    using assms by (simp add: run_iteration_def pull_watcher_def watcher_event_def)
  then show ?thesis using assms(3) by (subst (1 2) run_loop.simps) simp
qed

lemma run_alive_mismatch:
  assumes "watcher_alive st" "compout_detected st" "\<not> were_done st" "waits st = replicate k No_change @ Exited 0 # ws"
    and "feeding (datasource_size cf) (Suc (k + m)) st" "comp_result st = Some c" "c \<noteq> JS_CORRECT" "run_fault st = None"
  shows "decided (datasource_size cf) (Some 0) (spawn_succeeded st) False (run_loop cmp cf st)"
  using assms
proof (induction k arbitrary: st)
  case 0
  let ?t = "st\<lparr>waits := ws, watcher_result := Some 0, watcher_alive := False\<rparr>"
  have "decided (datasource_size cf) (watcher_result ?t) (spawn_succeeded ?t) False (run_loop cmp cf ?t)"
    by (rule run_mismatch [where n = m and c = c]) (use 0 in simp_all)
  then show ?case using run_watcher_ends [of st ws cmp cf] 0 by simp
next
  case (Suc k)
  let ?w = "replicate k No_change @ Exited 0 # ws"
  obtain ss acc where feed: "feed_watcher cf (st\<lparr>waits := ?w\<rparr>) = Some (st\<lparr>waits := ?w, sends := ss, ds_sent_acc := acc\<rparr>)"
      "feeding (datasource_size cf) (Suc (k + m)) (st\<lparr>waits := ?w, sends := ss, ds_sent_acc := acc\<rparr>)"
    by (rule feed_ok [where st = "st\<lparr>waits := ?w\<rparr>"]) (use Suc.prems(5) in simp_all)
  let ?t = "st\<lparr>waits := ?w, sends := ss, ds_sent_acc := acc\<rparr>"
  have "run_loop cmp cf st = run_loop cmp cf ?t"
    using Suc.prems feed
    by (subst run_loop.simps) (simp add: run_iteration_def pull_watcher_def watcher_event_def take_output_def check_output_def)
  moreover have "decided (datasource_size cf) (Some 0) (spawn_succeeded ?t) False (run_loop cmp cf ?t)"
    by (rule Suc.IH) (use Suc.prems feed(2) in simp_all)
  ultimately show ?case by simp
qed

text \<open>While the watcher is alive, output may come or not; after it has ended the rest of the output is read.\<close>

definition arriving :: "read_event list \<Rightarrow> bool" where
  "arriving rs \<longleftrightarrow> (\<forall>e \<in> set rs. e = Read_again \<or> (\<exists>d. e = Got d \<and> d \<noteq> []))"

lemma run_alive:
  assumes "watcher_alive st" "\<not> endoffile st" "\<not> compout_detected st" "\<not> were_done st"
    and "waits st = replicate (length bs) No_change @ Exited 0 # ws" "arriving bs" "\<forall>d \<in> set ps. d \<noteq> []"
    and "reads st = bs @ map Got ps @ Read_again # rest" "compare_stage st = int n"
    and "feeding (datasource_size cf) (Suc (length bs + length ps)) st"
    and "run_fault st = None" "\<forall>d \<in> set (pieces bs @ ps). show_piece cf d = None"
  shows "decided (datasource_size cf) (Some 0) (spawn_succeeded st) (judge_pieces cmp (ref st) n (pieces bs @ ps))
    (run_loop cmp cf st)"
  using assms
proof (induction bs arbitrary: st n)
  case Nil
  let ?t = "st\<lparr>waits := ws, watcher_result := Some 0, watcher_alive := False\<rparr>"
  have "decided (datasource_size cf) (watcher_result ?t) (spawn_succeeded ?t) (judge_pieces cmp (ref ?t) n ps)
      (run_loop cmp cf ?t)"
    by (rule run_rest) (use Nil in simp_all)
  then show ?case using run_watcher_ends [of st ws cmp cf] Nil by simp
next
  case (Cons e bs)
  let ?w = "replicate (length bs) No_change @ Exited 0 # ws" and ?r = "bs @ map Got ps @ Read_again # rest"
  obtain ss acc where feed: "feed_watcher cf (st\<lparr>waits := ?w\<rparr>) = Some (st\<lparr>waits := ?w, sends := ss, ds_sent_acc := acc\<rparr>)"
      "feeding (datasource_size cf) (Suc (length bs + length ps)) (st\<lparr>waits := ?w, sends := ss, ds_sent_acc := acc\<rparr>)"
    by (rule feed_ok [where st = "st\<lparr>waits := ?w\<rparr>"]) (use Cons.prems(10) in simp_all)
  let ?t = "st\<lparr>waits := ?w, sends := ss, ds_sent_acc := acc, reads := ?r\<rparr>"
  have fd: "feeding (datasource_size cf) (Suc (length bs + length ps)) ?t" using feed(2) by (simp add: feeding_def)
  have bs: "arriving bs" using Cons.prems(6) by (simp add: arriving_def)
  have shown: "\<forall>d \<in> set (pieces bs @ ps). show_piece cf d = None" "\<And>d. e = Got d \<Longrightarrow> d \<noteq> [] \<Longrightarrow> show_piece cf d = None"
    using Cons.prems(12) pieces_simps(2) [of "[e]" bs] by auto
  consider "e = Read_again" | d where "e = Got d" "d \<noteq> []" using Cons.prems(6) by (auto simp: arriving_def)
  then show ?case
  proof cases
    case 1
    have "run_loop cmp cf st = run_loop cmp cf ?t"
      using Cons.prems feed 1
      by (subst run_loop.simps) (simp add: run_iteration_def pull_watcher_def watcher_event_def take_output_def check_output_def)
    moreover have "decided (datasource_size cf) (Some 0) (spawn_succeeded ?t)
        (judge_pieces cmp (ref ?t) n (pieces bs @ ps)) (run_loop cmp cf ?t)"
      by (rule Cons.IH) (use Cons.prems bs fd shown(1) in simp_all)
    ultimately show ?thesis using 1 pieces_simps(2) [of "[Read_again]" bs] by simp
  next
    case (2 d)
    define st1 where "st1 = check_piece cmp cf d ?t"
    obtain r f' where c: "cmp (ref ?t) d (compare_stage ?t) = (r, f')" by fastforce
    note f = check_piece_fields [where st = ?t and cf = cf and cmp = cmp, OF c st1_def]
    have step: "run_loop cmp cf st = run_loop cmp cf st1"
      using Cons.prems feed 2 shown(2)
      by (subst run_loop.simps)
        (simp add: run_iteration_def pull_watcher_def watcher_event_def take_output_def check_output_def st1_def)
    have j: "judge_pieces cmp (ref st) n (pieces (e # bs) @ ps) \<longleftrightarrow>
        r = 0 \<and> judge_pieces cmp f' (Suc n) (pieces bs @ ps)"
      using c Cons.prems(9) 2 pieces_simps(2) [of "[Got d]" bs] by simp
    have fd1: "feeding (datasource_size cf) (Suc (length bs + length ps)) st1"
      using fd by (simp add: st1_def)
    show ?thesis
    proof (cases "r = 0")
      case True
      have "decided (datasource_size cf) (Some 0) (spawn_succeeded st1)
          (judge_pieces cmp (ref st1) (Suc n) (pieces bs @ ps)) (run_loop cmp cf st1)"
        by (rule Cons.IH) (use Cons.prems bs f True fd1 shown(1) in simp_all)
      then show ?thesis unfolding step j using True f by simp
    next
      case False
      obtain c1 where c1: "comp_result st1 = Some c1" "c1 \<noteq> JS_CORRECT" using f(12,13) False by auto
      have "decided (datasource_size cf) (Some 0) (spawn_succeeded st1) False (run_loop cmp cf st1)"
        by (rule run_alive_mismatch [OF _ _ _ _ fd1 c1]) (use Cons.prems f False in simp_all)
      then show ?thesis unfolding step j using False f by simp
    qed
  qed
qed

text \<open>The same from the start.\<close>

lemma run_decides:
  assumes "arriving bs" "\<forall>d \<in> set ps. d \<noteq> []" "datasource_size cf < 2 ^ 31" "Send_error \<notin> set ss"
    and "sent_total ss \<le> datasource_size cf" "length bs + length ps < length ss"
    and "\<forall>d \<in> set (pieces bs @ ps). show_piece cf d = None"
  shows "\<exists>st r. run_loop cmp cf (run_start (replicate (length bs) No_change @ Exited 0 # ws) ss
      (bs @ map Got ps @ Read_again # rest) f) = Some st \<and>
    final_result st = Inr r \<and> 0 \<le> ds_sent_acc st \<and> ds_sent_acc st \<le> datasource_size cf \<and>
    (r = 0 \<longleftrightarrow> judge_pieces cmp f 0 (pieces bs @ ps))"
proof -
  let ?s = "run_start (replicate (length bs) No_change @ Exited 0 # ws) ss (bs @ map Got ps @ Read_again # rest) f"
  have "decided (datasource_size cf) (Some 0) (spawn_succeeded ?s) (judge_pieces cmp (ref ?s) 0 (pieces bs @ ps))
      (run_loop cmp cf ?s)"
    by (rule run_alive) (use assms in \<open>simp_all add: run_start_def feeding_def\<close>)
  then obtain st c where st: "run_loop cmp cf ?s = Some st" "watcher_result st = Some 0" "spawn_succeeded st"
      "feeding (datasource_size cf) 0 st" "comp_result st = Some c" "run_fault st = None"
      "c = JS_CORRECT \<longleftrightarrow> judge_pieces cmp f 0 (pieces bs @ ps)"
    by (auto simp: decided_def run_start_def)
  moreover have "result_int c = 0 \<longleftrightarrow> c = JS_CORRECT" by (cases c) simp_all
  moreover have "0 \<le> ds_sent_acc st" "ds_sent_acc st \<le> datasource_size cf"
    using st(4) sent_total_nonneg [of "sends st"] by (simp_all add: feeding_def)
  ultimately show ?thesis by (auto simp: final_result_def)
qed

lemma verdict_accepted: "verdict_of_result r = VERDICT_ACCEPTED \<longleftrightarrow> r = result_int JS_CORRECT"
  by (simp add: verdict_of_result_def)

lemma run_result:
  assumes "jug_runner_run cmp g limits w f order rp = Inr (Some (0, rp'))" "result rp' = Some r"
    and "r \<noteq> result_int JS_UNKNOWN"
  obtains cf st where "run_loop cmp cf (run_start (rw_waits w) (rw_sends w) (rw_reads w) f) = Some st"
    "final_result st = Inr r"
proof -
  let ?cf = "run_conf_of g w (rp_datasource_size rp)"
  obtain st where st: "run_loop cmp ?cf (run_start (rw_waits w) (rw_sends w) (rw_reads w) f) = Some st"
    using assms(1) by (auto simp: jug_runner_run_def Let_def split: if_splits option.splits)
  moreover obtain z where z: "final_result st = Inr z"
    using assms(1) st by (cases "final_result st") (auto simp: jug_runner_run_def Let_def split: if_splits)
  moreover have "r = z"
    using assms st z by (auto simp: jug_runner_run_def Let_def split: if_splits option.splits bool.splits)
  ultimately show thesis using that by blast
qed

lemma judge_accepted:
  assumes "jug_runner_judge cmp g limits erfs w True True f sub = Inr (Some VERDICT_ACCEPTED)"
  obtains cf st where "run_loop cmp cf (run_start (rw_waits w) (rw_sends w) (rw_reads w) f) = Some st"
    "final_result st = Inr (result_int JS_CORRECT)"
proof -
  let ?rp = "\<lparr>mem_limit_mb = -1, time_limit_ms = -1, rp_datasource_size = input_size sub, watcher_pid = 0,
    result = None\<rparr>"
  obtain x where x: "jug_runner_run cmp g limits w f (thread_id sub) ?rp = Inr x"
    using assms by (cases "jug_runner_run cmp g limits w f (thread_id sub) ?rp")
      (auto simp: jug_runner_judge_def split: if_splits)
  then obtain rp z where "x = Some (0, rp)" "result rp = Some z" "verdict_of_result z = VERDICT_ACCEPTED"
    using assms by (auto simp: jug_runner_judge_def split: if_splits option.splits)
  then have run: "jug_runner_run cmp g limits w f (thread_id sub) ?rp = Inr (Some (0, rp))"
      "result rp = Some (result_int JS_CORRECT)"
    using x by (simp_all add: verdict_accepted)
  show thesis by (rule run_result [OF run]) (use that in auto)
qed

text \<open>The answers of a run in which the watcher ends with \<open>JS_CORRECT\<close> after \<open>length bs\<close> iterations, the output arrives
  as \<open>bs\<close> before that and as \<open>ps\<close> after it, no call fails and the two pipes can be emptied.\<close>

definition clean_run :: "run_world \<Rightarrow> int \<Rightarrow> read_event list \<Rightarrow> string list \<Rightarrow> bool" where
  "clean_run w ds bs ps \<longleftrightarrow> rw_alloc w \<and> rw_pid w \<noteq> -1 \<and> rw_in_pipe_ok w \<and> rw_datasource_ok w \<and>
     (\<exists>ws. rw_waits w = replicate (length bs) No_change @ Exited 0 # ws) \<and>
     (\<exists>rest. rw_reads w = bs @ map Got ps @ Read_again # rest) \<and> arriving bs \<and> (\<forall>d \<in> set ps. d \<noteq> []) \<and>
     ds < 2 ^ 31 \<and> Send_error \<notin> set (rw_sends w) \<and> sent_total (rw_sends w) \<le> ds \<and>
     length bs + length ps < length (rw_sends w) \<and> flush_out (rw_flush_reads w) 0 = Some True \<and>
     (\<forall>acc. 0 \<le> acc \<and> acc \<le> ds \<longrightarrow> flush_in (rw_flush_sends w) acc ds = Some True)"

lemma judge_run:
  assumes "clean_run w (input_size sub) bs ps" "CR \<notin> set (concat (pieces bs @ ps))"
    and "length (bin_path sub) < 99" "0 \<le> thread_id sub" "thread_id sub < THREADS_MAX"
    and "erfs \<noteq> 1" "ref_good f" "offset f = 0"
    and "\<forall>d \<in> set (pieces bs @ ps). show_piece (run_conf_of g w (input_size sub)) d = None"
  shows "\<exists>v. jug_runner_judge compare_output g limits erfs w True True f sub = Inr (Some v) \<and>
    (v = VERDICT_ACCEPTED \<longleftrightarrow>
      strip_LF (concat (pieces bs @ ps)) = strip_LF (filter (\<lambda>c. c \<noteq> CR) (content f)))"
proof -
  let ?cf = "run_conf_of g w (input_size sub)"
  obtain ws rest where w: "rw_waits w = replicate (length bs) No_change @ Exited 0 # ws"
      "rw_reads w = bs @ map Got ps @ Read_again # rest"
    using assms(1) by (auto simp: clean_run_def)
  have "\<exists>st r. run_loop compare_output ?cf (run_start (rw_waits w) (rw_sends w) (rw_reads w) f) = Some st \<and>
      final_result st = Inr r \<and> 0 \<le> ds_sent_acc st \<and> ds_sent_acc st \<le> datasource_size ?cf \<and>
      (r = 0 \<longleftrightarrow> judge_pieces compare_output f 0 (pieces bs @ ps))"
    unfolding w by (rule run_decides) (use assms(1,9) in \<open>simp_all add: clean_run_def run_conf_of_def\<close>)
  then obtain st r where run: "run_loop compare_output ?cf (run_start (rw_waits w) (rw_sends w) (rw_reads w) f) = Some st"
      "final_result st = Inr r" "0 \<le> ds_sent_acc st" "ds_sent_acc st \<le> input_size sub"
      "r = 0 \<longleftrightarrow> judge_pieces compare_output f 0 (pieces bs @ ps)"
    by (auto simp: run_conf_of_def)
  have "r = 0 \<longleftrightarrow> strip_LF (concat (pieces bs @ ps)) = strip_LF (filter (\<lambda>c. c \<noteq> CR) (content f))"
    using run(5) ref_checker.pieces_iff [OF assms(7,2)] assms(8) by (simp add: ref_rest_def)
  moreover have "flush_in (rw_flush_sends w) (ds_sent_acc st) (input_size sub) = Some True"
    using assms(1) run(3,4) by (simp add: clean_run_def)
  ultimately show ?thesis
    using assms run(1,2)
    by (simp add: jug_runner_judge_def jug_runner_run_def verdict_accepted clean_run_def Let_def)
qed

text \<open>A piece that is shown and does not fit ends the loop with the fault.\<close>

lemma run_shows:
  assumes "watcher_alive st" "\<not> endoffile st" "\<not> compout_detected st" "\<not> were_done st"
    and "waits st = replicate (Suc k) No_change @ ws" "reads st = replicate k Read_again @ Got d # rest"
    and "feeding (datasource_size cf) (Suc k) st" "show_piece cf d = Some x"
  shows "\<exists>st'. run_loop cmp cf st = Some st' \<and> run_fault st' = Some x"
  using assms
proof (induction k arbitrary: st)
  case 0
  obtain ss acc where "feed_watcher cf (st\<lparr>waits := ws\<rparr>) = Some (st\<lparr>waits := ws, sends := ss, ds_sent_acc := acc\<rparr>)"
    by (rule feed_ok [where st = "st\<lparr>waits := ws\<rparr>" and n = 0]) (use 0 in simp_all)
  then show ?case
    using 0 by (subst run_loop.simps) (simp add: run_iteration_def pull_watcher_def watcher_event_def take_output_def)
next
  case (Suc k)
  let ?w = "replicate (Suc k) No_change @ ws" and ?r = "replicate k Read_again @ Got d # rest"
  obtain ss acc where feed: "feed_watcher cf (st\<lparr>waits := ?w\<rparr>) = Some (st\<lparr>waits := ?w, sends := ss, ds_sent_acc := acc\<rparr>)"
      "feeding (datasource_size cf) (Suc k) (st\<lparr>waits := ?w, sends := ss, ds_sent_acc := acc\<rparr>)"
    by (rule feed_ok [where st = "st\<lparr>waits := ?w\<rparr>" and n = "Suc k"]) (use Suc.prems(7) in simp_all)
  let ?t = "st\<lparr>waits := ?w, sends := ss, ds_sent_acc := acc, reads := ?r\<rparr>"
  have "run_loop cmp cf st = run_loop cmp cf ?t"
    using Suc.prems feed(1)
    by (subst run_loop.simps) (simp add: run_iteration_def pull_watcher_def watcher_event_def take_output_def check_output_def)
  moreover have "\<exists>st'. run_loop cmp cf ?t = Some st' \<and> run_fault st' = Some x"
    by (rule Suc.IH) (use Suc.prems feed(2) in \<open>simp_all add: feeding_def\<close>)
  ultimately show ?case by simp
qed

definition sample_world :: "string list \<Rightarrow> run_world" where
  "sample_world ps = \<lparr>rw_alloc = True, rw_pid = 7, rw_in_pipe_ok = True, rw_datasource_ok = True, rw_waits = [No_change, Exited 0],
     rw_sends = Sent 3 # replicate (length ps + 1) Send_again, rw_reads = Read_again # map Got ps @ [Read_again],
     rw_flush_reads = [Eof], rw_flush_sends = [Sent 3], rw_log = log_start, rw_mem = granting\<rparr>"

lemma sample_world_clean: "\<forall>d \<in> set ps. d \<noteq> [] \<Longrightarrow> clean_run (sample_world ps) 3 [Read_again] ps"
  by (auto simp: clean_run_def sample_world_def arriving_def sent_total_def sum_list_replicate)

definition sample_runner :: Runner where
  "sample_runner = \<lparr>kill_on_compout = 1, show_submission_output = 0, stack_size_mb = 32,
     output_size_limit_mb_default = 5, nbr_instances = 0, count_submissions = 0, count_submissions_success = 0\<rparr>"

definition sample_submission :: jug_submission where
  "sample_submission = \<lparr>thread_id = 2, bin_path = ''/b'', input_size = 3\<rparr>"

lemma sample_accepted:
  "jug_runner_judge compare_output sample_runner (255, 3000) 0 (sample_world [''4'', ''2'']) True True
     (sample_ref (''42'' @ [LF])) sample_submission = Inr (Some VERDICT_ACCEPTED)"
proof -
  have "clean_run (sample_world [''4'', ''2'']) (input_size sample_submission) [Read_again] [''4'', ''2'']"
    using sample_world_clean [of "[''4'', ''2'']"] by (simp add: sample_submission_def)
  then have "\<exists>v. jug_runner_judge compare_output sample_runner (255, 3000) 0 (sample_world [''4'', ''2'']) True True
      (sample_ref (''42'' @ [LF])) sample_submission = Inr (Some v) \<and>
    (v = VERDICT_ACCEPTED \<longleftrightarrow> strip_LF (concat (pieces [Read_again] @ [''4'', ''2''])) =
      strip_LF (filter (\<lambda>c. c \<noteq> CR) (content (sample_ref (''42'' @ [LF])))))"
    by (rule judge_run)
      (simp_all add: sample_submission_def THREADS_MAX_def ref_good_def sample_ref_def O_RDWR_def run_conf_of_def sample_runner_def)
  then show ?thesis by (auto simp: sample_ref_def strip_LF_def)
qed

section \<open>Laws: writing the rest of the input\<close>

lemma sent_total_Cons [simp]: "sent_total (a # es) = (case a of Sent n \<Rightarrow> int n | _ \<Rightarrow> 0) + sent_total es"
  by (simp add: sent_total_def)

lemma sent_total_mono: "j \<le> k \<Longrightarrow> sent_total (map e [0..<j]) \<le> sent_total (map e [0..<k])"
  by (induction k rule: dec_induct) (auto simp: sent_total_def split: send_event.split)

text \<open>The loop ends at the first answer that is an error or completes the input.\<close>

definition sent_by :: "int \<Rightarrow> send_event list \<Rightarrow> nat \<Rightarrow> int" where
  "sent_by acc es k = acc + sent_total (take (Suc k) es)"

lemma sent_by_Cons: "sent_by acc (a # es) 0 = acc + (case a of Sent n \<Rightarrow> int n | _ \<Rightarrow> 0)"
  "sent_by acc (a # es) (Suc k) = sent_by (acc + (case a of Sent n \<Rightarrow> int n | _ \<Rightarrow> 0)) es k"
  by (simp_all add: sent_by_def sent_total_def add.assoc)

lemma flush_in_Cons:
  assumes "0 \<le> acc" "sz < 2 ^ 31" "acc + sent_total (a # es) \<le> sz"
  shows "flush_in (a # es) acc sz = (if a = Send_error then Some False
    else if sent_by acc (a # es) 0 = sz then Some True else flush_in es (sent_by acc (a # es) 0) sz)"
proof -
  have le: "sent_by acc (a # es) 0 \<le> sz" using assms(3) sent_total_nonneg [of es] by (simp add: sent_by_Cons)
  have "int32 (acc + int n) = acc + int n" if "a = Sent n" for n
    using assms le that by (intro int32_id) (simp_all add: sent_by_Cons)
  then show ?thesis using le by (cases a) (simp_all add: sent_by_Cons)
qed

lemma flush_in_outcome:
  assumes "0 \<le> acc" "sz < 2 ^ 31" "acc + sent_total es \<le> sz"
  shows "(flush_in es acc sz = Some True \<longleftrightarrow>
      (\<exists>k < length es. (\<forall>j < Suc k. es ! j \<noteq> Send_error) \<and> sent_by acc es k = sz)) \<and>
    (flush_in es acc sz = Some False \<longleftrightarrow>
      (\<exists>k < length es. es ! k = Send_error \<and> (\<forall>j < k. es ! j \<noteq> Send_error \<and> sent_by acc es j < sz)))"
  using assms
proof (induction es arbitrary: acc)
  case (Cons a es)
  let ?acc = "sent_by acc (a # es) 0"
  have acc: "0 \<le> ?acc" "?acc + sent_total es \<le> sz" "?acc \<le> sz"
    using Cons.prems sent_total_nonneg [of es] by (cases a; simp add: sent_by_Cons)+
  have s: "sent_by acc (a # es) (Suc k) = sent_by ?acc es k" for k by (simp add: sent_by_Cons)
  have "?acc \<le> sent_by ?acc es k" for k by (simp add: sent_by_def sent_total_nonneg)
  then show ?case
    using Cons.IH [OF acc(1) Cons.prems(2) acc(2)] flush_in_Cons [OF Cons.prems] acc(3)
    by (auto simp: Ex_less_Suc2 All_less_Suc2 s simp del: flush_in.simps)
qed simp_all

lemma sent_by_stream: "k < n \<Longrightarrow> sent_by acc (map e [0..<n]) k = acc + sent_total (map e [0..<Suc k])"
  by (simp add: sent_by_def take_map del: upt_Suc)

section \<open>Properties\<close>

text \<open>C6: A submission is accepted only if the watcher ended with \<open>JS_CORRECT\<close> and the output that had been
  read, whatever its pieces, equals the reference without its carriage returns up to line ends at the
  end (for an output without carriage returns).\<close>

theorem accepted_output_is_correct:
  assumes "jug_runner_judge compare_output g limits erfs w True True f sub = Inr (Some VERDICT_ACCEPTED)"
    and "ref_good f" "offset f = 0" "CR \<notin> set (concat (pieces (rw_reads w)))"
  shows "Exited 0 \<in> set (rw_waits w) \<and> (\<exists>before rest. rw_reads w = before @ rest \<and>
    strip_LF (concat (pieces before)) = strip_LF (filter (\<lambda>c. c \<noteq> CR) (content f)))"
proof -
  obtain cf st where "run_loop compare_output cf (run_start (rw_waits w) (rw_sends w) (rw_reads w) f) = Some st"
      "final_result st = Inr (result_int JS_CORRECT)"
    using judge_accepted [OF assms(1)] .
  then obtain before rest where b: "rw_reads w = before @ rest" "Exited 0 \<in> set (rw_waits w)"
      "judge_pieces compare_output f 0 (pieces before)"
    using correct_result by metis
  then have "CR \<notin> set (concat (pieces before))" using assms(4) by auto
  then show ?thesis
    using b ref_checker.pieces_iff [OF assms(2)] assms(3) by (auto simp: ref_rest_def)
qed

theorem accepted_output_is_correct_witness:
  "\<exists>before rest. Read_again # map Got [''4'', ''2''] @ [Read_again] = before @ rest \<and>
     strip_LF (concat (pieces before)) = ''42''"
proof -
  have "\<exists>before rest. rw_reads (sample_world [''4'', ''2'']) = before @ rest \<and>
      strip_LF (concat (pieces before)) = strip_LF (filter (\<lambda>c. c \<noteq> CR) (content (sample_ref (''42'' @ [LF]))))"
    using accepted_output_is_correct [OF sample_accepted]
    by (simp add: ref_good_def sample_ref_def O_RDWR_def sample_world_def pieces_def)
  then show ?thesis by (simp add: sample_world_def sample_ref_def strip_LF_def)
qed

text \<open>C9: Judging ends with a verdict, however long the submission runs, however its output is cut into pieces and however the
  input is taken, under these conditions: the watcher ends with \<open>JS_CORRECT\<close>, no call fails on the way and the
  pipes can be emptied (\<open>clean_run\<close>); no execution root file system is used; the worker has a number below 24 and a path of
  less than 99 bytes; the output has no carriage return; and it is not shown, or every piece fits the block it is
  printed into. The verdict is then \<open>VERDICT_ACCEPTED\<close> exactly if the output equals the reference without its carriage
  returns, up to line ends at the end. The output size limit does not matter: a comment in the code says that exceeding it is reported
  as \<open>JS_OUTPUTLIMIT\<close>, but the last comparison overwrites that result.\<close>

theorem judge_decides:
  assumes "clean_run w (input_size sub) bs ps" "CR \<notin> set (concat (pieces bs @ ps))"
    and "length (bin_path sub) < 99" "0 \<le> thread_id sub" "thread_id sub < THREADS_MAX"
    and "erfs \<noteq> 1" "ref_good f" "offset f = 0"
    and "\<forall>d \<in> set (pieces bs @ ps). show_piece (run_conf_of g w (input_size sub)) d = None"
  shows "\<exists>v. jug_runner_judge compare_output g limits erfs w True True f sub = Inr (Some v) \<and>
    (v = VERDICT_ACCEPTED \<longleftrightarrow>
      strip_LF (concat (pieces bs @ ps)) = strip_LF (filter (\<lambda>c. c \<noteq> CR) (content f)))"
  using assms by (rule judge_run)

theorem judge_decides_witness:
  "jug_runner_judge compare_output sample_runner (255, 3000) 0 (sample_world [''4'', ''2'']) True True
     (sample_ref (''42'' @ [LF])) sample_submission = Inr (Some VERDICT_ACCEPTED)"
proof -
  have "clean_run (sample_world [''4'', ''2'']) (input_size sample_submission) [Read_again] [''4'', ''2'']"
    using sample_world_clean [of "[''4'', ''2'']"] by (simp add: sample_submission_def)
  then have "\<exists>v. jug_runner_judge compare_output sample_runner (255, 3000) 0 (sample_world [''4'', ''2'']) True True
      (sample_ref (''42'' @ [LF])) sample_submission = Inr (Some v) \<and>
    (v = VERDICT_ACCEPTED \<longleftrightarrow> strip_LF (concat (pieces [Read_again] @ [''4'', ''2''])) =
      strip_LF (filter (\<lambda>c. c \<noteq> CR) (content (sample_ref (''42'' @ [LF])))))"
    by (rule judge_decides)
      (simp_all add: sample_submission_def THREADS_MAX_def ref_good_def sample_ref_def O_RDWR_def run_conf_of_def sample_runner_def)
  then show ?thesis by (auto simp: sample_ref_def strip_LF_def)
qed

text \<open>The verdict a sandbox result is turned into: \<open>VERDICT_ACCEPTED\<close> exactly for \<open>JS_CORRECT\<close>, and never
  \<open>VERDICT_MEMLIMIT\<close>: a submission that exceeds its memory limit is reported as an internal error.\<close>

theorem verdict_mapping:
  "(verdict_of_result r = VERDICT_ACCEPTED \<longleftrightarrow> r = result_int JS_CORRECT) \<and>
   (verdict_of_result r = VERDICT_WRONG \<longleftrightarrow> r = result_int JS_WRONG) \<and>
   (verdict_of_result r = VERDICT_TIMELIMIT \<longleftrightarrow>
     r = result_int JS_TIMELIMIT \<or> r = result_int JS_WALL_TIMELIMIT) \<and>
   (verdict_of_result r = VERDICT_RUNTIME \<longleftrightarrow> r = result_int JS_RUNTIME) \<and>
   verdict_of_result r \<noteq> VERDICT_MEMLIMIT \<and>
   verdict_of_result (result_int JS_MEMLIMIT) = VERDICT_INTERNAL"
  by (simp add: verdict_of_result_def)

text \<open>A clone that fails is answered with \<open>-2\<close>, which the runner takes for a process: waiting for it fails,
  and the result is computed from a variable that was never set.\<close>

theorem failed_clone_unnoticed:
  assumes "rw_pid w = -2" "rw_in_pipe_ok w" "rw_datasource_ok w" "rw_waits w = Wait_error # ws"
    and "rw_reads w = Read_again # rest" "0 \<le> order" "order < THREADS_MAX" "rp_datasource_size rp < 2 ^ 31"
    and "Send_error \<notin> set (rw_sends w)" "sent_total (rw_sends w) \<le> rp_datasource_size rp" "rw_sends w \<noteq> []"
    and "rw_alloc w"
  shows "jug_runner_run cmp g limits w f order rp = Inl Uninitialised"
proof -
  let ?cf = "run_conf_of g w (rp_datasource_size rp)"
  let ?s = "run_start (rw_waits w) (rw_sends w) (rw_reads w) f"
  let ?t = "?s\<lparr>waits := ws, watcher_alive := False\<rparr>"
  have "run_iteration cmp ?cf ?s = run_iteration cmp ?cf ?t"
    using assms(4) by (simp add: run_iteration_def pull_watcher_def watcher_event_def run_start_def)
  then have eq: "run_loop cmp ?cf ?s = run_loop cmp ?cf ?t"
    by (subst (1 2) run_loop.simps) (simp add: run_start_def)
  have "decided (datasource_size ?cf) (watcher_result ?t) (spawn_succeeded ?t) (judge_pieces cmp (ref ?t) 0 [])
      (run_loop cmp ?cf ?t)"
    by (rule run_rest) (use assms(5,8-11) in \<open>simp_all add: run_start_def feeding_def Suc_le_eq run_conf_of_def\<close>)
  then obtain st where "run_loop cmp ?cf ?s = Some st" "final_result st = Inl Uninitialised"
    unfolding eq by (auto simp: run_start_def final_result_def decided_def)
  then show ?thesis using assms by (simp add: jug_runner_run_def Let_def)
qed

theorem failed_clone_unnoticed_witness:
  "jug_runner_run compare_output sample_runner (255, 3000) ((sample_world [])\<lparr>rw_pid := -2, rw_waits := [Wait_error]\<rparr>)
     (sample_ref ''1'') 0 \<lparr>mem_limit_mb = -1, time_limit_ms = -1, rp_datasource_size = 3, watcher_pid = 0,
       result = None\<rparr> = Inl Uninitialised"
  by (rule failed_clone_unnoticed [where ws = "[]" and rest = "[Read_again]"])
    (simp_all add: sample_world_def THREADS_MAX_def sent_total_def)

text \<open>C17: With \<open>show_submission_output\<close> in the configuration, the first piece of output of 128 bytes or more, up to its first zero byte,
  is printed past the end of a block of 128 bytes, and the worker's memory is damaged: whatever the watcher, the
  checker and the rest of the output do. The piece may come after any number of reads that find nothing while the
  watcher lives, or at once; no call has failed, and the debugging messages are not focused on tags.\<close>

theorem shown_output_overflows:
  assumes "show_submission_output g \<noteq> 0" "\<not> is_focus_tags (rw_log w)" "can_alloc (rw_mem w) 128" "128 \<le> length (cstr d)"
    and "rw_alloc w" "rw_pid w \<noteq> -1" "rw_in_pipe_ok w" "rw_datasource_ok w" "0 \<le> thread_id sub" "thread_id sub < THREADS_MAX"
    and "rw_waits w = replicate (Suc k) No_change @ ws" "rw_reads w = replicate k Read_again @ Got d # rest"
    and "Send_error \<notin> set (rw_sends w)" "k < length (rw_sends w)" "sent_total (rw_sends w) \<le> input_size sub" "input_size sub < 2 ^ 31"
    and "erfs \<noteq> 1" "length (bin_path sub) < 99"
  shows "jug_runner_judge cmp g limits erfs w True True f sub = Inl Buffer_overflow"
proof -
  let ?cf = "run_conf_of g w (input_size sub)"
  have "show_piece ?cf d = Some Buffer_overflow"
    using assms(1-4) show_piece_unfocused [of ?cf d] by (simp add: run_conf_of_def)
  moreover have "feeding (datasource_size ?cf) (Suc k) (run_start (rw_waits w) (rw_sends w) (rw_reads w) f)"
    using assms(13-16) by (simp add: feeding_def run_start_def run_conf_of_def)
  ultimately have "\<exists>st. run_loop cmp ?cf (run_start (rw_waits w) (rw_sends w) (rw_reads w) f) = Some st \<and>
      run_fault st = Some Buffer_overflow"
    using assms(11,12) by (intro run_shows) (simp_all add: run_start_def)
  then show ?thesis
    using assms(5-10,17,18) by (auto simp: jug_runner_judge_def jug_runner_run_def final_result_def)
qed

theorem shown_output_overflows_witness:
  "jug_runner_judge compare_output (sample_runner\<lparr>show_submission_output := 1\<rparr>) (255, 3000) 0
     ((sample_world [replicate 200 CHR ''x''])\<lparr>rw_waits := [No_change, No_change, No_change, Exited 0]\<rparr>) True True
     (sample_ref ''1'') sample_submission = Inl Buffer_overflow"
  by (rule shown_output_overflows [where k = 1 and d = "replicate 200 CHR ''x''" and ws = "[No_change, Exited 0]" and rest = "[Read_again]"])
    (simp_all add: sample_runner_def sample_world_def sample_submission_def log_start_def granting_def THREADS_MAX_def
      sent_total_def cstr_def takeWhile_replicate numeral_2_eq_2 del: replicate.simps, simp_all)

text \<open>C34: The loop that writes the rest of the input, for any infinite sequence \<open>e\<close> of answers of \<open>sendfile\<close> that does not send
  more than there is: it ends with success exactly if, without an error on the way, everything has been sent
  at some point; it ends with an error exactly if there is one before that; and it never ends if from some point on the
  pipe is full and not everything has been sent: it has no other exit, not even when the watcher is gone.\<close>

theorem flush_in_ends_only_when_sent:
  assumes "0 \<le> acc" "sz < 2 ^ 31" "\<And>n. acc + sent_total (map e [0..<n]) \<le> sz"
  shows "((\<exists>n. flush_in (map e [0..<n]) acc sz = Some True) \<longleftrightarrow>
      (\<exists>k. (\<forall>j \<le> k. e j \<noteq> Send_error) \<and> acc + sent_total (map e [0..<Suc k]) = sz)) \<and>
    ((\<exists>n. flush_in (map e [0..<n]) acc sz = Some False) \<longleftrightarrow>
      (\<exists>k. e k = Send_error \<and> (\<forall>j < k. e j \<noteq> Send_error \<and> acc + sent_total (map e [0..<Suc j]) < sz))) \<and>
    (\<forall>m. (\<forall>j < m. e j \<noteq> Send_error) \<and> (\<forall>j \<ge> m. e j = Send_again) \<and> acc + sent_total (map e [0..<m]) < sz \<longrightarrow>
      (\<forall>n. flush_in (map e [0..<n]) acc sz = None))"
proof -
  let ?s = "\<lambda>k. acc + sent_total (map e [0..<Suc k])"
  note outcome = flush_in_outcome [OF assms(1,2) assms(3)]
  have yes: "flush_in (map e [0..<n]) acc sz = Some True \<longleftrightarrow> (\<exists>k < n. (\<forall>j \<le> k. e j \<noteq> Send_error) \<and> ?s k = sz)" for n
    unfolding outcome [of n, THEN conjunct1] by (rule ex_cong1) (auto simp: sent_by_stream less_Suc_eq_le simp del: upt_Suc)
  have no: "flush_in (map e [0..<n]) acc sz = Some False \<longleftrightarrow>
      (\<exists>k < n. e k = Send_error \<and> (\<forall>j < k. e j \<noteq> Send_error \<and> ?s j < sz))" for n
    unfolding outcome [of n, THEN conjunct2] by (rule ex_cong1) (auto simp: sent_by_stream simp del: upt_Suc)
  have "flush_in (map e [0..<n]) acc sz = None"
    if m: "\<forall>j < m. e j \<noteq> Send_error" "\<forall>j \<ge> m. e j = Send_again" "acc + sent_total (map e [0..<m]) < sz" for m n
  proof -
    have ok: "e k \<noteq> Send_error" for k using m(1,2) by (cases "k < m") auto
    have same: "sent_total (map e [0..<k]) = sent_total (map e [0..<m])" if "m \<le> k" for k
      using that by (induction k rule: dec_induct) (auto simp: sent_total_def m(2))
    have "?s k < sz" for k
      using same [of "Suc k"] sent_total_mono [of "Suc k" m e] m(3) by (cases "k < m") (simp_all del: upt_Suc)
    then have "flush_in (map e [0..<n]) acc sz \<noteq> Some b" for b
      using yes [of n] no [of n] ok by (cases b) (auto simp del: upt_Suc dest: order_less_imp_not_eq)
    then show ?thesis by (cases "flush_in (map e [0..<n]) acc sz") auto
  qed
  then show ?thesis unfolding yes no by blast
qed

theorem flush_in_ends_only_when_sent_witness:
  "\<forall>n. flush_in (map (\<lambda>k. if k = 0 then Sent 65536 else Send_again) [0..<n]) 0 70000 = None"
proof -
  let ?e = "\<lambda>k :: nat. if k = 0 then Sent 65536 else Send_again"
  have total: "sent_total (map ?e [0..<n]) = (if n = 0 then 0 else 65536)" for n
    by (induction n) (auto simp: sent_total_def)
  have le: "0 + sent_total (map ?e [0..<n]) \<le> 70000" for n unfolding total by simp
  have m: "(\<forall>j < 1. ?e j \<noteq> Send_error) \<and> (\<forall>j \<ge> 1. ?e j = Send_again) \<and> 0 + sent_total (map ?e [0..<1]) < 70000"
    unfolding total by auto
  have "(0 :: int) \<le> 0" "(70000 :: int) < 2 ^ 31" by simp_all
  from flush_in_ends_only_when_sent [OF this le, THEN conjunct2, THEN conjunct2, THEN spec, of 1] m show ?thesis by (rule mp)
qed
end
