(* ===== verification/Ramfs.thy ===== *)
theory Ramfs
  imports Prelude_C
begin

text \<open>
  The memory file system of the daemon (\<open>src/ramfs.c\<close>): its parameters, mounting and unmounting it, and
  copying files into it while counting the memory they use. A file store maps paths to contents; the
  answers of the system calls that can fail are parameters of each operation, in the order of the code.
\<close>

type_synonym files = "string \<rightharpoonup> string"

section \<open>Parameters\<close>

record ramfs_info =
  root_dir :: string
  dirname :: string
  ramfs_path :: string
  size_alloc :: int
  used :: int
  mem_max :: int

text \<open>The results of \<open>malloc\<close> are not tested; the last request is five bytes larger than the two strings.\<close>

definition init_ramfs :: "allocator \<Rightarrow> string \<Rightarrow> string \<Rightarrow> int \<Rightarrow> int \<Rightarrow> ramfs_info c_result" where
  "init_ramfs mem root dir size_alloc_mb max_size_mb =
     (let alloc_mb = (if size_alloc_mb < 0 then 0 else size_alloc_mb);
          max1 = (if max_size_mb > alloc_mb then alloc_mb else max_size_mb);
          max2 = (if max1 < 0 then 0 else max1) in
      if \<not> can_alloc mem 48 \<or> \<not> can_alloc mem (length dir + 1) \<or> \<not> can_alloc mem (length root + 1) \<or>
         \<not> can_alloc mem (length root + length dir + 5) then Inl Null_deref
      else Inr \<lparr>root_dir = root, dirname = dir, ramfs_path = root @ ''/'' @ dir,
        size_alloc = int32 (alloc_mb * 1000000), used = 0, mem_max = int32 (max2 * 1000000)\<rparr>)"

section \<open>Mounting\<close>

text \<open>The device numbers \<open>stat\<close> reports for the directory and for its root, \<open>None\<close> when it fails.\<close>

definition ramfs_ismounted :: "nat option \<Rightarrow> nat option \<Rightarrow> bool" where
  "ramfs_ismounted major_path major_root =
     (case (major_path, major_root) of (Some mjr, Some hdmjr) \<Rightarrow> mjr \<noteq> hdmjr | _ \<Rightarrow> False)"

datatype umount_answer = Unmounted | Not_mounted | Umount_error

definition umount_ramfs :: "bool \<Rightarrow> umount_answer \<Rightarrow> int" where
  "umount_ramfs dir_exists a =
     (if \<not> dir_exists then 0
      else case a of Unmounted \<Rightarrow> 0 | Not_mounted \<Rightarrow> 0 | Umount_error \<Rightarrow> -1)"

text \<open>The command is printed into \<open>cmd[200]\<close>.\<close>

definition rm_ramfs_dir :: "bool \<Rightarrow> ramfs_info \<Rightarrow> (int \<times> string) c_result" where
  "rm_ramfs_dir system_ok info =
     (let cmd = ''rm -rf '' @ ramfs_path info in
      if length cmd + 1 > 200 then Inl Buffer_overflow
      else Inr (if system_ok then 0 else -1, cmd))"

text \<open>The code and the options \<open>mount\<close> was called with, if it was.\<close>

definition create_ramfs :: "bool \<Rightarrow> bool \<Rightarrow> bool \<Rightarrow> ramfs_info \<Rightarrow> int \<times> string option" where
  "create_ramfs dir_exists mkdir_ok mount_ok info =
     (let opts = ''size='' @ dec_int (size_alloc info) @ ''m'' in
      if dir_exists then (-2, None)
      else if \<not> mkdir_ok then (-1, None)
      else (if mount_ok then 0 else -3, Some opts))"

section \<open>Copying\<close>

definition RAMFS_CP_BUFFER_SIZE :: nat where "RAMFS_CP_BUFFER_SIZE = 512"

text \<open>What the system calls answer: whether the source is a regular file, and its \<open>st_size\<close>; the pieces \<open>read\<close>
  delivers (\<open>None\<close> is an error, an empty piece or the end of the list the end of the file); which calls
  of \<open>write\<close> take their whole piece.\<close>

record cp_env =
  cp_alloc :: bool
  cp_stat :: "(bool \<times> int) option"
  cp_open_target :: bool
  cp_open_src :: bool
  cp_reads :: "string option list"
  cp_write_ok :: "nat \<Rightarrow> bool"
  cp_close_src :: bool
  cp_close_target :: bool

text \<open>What has been written, and the code of the loop. Of a piece that is not written whole nothing is kept.\<close>

fun cp_loop :: "(nat \<Rightarrow> bool) \<Rightarrow> nat \<Rightarrow> string option list \<Rightarrow> string \<Rightarrow> string \<times> int" where
  "cp_loop write_ok k [] out = (out, 0)"
| "cp_loop write_ok k (None # rs) out = (out, -8)"
| "cp_loop write_ok k (Some d # rs) out =
     (if d = [] then (out, 0)
      else if \<not> write_ok k then (out, -7)
      else cp_loop write_ok (Suc k) rs (out @ d))"

text \<open>\<open>src_size\<close> is an \<open>int\<close>; \<open>target\<close> is \<open>None\<close> for a null pointer.\<close>

definition ramfs_cp ::
  "cp_env \<Rightarrow> string option \<Rightarrow> ramfs_info \<Rightarrow> files \<Rightarrow> (int \<times> ramfs_info \<times> files) c_result" where
  "ramfs_cp e target info fs = (case cp_stat e of
       None \<Rightarrow> Inr (-1, info, fs)
     | Some (regular, st_size) \<Rightarrow>
         if \<not> regular then Inr (-2, info, fs)
         else case target of
           None \<Rightarrow> Inr (-3, info, fs)
         | Some t \<Rightarrow> if \<not> cp_alloc e then Inl Null_deref else Inr (
             let full = ramfs_path info @ ''/'' @ t;
                 src_size = int32 st_size;
                 memfree = int32 (mem_max info - used info) in
             if fs full \<noteq> None then (-11, info, fs)
             else if memfree < src_size then (-4, info, fs)
             else if \<not> cp_open_target e then (-5, info, fs)
             else if \<not> cp_open_src e then (-6, info, fs(full \<mapsto> []))
             else case cp_loop (cp_write_ok e) 0 (cp_reads e) [] of (out, code) \<Rightarrow>
               if code \<noteq> 0 then (code, info, fs(full \<mapsto> out))
               else
                 let info' = info\<lparr>used := int32 (used info + src_size)\<rparr> in
                 (if \<not> cp_close_src e then -9 else if \<not> cp_close_target e then -10 else 0,
                  info', fs(full \<mapsto> out))))"

text \<open>A series of copies.\<close>

fun copy_all :: "(cp_env \<times> string option) list \<Rightarrow> ramfs_info \<Rightarrow> files \<Rightarrow> (ramfs_info \<times> files) c_result" where
  "copy_all [] info fs = Inr (info, fs)"
| "copy_all ((e, t) # xs) info fs = c_then (ramfs_cp e t info fs) (\<lambda>(_, info', fs'). copy_all xs info' fs')"

section \<open>Laws\<close>

definition ramfs_ok :: "ramfs_info \<Rightarrow> bool" where
  "ramfs_ok info \<longleftrightarrow> 0 \<le> used info \<and> used info \<le> mem_max info \<and> mem_max info \<le> size_alloc info \<and>
     size_alloc info < 2 ^ 31"

text \<open>Sizes an \<open>int\<close> can hold.\<close>

definition cp_small :: "cp_env \<Rightarrow> bool" where
  "cp_small e \<longleftrightarrow> (case cp_stat e of None \<Rightarrow> True | Some (_, n) \<Rightarrow> 0 \<le> n \<and> n < 2 ^ 31)"

lemma init_ramfs_ok:
  assumes "init_ramfs mem root dir alloc_mb max_mb = Inr info" "alloc_mb \<le> 2147"
  shows "ramfs_ok info"
proof -
  let ?a = "if alloc_mb < 0 then 0 else alloc_mb"
  let ?m1 = "if max_mb > ?a then ?a else max_mb"
  let ?m = "if ?m1 < 0 then 0 else ?m1"
  have "0 \<le> ?m" "?m \<le> ?a" "?a \<le> 2147" using assms(2) by auto
  moreover have "used info = 0" "mem_max info = int32 (?m * 1000000)" "size_alloc info = int32 (?a * 1000000)"
    using assms(1) unfolding init_ramfs_def Let_def by (auto split: if_splits)
  ultimately show ?thesis by (simp add: ramfs_ok_def del: split_paired_All)
qed

lemma ramfs_cp_info:
  assumes "ramfs_cp e t info fs = Inr (code, info', fs')"
  shows "info' = info \<or> (\<exists>n. cp_stat e = Some (True, n) \<and> \<not> int32 (mem_max info - used info) < int32 n \<and>
    info' = info\<lparr>used := int32 (used info + int32 n)\<rparr>)"
proof (cases "cp_stat e")
  case (Some p)
  obtain r n where p: "p = (r, n)" by (cases p)
  then show ?thesis
    using assms Some by (cases t) (simp_all add: ramfs_cp_def Let_def split: if_splits prod.splits)
qed (use assms in \<open>simp add: ramfs_cp_def\<close>)

lemma ramfs_cp_ok:
  assumes "ramfs_ok info" "cp_small e" "ramfs_cp e t info fs = Inr (code, info', fs')"
  shows "ramfs_ok info'" "size_alloc info' = size_alloc info" "mem_max info' = mem_max info"
proof -
  consider "info' = info" | n where "cp_stat e = Some (True, n)" "int32 n \<le> int32 (mem_max info - used info)"
      "info' = info\<lparr>used := int32 (used info + int32 n)\<rparr>"
    using ramfs_cp_info [OF assms(3)] by fastforce
  then have *: "info' = info \<or> (\<exists>n. 0 \<le> n \<and> n \<le> mem_max info - used info \<and> info' = info\<lparr>used := used info + n\<rparr>)"
  proof cases
    case (2 n)
    then have "0 \<le> n" "int32 n = n" "int32 (mem_max info - used info) = mem_max info - used info"
      using assms(1,2) by (simp_all add: cp_small_def ramfs_ok_def)
    with 2 assms(1) have "0 \<le> n" "n \<le> mem_max info - used info" "int32 (used info + n) = used info + n"
      by (simp_all add: ramfs_ok_def)
    then show ?thesis using 2 \<open>int32 n = n\<close> by auto
  qed simp
  then show "ramfs_ok info'" using assms(1) by (auto simp: ramfs_ok_def)
  from * show "size_alloc info' = size_alloc info" "mem_max info' = mem_max info" by auto
qed

lemma cp_loop_content:
  "cp_loop w k rs out = (out', 0) \<Longrightarrow>
     out' = out @ concat (takeWhile (\<lambda>d. d \<noteq> []) (map the (takeWhile (\<lambda>r. r \<noteq> None) rs)))"
  by (induction w k rs out rule: cp_loop.induct) (auto split: if_splits)

lemma copy_all_ok:
  "ramfs_ok info \<Longrightarrow> \<forall>(e, t) \<in> set xs. cp_small e \<Longrightarrow> copy_all xs info fs = Inr (info', fs') \<Longrightarrow>
     ramfs_ok info' \<and> mem_max info' = mem_max info"
proof (induction xs info fs rule: copy_all.induct)
  case (2 e t xs info fs)
  then obtain code info1 fs1 where cp: "ramfs_cp e t info fs = Inr (code, info1, fs1)"
    by (auto simp: c_then_Inr)
  have "ramfs_ok info1" "mem_max info1 = mem_max info"
    using ramfs_cp_ok [OF _ _ cp] "2.prems" by auto
  then show ?case using "2.IH" [OF cp refl refl] "2.prems" cp by auto
qed simp

section \<open>Properties\<close>

text \<open>C26: However many files are copied into a memory file system that was set up with at most 2147 MB, and whatever
  goes wrong on the way, the memory counted as used stays between zero and the maximum, provided that
  every file is smaller than 2 GB.\<close>

theorem ramfs_memory_bounded:
  assumes "init_ramfs mem root dir alloc_mb max_mb = Inr info" "alloc_mb \<le> 2147"
    and "\<forall>(e, t) \<in> set copies. cp_small e" and "copy_all copies info fs = Inr (info', fs')"
  shows "0 \<le> used info' \<and> used info' \<le> mem_max info \<and> mem_max info \<le> size_alloc info"
proof -
  have "ramfs_ok info" using init_ramfs_ok [OF assms(1,2)] .
  then show ?thesis using copy_all_ok [OF _ assms(3,4)] by (simp add: ramfs_ok_def)
qed

definition sample_cp :: cp_env where
  "sample_cp = \<lparr>cp_alloc = True, cp_stat = Some (True, 5), cp_open_target = True, cp_open_src = True,
     cp_reads = [Some ''abc'', Some ''de'', Some []], cp_write_ok = (\<lambda>_. True),
     cp_close_src = True, cp_close_target = True\<rparr>"

definition sample_ramfs :: ramfs_info where
  "sample_ramfs = \<lparr>root_dir = ''/r'', dirname = ''m'', ramfs_path = ''/r/m'', size_alloc = 10000000,
     used = 0, mem_max = 10000000\<rparr>"

theorem ramfs_memory_bounded_witness:
  "\<exists>info' fs'. copy_all [(sample_cp, Some ''x'')] sample_ramfs Map.empty = Inr (info', fs') \<and>
     0 \<le> used info' \<and> used info' \<le> 10000000"
proof -
  have init: "init_ramfs \<lparr>can_alloc = \<lambda>_. True, junk = \<lambda>_. NUL\<rparr> ''/r'' ''m'' 10 15 = Inr sample_ramfs"
    by (simp add: init_ramfs_def sample_ramfs_def)
  obtain info' fs' where run: "copy_all [(sample_cp, Some ''x'')] sample_ramfs Map.empty = Inr (info', fs')"
    by (simp add: ramfs_cp_def sample_cp_def sample_ramfs_def)
  have "0 \<le> used info' \<and> used info' \<le> mem_max sample_ramfs \<and> mem_max sample_ramfs \<le> size_alloc sample_ramfs"
    by (rule ramfs_memory_bounded [OF init _ _ run]) (simp_all add: cp_small_def sample_cp_def)
  then show ?thesis using run by (auto simp: sample_ramfs_def)
qed

text \<open>A copy that returns 0 has written exactly the bytes that were read from the source, to the target and to no
  other path, and the file did not exist before.\<close>

theorem ramfs_cp_copies:
  assumes "ramfs_cp e (Some t) info fs = Inr (0, info', fs')"
  shows "fs (ramfs_path info @ ''/'' @ t) = None \<and>
    fs' = fs(ramfs_path info @ ''/'' @ t \<mapsto>
      concat (takeWhile (\<lambda>d. d \<noteq> []) (map the (takeWhile (\<lambda>r. r \<noteq> None) (cp_reads e)))))"
  using assms cp_loop_content [of "cp_write_ok e" 0 "cp_reads e" "[]"]
  by (auto simp: ramfs_cp_def Let_def split: option.splits if_splits prod.splits)

theorem ramfs_cp_copies_witness:
  "\<exists>info'. ramfs_cp sample_cp (Some ''x'') sample_ramfs Map.empty = Inr (0, info', [''/r/m/x'' \<mapsto> ''abcde''])"
proof -
  have "ramfs_cp sample_cp (Some ''x'') sample_ramfs Map.empty =
      Inr (0, sample_ramfs\<lparr>used := 5\<rparr>, [''/r/m/x'' \<mapsto> ''abcde''])"
    by (simp add: ramfs_cp_def sample_cp_def sample_ramfs_def)
  from ramfs_cp_copies [OF this] this show ?thesis by (simp add: sample_ramfs_def sample_cp_def)
qed

text \<open>A file of two to four gigabytes passes the test for free memory and makes the memory counted as used
  negative: its size is cut to an \<open>int\<close>.\<close>

theorem huge_file_not_counted:
  assumes "cp_alloc e" "cp_stat e = Some (True, n)" "2 ^ 31 \<le> n" "n < 2 ^ 32" "fs (ramfs_path info @ ''/'' @ t) = None"
    and "cp_open_target e" "cp_open_src e" "cp_loop (cp_write_ok e) 0 (cp_reads e) [] = (out, 0)"
    and "cp_close_src e" "cp_close_target e" "used info = 0" "0 \<le> mem_max info" "mem_max info < 2 ^ 31"
  shows "\<exists>fs'. ramfs_cp e (Some t) info fs = Inr (0, info\<lparr>used := n - 2 ^ 32\<rparr>, fs') \<and> n - 2 ^ 32 < 0"
proof -
  have "(n + 2 ^ 31) mod 2 ^ 32 = n + 2 ^ 31 - 2 ^ 32"
    using assms(3,4) by (intro int_mod_pos_eq [where q = 1]) simp_all
  then have n: "int32 n = n - 2 ^ 32" by (simp add: int32_def)
  then show ?thesis using assms by (simp add: ramfs_cp_def)
qed

theorem huge_file_not_counted_witness:
  "\<exists>fs'. ramfs_cp (sample_cp\<lparr>cp_stat := Some (True, 3000000000)\<rparr>) (Some ''x'') sample_ramfs Map.empty =
     Inr (0, sample_ramfs\<lparr>used := 3000000000 - 2 ^ 32\<rparr>, fs')"
  using huge_file_not_counted [of "sample_cp\<lparr>cp_stat := Some (True, 3000000000)\<rparr>" 3000000000 Map.empty
      sample_ramfs "''x''" "''abcde''"]
  by (simp add: sample_cp_def sample_ramfs_def)

end
