(* ===== verification/Feed.thy ===== *)
theory Feed
  imports Ramfs
begin

text \<open>
  The store of input and expected output files (\<open>src/feed.c\<close>), kept in the memory file system.
\<close>

section \<open>Operations\<close>

datatype mkdir_answer = Made | Exists | Mkdir_error

text \<open>The code and the workspace it sets.\<close>

definition jug_feed_init :: "allocator \<Rightarrow> ramfs_info \<Rightarrow> mkdir_answer \<Rightarrow> (int \<times> string option) c_result" where
  "jug_feed_init mem ramfs a =
     (if \<not> can_alloc mem (length (ramfs_path ramfs) + 100) then Inl Null_deref
      else Inr (if a = Mkdir_error then (-1, None) else (0, Some (ramfs_path ramfs @ ''/'' @ ''feed-workspace''))))"

definition feed_filename :: "string \<Rightarrow> int \<Rightarrow> int \<Rightarrow> string \<Rightarrow> string" where
  "feed_filename workspace worker_id now tag =
     workspace @ ''/'' @ dec_int worker_id @ ''_'' @ dec_int (int32 now) @ ''_'' @ tag @ ''.data''"

text \<open>What the calls answer: the time, and whether the file can be opened and written.\<close>

record feed_env =
  fe_now :: int
  fe_open :: bool
  fe_puts :: bool

text \<open>The name goes into \<open>malloc(strlen(g_feed_workspace)+100)\<close>; the result is \<open>NULL\<close> on failure. A file that
  cannot be written stays behind.\<close>

definition jug_feed_new_file ::
  "allocator \<Rightarrow> feed_env \<Rightarrow> string \<Rightarrow> string \<Rightarrow> int \<Rightarrow> string \<Rightarrow> files \<Rightarrow> (string option \<times> files) c_result" where
  "jug_feed_new_file mem e workspace content worker_id tag fs =
     (let filename = feed_filename workspace worker_id (fe_now e) tag in
      if \<not> can_alloc mem (length workspace + 100) then Inl Null_deref
      else if length filename + 1 > length workspace + 100 then Inl Buffer_overflow
      else if \<not> fe_open e then Inr (None, fs)
      else if \<not> fe_puts e then Inr (None, fs(filename \<mapsto> []))
      else Inr (Some filename, fs(filename \<mapsto> content)))"

definition jug_feed_remove_by_name :: "string \<Rightarrow> files \<Rightarrow> files" where
  "jug_feed_remove_by_name filename fs = fs(filename := None)"

section \<open>Laws\<close>

lemma feed_filename_inject:
  "feed_filename ws w n tag = feed_filename ws w' n' tag' \<longleftrightarrow> w = w' \<and> int32 n = int32 n' \<and> tag = tag'"
  using append_Cons_eq_iff [of "CHR ''_''" "dec_int w" "dec_int w'"]
    append_Cons_eq_iff [of "CHR ''_''" "dec_int (int32 n)" "dec_int (int32 n')"]
  by (auto simp: feed_filename_def dec_int_inject)

lemma feed_filename_fits:
  assumes "int32 w = w" "length tag \<le> 69"
  shows "length (feed_filename ws w n tag) + 1 \<le> length ws + 100"
  using length_dec_int32 [of w] length_dec_int32 [of n] assms by (simp add: feed_filename_def)

section \<open>Properties\<close>

text \<open>For every worker and a tag of at most 69 characters the name of a feed file fits its buffer, and if the file
  can be opened and written the store holds exactly the content under that name and is unchanged elsewhere;
  removing the file again gives the store without it.\<close>

theorem feed_file_stored:
  assumes "int32 worker_id = worker_id" "length tag \<le> 69" "can_alloc mem (length ws + 100)" "fe_open e" "fe_puts e"
  shows "\<exists>name fs'. jug_feed_new_file mem e ws content worker_id tag fs = Inr (Some name, fs') \<and>
    fs' name = Some content \<and> (\<forall>p. p = name \<or> fs' p = fs p) \<and>
    jug_feed_remove_by_name name fs' = fs(name := None)"
  using assms feed_filename_fits [OF assms(1,2), of ws "fe_now e"]
  by (simp add: jug_feed_new_file_def jug_feed_remove_by_name_def Let_def)

theorem feed_file_stored_witness:
  "\<exists>name fs'. jug_feed_new_file \<lparr>can_alloc = \<lambda>_. True, junk = \<lambda>_. NUL\<rparr>
      \<lparr>fe_now = 1500000000, fe_open = True, fe_puts = True\<rparr> ''/f'' ''3 4'' 7 ''input'' Map.empty = Inr (Some name, fs') \<and>
    fs' name = Some ''3 4''"
  using feed_file_stored [of 7 "''input''" "\<lparr>can_alloc = \<lambda>_. True, junk = \<lambda>_. NUL\<rparr>" "''/f''"
      "\<lparr>fe_now = 1500000000, fe_open = True, fe_puts = True\<rparr>" "''3 4''" Map.empty] by force

text \<open>Files of different workers, or of different tags, never share a name, so workers that judge at the same time do
  not overwrite each other's input or expected output: after both files are written each holds its own content.\<close>

theorem feed_files_do_not_interfere:
  assumes "jug_feed_new_file mem e ws content w tag fs = Inr (Some name, fs1)"
    and "jug_feed_new_file mem' e' ws content' w' tag' fs1 = Inr (Some name', fs2)"
    and "(w, tag) \<noteq> (w', tag')"
  shows "name \<noteq> name' \<and> fs2 name = Some content \<and> fs2 name' = Some content'"
proof -
  have "name = feed_filename ws w (fe_now e) tag" "fs1 = fs(name \<mapsto> content)"
      "name' = feed_filename ws w' (fe_now e') tag'" "fs2 = fs1(name' \<mapsto> content')"
    using assms(1,2) by (auto simp: jug_feed_new_file_def Let_def split: if_splits)
  then show ?thesis using assms(3) feed_filename_inject [of ws w "fe_now e" tag w' "fe_now e'" tag'] by auto
qed

theorem feed_files_do_not_interfere_witness:
  "\<exists>name fs1 name' fs2.
     jug_feed_new_file \<lparr>can_alloc = \<lambda>_. True, junk = \<lambda>_. NUL\<rparr> \<lparr>fe_now = 1, fe_open = True, fe_puts = True\<rparr>
       ''/f'' ''a'' 1 ''input'' Map.empty = Inr (Some name, fs1) \<and>
     jug_feed_new_file \<lparr>can_alloc = \<lambda>_. True, junk = \<lambda>_. NUL\<rparr> \<lparr>fe_now = 1, fe_open = True, fe_puts = True\<rparr>
       ''/f'' ''b'' 2 ''input'' fs1 = Inr (Some name', fs2) \<and>
     fs2 name = Some ''a'' \<and> fs2 name' = Some ''b''"
proof -
  let ?m = "\<lparr>can_alloc = \<lambda>_. True, junk = \<lambda>_. NUL\<rparr>" and ?e = "\<lparr>fe_now = 1, fe_open = True, fe_puts = True\<rparr>"
  have 1: "jug_feed_new_file ?m ?e ''/f'' ''a'' 1 ''input'' Map.empty =
      Inr (Some (feed_filename ''/f'' 1 1 ''input''), [feed_filename ''/f'' 1 1 ''input'' \<mapsto> ''a''])"
    using feed_filename_fits [of 1 "''input''" "''/f''" 1] by (simp add: jug_feed_new_file_def Let_def)
  have 2: "jug_feed_new_file ?m ?e ''/f'' ''b'' 2 ''input'' [feed_filename ''/f'' 1 1 ''input'' \<mapsto> ''a''] =
      Inr (Some (feed_filename ''/f'' 2 1 ''input''), [feed_filename ''/f'' 1 1 ''input'' \<mapsto> ''a'',
        feed_filename ''/f'' 2 1 ''input'' \<mapsto> ''b''])"
    using feed_filename_fits [of 2 "''input''" "''/f''" 1] by (simp add: jug_feed_new_file_def Let_def)
  show ?thesis using 1 2 feed_files_do_not_interfere [OF 1 2] by auto
qed

end
