(* ===== verification/Lang.thy ===== *)
theory Lang
  imports Ramfs Config Feed
begin

text \<open>
  The languages (\<open>src/lang.c\<close>, \<open>src/lang.h\<close>): the table that is read from the configuration, and turning the
  source of a submission into something that can be run. The members of \<open>Lang\<close> are arrays of fixed size,
  so they are modelled as the bytes they hold. The compiler is a parameter: the command line it is
  started with and the file store it leaves.
\<close>

section \<open>The table\<close>

datatype lang_type = LANG_COMPILED | LANG_INTERPRETED | LANG_VM

record Lang =
  lang_kind :: lang_type
  lang_id :: "char list"
  version :: "char list"
  label :: "char list"
  cmd_compile :: "char list"
  cmd_interpr :: "char list"
  cmd_vm :: "char list"
  ext_compile :: "char list"
  ext_interpr :: "char list"
  ext_vm :: "char list"

text \<open>The arrays are global, so they start with zeros.\<close>

definition blank_lang :: Lang where
  "blank_lang = \<lparr>lang_kind = LANG_COMPILED, lang_id = replicate 20 NUL, version = replicate 30 NUL,
     label = replicate 80 NUL, cmd_compile = replicate 100 NUL, cmd_interpr = replicate 100 NUL,
     cmd_vm = replicate 100 NUL, ext_compile = replicate 20 NUL, ext_interpr = replicate 20 NUL,
     ext_vm = replicate 20 NUL\<rparr>"

definition LANG_WORKERS_MAX_NBR :: nat where "LANG_WORKERS_MAX_NBR = 40"
definition LANG_MAX :: nat where "LANG_MAX = 19"

record lang_state =
  g_languages :: "Lang list"
  g_languages_count :: nat
  g_lang_workspace :: "string option"
  lang_workspace_inited :: "bool list"

definition lang_start :: lang_state where
  "lang_start = \<lparr>g_languages = replicate LANG_MAX blank_lang, g_languages_count = 0, g_lang_workspace = None,
     lang_workspace_inited = replicate LANG_WORKERS_MAX_NBR False\<rparr>"

text \<open>\<open>strncpy(arr, s, strlen(s))\<close>: no terminator is written. \<open>strcpy\<close> writes one.\<close>

definition put_bytes :: "char list \<Rightarrow> string \<Rightarrow> char list c_result" where
  "put_bytes arr s = (if length s \<le> length arr then Inr (s @ drop (length s) arr) else Inl Buffer_overflow)"

definition put_string :: "char list \<Rightarrow> string \<Rightarrow> char list c_result" where
  "put_string arr s =
     (if length s < length arr then Inr (s @ NUL # drop (length s + 1) arr) else Inl Buffer_overflow)"

definition clear_string :: "char list \<Rightarrow> char list" where
  "clear_string arr = arr[0 := NUL]"

text \<open>A field up to the next comma, stored in \<open>arr\<close>, and the text after the comma. Without a comma \<open>strchr\<close> returns
  \<open>NULL\<close> and the length of the copy becomes an enormous number.\<close>

definition take_field :: "char list \<Rightarrow> string \<Rightarrow> (char list \<times> string) c_result" where
  "take_field arr p = (case find_sub [CHR '',''] p of
       None \<Rightarrow> Inl Buffer_overflow
     | Some k \<Rightarrow> c_then (put_bytes arr (take k p)) (\<lambda>arr'. Inr (arr', drop (k + 1) p)))"

text \<open>The bodies of the three loops of \<open>lang_init\<close>: key and value of an entry.\<close>

definition read_compiler :: "Lang \<Rightarrow> string \<Rightarrow> string \<Rightarrow> Lang c_result" where
  "read_compiler l key val =
     c_then (put_string (lang_id l) key) (\<lambda>i. c_then (take_field (version l) val) (\<lambda>(v, p).
     c_then (take_field (label l) p) (\<lambda>(la, p). c_then (take_field (cmd_compile l) p) (\<lambda>(c, p).
     c_then (put_string (ext_compile l) p) (\<lambda>x.
     Inr (l\<lparr>lang_kind := LANG_COMPILED, lang_id := i, version := v, label := la, cmd_compile := c,
       ext_compile := x, cmd_interpr := clear_string (cmd_interpr l), cmd_vm := clear_string (cmd_vm l),
       ext_interpr := clear_string (ext_interpr l), ext_vm := clear_string (ext_vm l)\<rparr>))))))"

definition read_interpreter :: "Lang \<Rightarrow> string \<Rightarrow> string \<Rightarrow> Lang c_result" where
  "read_interpreter l key val =
     c_then (put_string (lang_id l) key) (\<lambda>i. c_then (take_field (version l) val) (\<lambda>(v, p).
     c_then (take_field (label l) p) (\<lambda>(la, p). c_then (take_field (cmd_interpr l) p) (\<lambda>(c, p).
     c_then (put_string (ext_interpr l) p) (\<lambda>x.
     Inr (l\<lparr>lang_kind := LANG_INTERPRETED, lang_id := i, version := v, label := la, cmd_interpr := c,
       ext_interpr := x, cmd_compile := clear_string (cmd_compile l), cmd_vm := clear_string (cmd_vm l),
       ext_compile := clear_string (ext_compile l), ext_vm := clear_string (ext_vm l)\<rparr>))))))"

definition read_vm :: "Lang \<Rightarrow> string \<Rightarrow> string \<Rightarrow> Lang c_result" where
  "read_vm l key val =
     c_then (put_string (lang_id l) key) (\<lambda>i. c_then (take_field (version l) val) (\<lambda>(v, p).
     c_then (take_field (label l) p) (\<lambda>(la, p). c_then (take_field (cmd_compile l) p) (\<lambda>(c, p).
     c_then (take_field (ext_compile l) p) (\<lambda>(x, p). c_then (take_field (cmd_vm l) p) (\<lambda>(cv, p).
     c_then (put_string (ext_vm l) p) (\<lambda>xv.
     Inr (l\<lparr>lang_kind := LANG_VM, lang_id := i, version := v, label := la, cmd_compile := c,
       ext_compile := x, cmd_vm := cv, ext_vm := xv, cmd_interpr := clear_string (cmd_interpr l),
       ext_interpr := clear_string (ext_interpr l)\<rparr>))))))))"

text \<open>A loop over the entries of a section.\<close>

fun read_langs ::
  "(Lang \<Rightarrow> string \<Rightarrow> string \<Rightarrow> Lang c_result) \<Rightarrow> (string \<times> string) list \<Rightarrow> lang_state \<Rightarrow> lang_state c_result" where
  "read_langs rd [] st = Inr st"
| "read_langs rd ((key, val) # kvs) st =
     (let n = g_languages_count st in
      if n \<ge> length (g_languages st) then Inl Buffer_overflow
      else c_then (rd (g_languages st ! n) key val) (\<lambda>l.
        read_langs rd kvs (st\<lparr>g_languages := (g_languages st)[n := l], g_languages_count := n + 1\<rparr>)))"

definition lang_init ::
  "config_env \<Rightarrow> ramfs_info \<Rightarrow> mkdir_answer \<Rightarrow> config_state \<Rightarrow> lang_state \<Rightarrow>
     (int \<times> lang_state \<times> config_state) c_result" where
  "lang_init env ramfs a cst st =
     c_then (jug_ini_get_section env ''compilers'' cst) (\<lambda>(comp, cst1).
     c_then (jug_ini_get_section env ''interpreters'' cst1) (\<lambda>(inter, cst2).
     c_then (jug_ini_get_section env ''virtual machines'' cst2) (\<lambda>(vms, cst3).
     c_then (read_langs read_compiler comp (st\<lparr>g_languages_count := 0\<rparr>)) (\<lambda>st1.
     c_then (read_langs read_interpreter inter st1) (\<lambda>st2.
     c_then (read_langs read_vm vms st2) (\<lambda>st3.
       if \<not> can_alloc (conf_mem env) (length (ramfs_path ramfs) + 100) then Inl Null_deref
       else if a = Mkdir_error then Inr (-5, st3, cst3)
       else Inr (0, st3\<lparr>g_lang_workspace := Some (ramfs_path ramfs @ ''/'' @ ''lang-workspace'')\<rparr>, cst3)))))))"

definition lang_get :: "lang_state \<Rightarrow> string \<Rightarrow> Lang option" where
  "lang_get st langid = find (\<lambda>l. cstr (lang_id l) = langid) (take (g_languages_count st) (g_languages st))"

section \<open>Processing a submission\<close>

record BinaryInformation =
  bi_cmd :: "string option"        \<comment> \<open>\<open>None\<close>: not set\<close>
  bi_path :: "string option"
  interpreted :: "int option"

definition blank_bin :: BinaryInformation where
  "blank_bin = \<lparr>bi_cmd = None, bi_path = None, interpreted = None\<rparr>"

text \<open>\<open>sprintf\<close> with a format whose conversions are \<open>%s\<close>; arguments that are left over are ignored.\<close>

fun c_fmt :: "string \<Rightarrow> string list \<Rightarrow> string c_result" where
  "c_fmt [] args = Inr []"
| "c_fmt (c # f) args =
     (if c \<noteq> CHR ''%'' then c_then (c_fmt f args) (\<lambda>s. Inr (c # s))
      else case f of
        [] \<Rightarrow> Inl Bad_format
      | d # f' \<Rightarrow>
          if d = CHR ''%'' then c_then (c_fmt f' args) (\<lambda>s. Inr (CHR ''%'' # s))
          else if d = CHR ''s'' then
            (case args of [] \<Rightarrow> Inl Bad_format | a # as \<Rightarrow> c_then (c_fmt f' as) (\<lambda>s. Inr (a @ s)))
          else Inl Bad_format)"

text \<open>The string in an array. \<open>strncpy\<close> may have left it without a terminator; it is then read past its end.\<close>

definition array_str :: "char list \<Rightarrow> string c_result" where
  "array_str arr = (if NUL \<in> set arr then Inr (cstr arr) else Inl Out_of_bounds)"

text \<open>A string printed into \<open>malloc(n)\<close>.\<close>

definition print_to :: "nat \<Rightarrow> string \<Rightarrow> string c_result" where
  "print_to n s = (if length s + 1 \<le> n then Inr s else Inl Buffer_overflow)"

record lang_env =
  le_mkdir :: mkdir_answer
  le_open :: bool
  le_puts :: bool
  compiler :: "string \<Rightarrow> files \<Rightarrow> files"

definition submission_file :: "string \<Rightarrow> int \<Rightarrow> string" where
  "submission_file workspace worker_id = workspace @ ''/'' @ dec_int worker_id @ ''/Submission''"

definition submission_ext :: "string \<Rightarrow> int \<Rightarrow> string \<Rightarrow> string" where
  "submission_ext workspace worker_id ext =
     workspace @ ''/'' @ dec_int worker_id @ ''/Submission.'' @ ext"

text \<open>The compiling layer: the code (\<open>0\<close>: go on), the name of the result and the files.\<close>

definition lang_compile ::
  "lang_env \<Rightarrow> Lang \<Rightarrow> nat \<Rightarrow> string \<Rightarrow> int \<Rightarrow> string \<Rightarrow> files \<Rightarrow> (int \<times> string \<times> files) c_result" where
  "lang_compile e l plen workspace worker_id source fs =
     c_then (array_str (ext_compile l)) (\<lambda>x. c_then (print_to (plen + 50) (submission_ext workspace worker_id x)) (\<lambda>text.
       if \<not> le_open e then Inr (-2, [], fs)
       else if \<not> le_puts e then Inr (-5, [], fs(text \<mapsto> []))
       else c_then
           (if lang_kind l = LANG_VM
            then c_then (array_str (ext_vm l)) (\<lambda>x. print_to (plen + 50) (submission_ext workspace worker_id x))
            else print_to (plen + 50) (submission_file workspace worker_id)) (\<lambda>out.
         c_then (array_str (cmd_compile l)) (\<lambda>f. c_then (c_fmt f [text, out]) (\<lambda>cmd.
         c_then (print_to (plen + 200) cmd) (\<lambda>cmdline.
           let fs1 = (fs(text \<mapsto> source))(out := None);
               fs2 = compiler e cmdline fs1 in
           if fs2 out = None then Inr (-3, out, fs2)
           else Inr (0, out, fs2(text := None))))))))"

text \<open>The command that runs the result.\<close>

definition lang_command :: "Lang \<Rightarrow> string \<Rightarrow> string c_result" where
  "lang_command l out = (case lang_kind l of
       LANG_COMPILED \<Rightarrow> Inr out
     | LANG_VM \<Rightarrow> c_then (array_str (cmd_vm l)) (\<lambda>f. c_fmt f [out])
     | LANG_INTERPRETED \<Rightarrow> c_then (array_str (cmd_interpr l)) (\<lambda>f. c_fmt f [out]))"

text \<open>What \<open>lang_process\<close> does once it has found the language.\<close>

definition lang_build ::
  "allocator \<Rightarrow> lang_env \<Rightarrow> ramfs_info \<Rightarrow> Lang \<Rightarrow> string \<Rightarrow> int \<Rightarrow> string \<Rightarrow> BinaryInformation \<Rightarrow> files \<Rightarrow>
     (int \<times> BinaryInformation \<times> files) c_result" where
  "lang_build mem e ramfs l ws worker_id source bi fs =
     (let plen = length (ramfs_path ramfs); bi1 = bi\<lparr>bi_cmd := Some [], bi_path := Some []\<rparr> in
      if \<not> can_alloc mem (plen + 50) \<or> \<not> can_alloc mem (plen + 200) \<or> \<not> can_alloc mem 300
      then Inl Null_deref
      else c_then
        (if lang_kind l = LANG_INTERPRETED
         then c_then (array_str (ext_interpr l)) (\<lambda>x.
           c_then (print_to (plen + 50) (submission_ext ws worker_id x)) (\<lambda>out. Inr (0, out, fs)))
         else lang_compile e l plen ws worker_id source fs) (\<lambda>(code, out, fs1).
        if code \<noteq> 0 then Inr (code, bi1, fs1)
        else c_then (lang_command l out) (\<lambda>cmd. c_then (print_to 300 cmd) (\<lambda>cmd.
          c_then (print_to 300 out) (\<lambda>path.
            Inr (0, bi1\<lparr>bi_cmd := Some cmd, bi_path := Some path,
              interpreted := Some (if lang_kind l = LANG_COMPILED then 0 else 1)\<rparr>, fs1))))))"

definition lang_process ::
  "allocator \<Rightarrow> lang_env \<Rightarrow> ramfs_info \<Rightarrow> string \<Rightarrow> string \<Rightarrow> int \<Rightarrow> lang_state \<Rightarrow> BinaryInformation \<Rightarrow> files \<Rightarrow>
     (int \<times> lang_state \<times> BinaryInformation \<times> files) c_result" where
  "lang_process mem e ramfs langid source worker_id st bi fs =
     (if worker_id < 0 \<or> nat worker_id \<ge> length (lang_workspace_inited st) then Inl Out_of_bounds
      else case g_lang_workspace st of
        None \<Rightarrow> Inl Null_deref
      | Some ws \<Rightarrow>
          if \<not> lang_workspace_inited st ! nat worker_id \<and> \<not> can_alloc mem (length ws + 20) then Inl Null_deref
          else if \<not> lang_workspace_inited st ! nat worker_id \<and> le_mkdir e = Mkdir_error then Inr (-2, st, bi, fs)
          else
            let st1 = st\<lparr>lang_workspace_inited := (lang_workspace_inited st)[nat worker_id := True]\<rparr> in
            case lang_get st1 langid of
              None \<Rightarrow> Inr (-1, st1, bi, fs)
            | Some l \<Rightarrow> c_then (lang_build mem e ramfs l ws worker_id source bi fs) (\<lambda>(code, bi1, fs1).
                Inr (code, st1, bi1, fs1)))"

definition lang_remove_binary :: "string \<Rightarrow> files \<Rightarrow> files" where
  "lang_remove_binary path fs = fs(path := None)"

text \<open>\<open>lang_free_BinaryInformation\<close> frees both pointers, whether or not \<open>lang_process\<close> set them.\<close>

definition lang_free_BinaryInformation :: "BinaryInformation \<Rightarrow> BinaryInformation c_result" where
  "lang_free_BinaryInformation bi =
     (if bi_cmd bi = None \<or> bi_path bi = None then Inl Uninitialised
      else Inr (bi\<lparr>bi_cmd := None, bi_path := None\<rparr>))"

section \<open>Laws\<close>

lemma array_str_ok [simp]: "NUL \<in> set arr \<Longrightarrow> array_str arr = Inr (cstr arr)"
  by (simp add: array_str_def)

lemma put_string_cstr: "NUL \<notin> set s \<Longrightarrow> put_string arr s = Inr arr' \<Longrightarrow> cstr arr' = s"
  by (auto simp: put_string_def split: if_splits)

lemma take_field_at:
  assumes "CHR '','' \<notin> set s" "length s < n" "NUL \<notin> set s"
  shows "take_field (replicate n NUL) (s @ CHR '','' # r) = Inr (s @ replicate (n - length s) NUL, r)"
  using assms by (simp add: take_field_def find_sub_char put_bytes_def)

lemma cstr_shorter: "length (cstr arr) < length arr \<Longrightarrow> NUL \<in> set arr"
  by (induction arr) (auto simp: cstr_def split: if_splits)

lemma cstr_padded: "NUL \<notin> set s \<Longrightarrow> length s < n \<Longrightarrow> cstr (s @ replicate (n - length s) NUL) = s"
  by (cases "n - length s") simp_all

lemma put_string_at:
  "length s < n \<Longrightarrow> put_string (replicate n NUL) s = Inr (s @ NUL # replicate (n - (length s + 1)) NUL)"
  by (simp add: put_string_def)

definition field_ok :: "nat \<Rightarrow> string \<Rightarrow> bool" where
  "field_ok n s \<longleftrightarrow> length s < n \<and> NUL \<notin> set s \<and> CHR '','' \<notin> set s"

lemma length_dec_worker: "0 \<le> w \<Longrightarrow> w < 40 \<Longrightarrow> length (dec_int w) \<le> 2"
  using length_dec_nat_bound [of "nat w" 2] by (simp add: dec_int_def nat_less_iff)

text \<open>With at most 40 workers the names fit, whatever the extensions are.\<close>

lemma submission_fits:
  assumes "0 \<le> w" "w < 40" "length x < 20" "ws = p @ ''/lang-workspace''"
  shows "print_to (length p + 50) (submission_ext ws w x) = Inr (submission_ext ws w x)"
    "print_to (length p + 50) (submission_file ws w) = Inr (submission_file ws w)"
  using length_dec_worker [OF assms(1,2)] assms(3,4)
  by (simp_all add: print_to_def submission_ext_def submission_file_def)

lemma lang_process_compiled:
  assumes "0 \<le> w" "w < 40" "length (lang_workspace_inited st) = 40"
    and "ramfs_path ramfs = p" "g_lang_workspace st = Some ws" "ws = p @ ''/lang-workspace''" "length p \<le> 200"
    and "lang_get st langid = Some l" "lang_kind l = LANG_COMPILED" "length (ext_compile l) = 20"
    and "NUL \<in> set (ext_compile l)" "NUL \<in> set (cmd_compile l)"
    and "\<And>n. n \<le> 1000 \<Longrightarrow> can_alloc mem n" "le_mkdir e \<noteq> Mkdir_error" "le_open e" "le_puts e"
    and "srcfile = submission_ext ws w (cstr (ext_compile l))" "out = submission_file ws w"
    and "c_fmt (cstr (cmd_compile l)) [srcfile, out] = Inr cmd" "length cmd < length p + 200"
    and "fs1 = compiler e cmd ((fs(srcfile \<mapsto> source))(out := None))"
    and "st1 = st\<lparr>lang_workspace_inited := (lang_workspace_inited st)[nat w := True]\<rparr>"
  shows "lang_process mem e ramfs langid source w st bi fs =
    (if fs1 out = None
     then Inr (-3, st1, bi\<lparr>bi_cmd := Some [], bi_path := Some []\<rparr>, fs1)
     else Inr (0, st1, bi\<lparr>bi_cmd := Some out, bi_path := Some out, interpreted := Some 0\<rparr>, fs1(srcfile := None)))"
proof -
  have "length (cstr (ext_compile l)) < 20" using assms(10,11) length_cstr by metis
  note fits = submission_fits [OF assms(1,2) this assms(6)]
  have "length out < 300"
    using length_dec_worker [OF assms(1,2)] assms(6,7) by (simp add: assms(18) submission_file_def)
  moreover have "print_to (length p + 200) cmd = Inr cmd" using assms(20) by (simp add: print_to_def)
  moreover have "lang_get (st\<lparr>lang_workspace_inited := i\<rparr>) langid = Some l" for i
    using assms(8) by (simp add: lang_get_def)
  moreover have "nat w < 40" using assms(1,2) by simp
  ultimately show ?thesis
    using assms fits
    by (simp add: lang_process_def lang_build_def lang_compile_def lang_command_def print_to_def Let_def)
qed

text \<open>The arrays keep their sizes, the table and the flags theirs; the names of the languages that were read are
  terminated, and so are the extensions of compiled languages.\<close>

definition lang_wf :: "Lang \<Rightarrow> bool" where
  "lang_wf l \<longleftrightarrow> length (lang_id l) = 20 \<and> length (version l) = 30 \<and> length (label l) = 80 \<and>
     length (cmd_compile l) = 100 \<and> length (cmd_interpr l) = 100 \<and> length (cmd_vm l) = 100 \<and>
     length (ext_compile l) = 20 \<and> length (ext_interpr l) = 20 \<and> length (ext_vm l) = 20"

definition lang_named :: "Lang \<Rightarrow> bool" where
  "lang_named l \<longleftrightarrow> NUL \<in> set (lang_id l) \<and> (lang_kind l = LANG_COMPILED \<longrightarrow> NUL \<in> set (ext_compile l))"

definition lang_state_wf :: "lang_state \<Rightarrow> bool" where
  "lang_state_wf st \<longleftrightarrow> length (g_languages st) = LANG_MAX \<and> (\<forall>l \<in> set (g_languages st). lang_wf l) \<and>
     g_languages_count st \<le> LANG_MAX \<and> (\<forall>l \<in> set (take (g_languages_count st) (g_languages st)). lang_named l) \<and>
     length (lang_workspace_inited st) = LANG_WORKERS_MAX_NBR"

lemma lang_start_wf: "lang_state_wf lang_start"
  by (simp add: lang_state_wf_def lang_start_def LANG_MAX_def lang_wf_def blank_lang_def)

lemma put_length:
  "put_bytes arr s = Inr arr' \<Longrightarrow> length arr' = length arr"
  "put_string arr s = Inr arr' \<Longrightarrow> length arr' = length arr \<and> NUL \<in> set arr'"
  "take_field arr p = Inr (arr', q) \<Longrightarrow> length arr' = length arr"
  "length (clear_string arr) = length arr"
  by (auto simp: put_bytes_def put_string_def take_field_def clear_string_def c_then_Inr
      split: if_splits option.splits)

lemmas read_defs = read_compiler_def read_interpreter_def read_vm_def

lemma read_wf:
  assumes "lang_wf l" "rd \<in> {read_compiler, read_interpreter, read_vm}" "rd l key val = Inr l'"
  shows "lang_wf l' \<and> lang_named l'"
  using assms by (auto simp: read_defs lang_wf_def lang_named_def c_then_Inr put_length dest!: put_length(2,3))

lemma read_langs_wf:
  "rd \<in> {read_compiler, read_interpreter, read_vm} \<Longrightarrow> lang_state_wf st \<Longrightarrow> read_langs rd kvs st = Inr st' \<Longrightarrow>
     lang_state_wf st'"
proof (induction rd kvs st rule: read_langs.induct)
  case (2 rd key val kvs st)
  let ?n = "g_languages_count st"
  have n: "?n < length (g_languages st)" using "2.prems"(3) by (auto simp: Let_def split: if_splits)
  then obtain l where l: "rd (g_languages st ! ?n) key val = Inr l"
      "read_langs rd kvs (st\<lparr>g_languages := (g_languages st)[?n := l], g_languages_count := ?n + 1\<rparr>) = Inr st'"
    using "2.prems"(3) by (auto simp: Let_def c_then_Inr)
  have "lang_wf (g_languages st ! ?n)" using "2.prems"(2) n by (simp add: lang_state_wf_def)
  then have "lang_wf l \<and> lang_named l" using read_wf [OF _ "2.prems"(1) l(1)] by simp
  then have "lang_state_wf (st\<lparr>g_languages := (g_languages st)[?n := l], g_languages_count := ?n + 1\<rparr>)"
    using "2.prems"(2) n
    by (auto simp: lang_state_wf_def take_Suc_conv_app_nth dest: set_update_subset_insert [THEN subsetD])
  then show ?case
    using "2.IH" [OF refl _ l(1) "2.prems"(1)] l(2) n by simp
qed simp

lemma lang_process_state:
  assumes "lang_process mem e ramfs langid source w st bi fs = Inr (code, st', bi', fs')"
  shows "st' = st \<or> st' = st\<lparr>lang_workspace_inited := (lang_workspace_inited st)[nat w := True]\<rparr>"
  using assms by (auto simp: lang_process_def Let_def c_then_Inr split: if_splits option.splits)

lemma lang_process_wf:
  "lang_state_wf st \<Longrightarrow> lang_process mem e ramfs langid source w st bi fs = Inr (code, st', bi', fs') \<Longrightarrow>
     lang_state_wf st' \<and> g_languages st' = g_languages st \<and> g_languages_count st' = g_languages_count st \<and>
     g_lang_workspace st' = g_lang_workspace st"
  by (drule lang_process_state) (auto simp: lang_state_wf_def)

lemma lang_get_named:
  assumes "lang_state_wf st" "lang_get st langid = Some l"
  shows "lang_wf l \<and> lang_named l \<and> cstr (lang_id l) = langid"
proof -
  have "l \<in> set (take (g_languages_count st) (g_languages st))" "cstr (lang_id l) = langid"
    using assms(2) unfolding lang_get_def find_Some_iff by (auto simp del: nth_take)
  then show ?thesis using assms(1) by (auto simp: lang_state_wf_def dest: in_set_takeD)
qed

lemma lang_init_wf:
  assumes "lang_state_wf st" "lang_init env ramfs a cst st = Inr (code, st', cst')"
  shows "lang_state_wf st' \<and> (code = 0 \<longrightarrow> g_lang_workspace st' = Some (ramfs_path ramfs @ ''/lang-workspace''))"
proof -
  obtain comp inter vms st1 st2 st3 where r: "read_langs read_compiler comp (st\<lparr>g_languages_count := 0\<rparr>) = Inr st1"
      "read_langs read_interpreter inter st1 = Inr st2" "read_langs read_vm vms st2 = Inr st3"
      and st': "st' = (if code = 0 then st3\<lparr>g_lang_workspace := Some (ramfs_path ramfs @ ''/lang-workspace'')\<rparr> else st3)"
    using assms(2) unfolding lang_init_def c_then_Inr by (auto simp: c_then_Inr split: if_splits prod.splits)
  have "lang_state_wf (st\<lparr>g_languages_count := 0\<rparr>)" using assms(1) by (simp add: lang_state_wf_def)
  from read_langs_wf [OF _ this r(1)] have "lang_state_wf st1" by simp
  from read_langs_wf [OF _ this r(2)] have "lang_state_wf st2" by simp
  from read_langs_wf [OF _ this r(3)] have "lang_state_wf st3" by simp
  then show ?thesis using st' by (simp add: lang_state_wf_def)
qed

section \<open>Properties\<close>

text \<open>The entry of a compiled language that is printed as \<open>version,label,command,extension\<close>, with fields that fit
  their arrays and contain no comma, is read back field by field into a fresh slot of the table.\<close>

theorem compiler_entry_round_trip:
  assumes "field_ok 20 key" "field_ok 30 v" "field_ok 80 la" "field_ok 100 c" "field_ok 20 x"
  shows "\<exists>l. read_compiler blank_lang key (v @ '','' @ la @ '','' @ c @ '','' @ x) = Inr l \<and>
    lang_kind l = LANG_COMPILED \<and> cstr (lang_id l) = key \<and> cstr (version l) = v \<and> cstr (label l) = la \<and>
    cstr (cmd_compile l) = c \<and> cstr (ext_compile l) = x"
  using assms
  by (simp add: field_ok_def read_compiler_def blank_lang_def take_field_at put_string_at cstr_padded)

theorem compiler_entry_round_trip_witness:
  "\<exists>l. read_compiler blank_lang ''c'' ''4.8.4,gcc-4.8.4,gcc %s -o %s,c'' = Inr l \<and>
    lang_kind l = LANG_COMPILED \<and> cstr (cmd_compile l) = ''gcc %s -o %s'' \<and> cstr (ext_compile l) = ''c''"
  using compiler_entry_round_trip [of "''c''" "''4.8.4''" "''gcc-4.8.4''" "''gcc %s -o %s''" "''c''"]
  by (force simp: field_ok_def)

text \<open>C19: Processing a submission in a compiled language, for any of the 40 workers: the compiler is started on a file
  that holds exactly the source, in a store where the result of an earlier submission has been removed. If
  it leaves a result the code is 0, the path and the command are that result, and the source is removed;
  if it does not the code is \<open>-3\<close>. So a binary that is run was made from this source.\<close>

theorem compiled_submission_processed:
  assumes "0 \<le> w" "w < 40" "length (lang_workspace_inited st) = 40"
    and "ramfs_path ramfs = p" "g_lang_workspace st = Some ws" "ws = p @ ''/lang-workspace''" "length p \<le> 200"
    and "lang_get st langid = Some l" "lang_kind l = LANG_COMPILED" "length (ext_compile l) = 20"
    and "NUL \<in> set (ext_compile l)" "NUL \<in> set (cmd_compile l)"
    and "\<And>n. n \<le> 1000 \<Longrightarrow> can_alloc mem n" "le_mkdir e \<noteq> Mkdir_error" "le_open e" "le_puts e"
    and "srcfile = submission_ext ws w (cstr (ext_compile l))" "out = submission_file ws w"
    and "c_fmt (cstr (cmd_compile l)) [srcfile, out] = Inr cmd" "length cmd < length p + 200"
    and "fs1 = compiler e cmd ((fs(srcfile \<mapsto> source))(out := None))"
    and "st1 = st\<lparr>lang_workspace_inited := (lang_workspace_inited st)[nat w := True]\<rparr>"
  shows "lang_process mem e ramfs langid source w st bi fs =
    (if fs1 out = None
     then Inr (-3, st1, bi\<lparr>bi_cmd := Some [], bi_path := Some []\<rparr>, fs1)
     else Inr (0, st1, bi\<lparr>bi_cmd := Some out, bi_path := Some out, interpreted := Some 0\<rparr>, fs1(srcfile := None)))"
  using assms by (rule lang_process_compiled)

definition sample_langs :: lang_state where
  "sample_langs = lang_start\<lparr>g_languages := [blank_lang\<lparr>lang_id := ''c'' @ replicate 19 NUL,
       cmd_compile := ''cc %s %s'' @ replicate 92 NUL, ext_compile := ''c'' @ replicate 19 NUL\<rparr>],
     g_languages_count := 1, g_lang_workspace := Some ''/r/m/lang-workspace''\<rparr>"

text \<open>A compiler that copies its input.\<close>

definition copying :: "string \<Rightarrow> string \<Rightarrow> string \<Rightarrow> files \<Rightarrow> files" where
  "copying text out cmd fs = (if cmd = ''cc '' @ text @ '' '' @ out then fs(out := fs text) else fs)"

theorem compiled_submission_processed_witness:
  "\<exists>st1 fs'. lang_process \<lparr>can_alloc = \<lambda>_. True, junk = \<lambda>_. NUL\<rparr>
      \<lparr>le_mkdir = Made, le_open = True, le_puts = True,
       compiler = copying ''/r/m/lang-workspace/3/Submission.c'' ''/r/m/lang-workspace/3/Submission''\<rparr>
      sample_ramfs ''c'' ''main'' 3 sample_langs blank_bin Map.empty =
    Inr (0, st1, \<lparr>bi_cmd = Some ''/r/m/lang-workspace/3/Submission'',
      bi_path = Some ''/r/m/lang-workspace/3/Submission'', interpreted = Some 0\<rparr>, fs') \<and>
    fs' ''/r/m/lang-workspace/3/Submission'' = Some ''main''"
proof -
  let ?l = "hd (g_languages sample_langs)" and ?ws = "''/r/m/lang-workspace''"
  let ?text = "''/r/m/lang-workspace/3/Submission.c''" and ?out = "''/r/m/lang-workspace/3/Submission''"
  let ?e = "\<lparr>le_mkdir = Made, le_open = True, le_puts = True, compiler = copying ?text ?out\<rparr>"
  have three: "dec_int 3 = ''3''" by code_simp
  have cs: "cstr (''c'' @ replicate 19 NUL) = ''c''" "cstr (''cc %s %s'' @ replicate 92 NUL) = ''cc %s %s''"
    using cstr_padded [of "''c''" 20] cstr_padded [of "''cc %s %s''" 100] by simp_all
  have l: "lang_get sample_langs ''c'' = Some ?l" "cstr (ext_compile ?l) = ''c''"
      "cstr (cmd_compile ?l) = ''cc %s %s''"
    using cs by (simp_all add: sample_langs_def lang_get_def)
  let ?cmd = "''cc '' @ ?text @ '' '' @ ?out" and ?m = "\<lparr>can_alloc = \<lambda>_. True, junk = \<lambda>_. NUL\<rparr>"
  define fs1 where "fs1 = copying ?text ?out ?cmd ([?text \<mapsto> ''main''](?out := None))"
  have fs1: "fs1 ?out = Some ''main''" by (simp add: fs1_def copying_def)
  have st: "length (lang_workspace_inited sample_langs) = 40" "g_lang_workspace sample_langs = Some ?ws"
      "lang_kind ?l = LANG_COMPILED" "length (ext_compile ?l) = 20" "NUL \<in> set (ext_compile ?l)"
      "NUL \<in> set (cmd_compile ?l)"
    by (simp_all add: sample_langs_def lang_start_def LANG_WORKERS_MAX_NBR_def blank_lang_def)
  have names: "?text = submission_ext ?ws 3 (cstr (ext_compile ?l))" "?out = submission_file ?ws 3"
      "c_fmt (cstr (cmd_compile ?l)) [?text, ?out] = Inr ?cmd"
    by (simp_all add: l three submission_ext_def submission_file_def)
  let ?st1 = "sample_langs\<lparr>lang_workspace_inited := (lang_workspace_inited sample_langs)[nat 3 := True]\<rparr>"
  have "lang_process ?m ?e sample_ramfs ''c'' ''main'' 3 sample_langs blank_bin Map.empty =
    (if fs1 ?out = None
     then Inr (-3, ?st1, blank_bin\<lparr>bi_cmd := Some [], bi_path := Some []\<rparr>, fs1)
     else Inr (0, ?st1, blank_bin\<lparr>bi_cmd := Some ?out, bi_path := Some ?out, interpreted := Some 0\<rparr>,
       fs1(?text := None)))"
    by (rule compiled_submission_processed [where p = "''/r/m''", OF _ _ st(1) _ st(2) _ _ l(1) st(3-6) _ _ _ _ names])
      (simp_all add: sample_ramfs_def fs1_def)
  then show ?thesis using fs1 by (auto simp: blank_bin_def)
qed

text \<open>Processing a submission in an interpreted language succeeds without writing its source anywhere: the
  command it returns runs a file that nobody created.\<close>

theorem interpreted_source_not_written:
  assumes "lang_get st langid = Some l" "lang_kind l = LANG_INTERPRETED"
    and "lang_process mem e ramfs langid source w st bi fs = Inr (code, st', bi', fs')"
  shows "fs' = fs"
proof -
  have "lang_get (st\<lparr>lang_workspace_inited := i\<rparr>) langid = Some l" for i
    using assms(1) by (simp add: lang_get_def)
  then show ?thesis
    using assms by (auto simp: lang_process_def lang_build_def Let_def c_then_Inr split: if_splits option.splits)
qed

definition sample_python :: lang_state where
  "sample_python = lang_start\<lparr>g_languages := [blank_lang\<lparr>lang_kind := LANG_INTERPRETED,
       lang_id := ''py'' @ replicate 18 NUL, cmd_interpr := ''python %s'' @ replicate 91 NUL,
       ext_interpr := ''py'' @ replicate 18 NUL\<rparr>],
     g_languages_count := 1, g_lang_workspace := Some ''/r/m/lang-workspace''\<rparr>"

theorem interpreted_source_not_written_witness:
  "\<exists>st' bi' fs'. lang_process \<lparr>can_alloc = \<lambda>_. True, junk = \<lambda>_. NUL\<rparr>
      \<lparr>le_mkdir = Made, le_open = True, le_puts = True, compiler = \<lambda>_ fs. fs\<rparr>
      sample_ramfs ''py'' ''main'' 3 sample_python blank_bin Map.empty = Inr (0, st', bi', fs') \<and>
    bi_cmd bi' = Some ''python /r/m/lang-workspace/3/Submission.py'' \<and> fs' = Map.empty"
proof -
  have three: "dec_int 3 = ''3''" by code_simp
  have cs: "cstr (''py'' @ replicate 18 NUL) = ''py''" "cstr (''python %s'' @ replicate 91 NUL) = ''python %s''"
    using cstr_padded [of "''py''" 20] cstr_padded [of "''python %s''" 100] by simp_all
  let ?l = "hd (g_languages sample_python)"
  have l: "lang_get sample_python ''py'' = Some ?l" "lang_kind ?l = LANG_INTERPRETED"
    using cs by (simp_all add: sample_python_def lang_get_def)
  have "\<exists>st' bi' fs'. lang_process \<lparr>can_alloc = \<lambda>_. True, junk = \<lambda>_. NUL\<rparr>
      \<lparr>le_mkdir = Made, le_open = True, le_puts = True, compiler = \<lambda>_ fs. fs\<rparr>
      sample_ramfs ''py'' ''main'' 3 sample_python blank_bin Map.empty = Inr (0, st', bi', fs') \<and>
    bi_cmd bi' = Some ''python /r/m/lang-workspace/3/Submission.py''"
    using cs three
    by (simp add: lang_process_def lang_build_def sample_python_def lang_start_def LANG_WORKERS_MAX_NBR_def lang_get_def
        sample_ramfs_def print_to_def submission_ext_def lang_command_def blank_bin_def Let_def)
  then show ?thesis using interpreted_source_not_written [OF l] by blast
qed

end
