(* ===== verification/Conn_Queue.thy ===== *)
theory Conn_Queue
  imports Config
begin

text \<open>
  The queue of connections (\<open>src/queue.c\<close>, \<open>src/queue.h\<close>): a linked list on the heap with a head, a tail and a
  semaphore, pushed to by the main thread and popped by the workers. The locale \<open>fifo\<close> states what the
  daemon relies on and derives from it what a whole series of pushes and pops does; it is interpreted on
  the functions of the code, taken as atomic. Since \<open>queue_push_connection\<close> takes no lock they are not: the
  step relation of the second part has the single reads and writes of both functions.
\<close>

section \<open>Data\<close>

record 'c jug_queue_entry =
  connection :: 'c
  next_entry :: "nat option"

text \<open>The heap maps the addresses that are allocated; \<open>None\<close> is the null pointer.\<close>

record 'c jug_queue =
  heap :: "nat \<rightharpoonup> 'c jug_queue_entry"
  head :: "nat option"
  tail :: "nat option"
  work_semaphore :: nat

definition empty_queue :: "'c jug_queue" where
  "empty_queue = \<lparr>heap = Map.empty, head = None, tail = None, work_semaphore = 0\<rparr>"

section \<open>Operations\<close>

text \<open>\<open>a\<close> is the address \<open>malloc\<close> returns.\<close>

definition queue_push_connection :: "nat \<Rightarrow> 'c \<Rightarrow> 'c jug_queue \<Rightarrow> 'c jug_queue c_result" where
  "queue_push_connection a c q =
     (let q1 = q\<lparr>heap := (heap q)(a \<mapsto> \<lparr>connection = c, next_entry = None\<rparr>)\<rparr> in
      c_then
        (case head q1 of
           None \<Rightarrow> Inr (q1\<lparr>head := Some a, tail := Some a\<rparr>)
         | Some _ \<Rightarrow> (case tail q1 of
             None \<Rightarrow> Inl Null_deref
           | Some t \<Rightarrow> (case heap q1 t of
               None \<Rightarrow> Inl Use_after_free
             | Some e \<Rightarrow> Inr (q1\<lparr>heap := (heap q1)(t \<mapsto> e\<lparr>next_entry := Some a\<rparr>), tail := Some a\<rparr>))))
        (\<lambda>q2. Inr (q2\<lparr>work_semaphore := Suc (work_semaphore q2)\<rparr>)))"

text \<open>The tail is left as it is, also when the last entry goes.\<close>

definition queue_pop_connection :: "'c jug_queue \<Rightarrow> ('c option \<times> 'c jug_queue) c_result" where
  "queue_pop_connection q = (case head q of
       None \<Rightarrow> Inr (None, q)
     | Some h \<Rightarrow> (case heap q h of
         None \<Rightarrow> Inl Use_after_free
       | Some e \<Rightarrow> Inr (Some (connection e), q\<lparr>head := next_entry e, heap := (heap q)(h := None)\<rparr>)))"

text \<open>An iteration of \<open>queue_worker_main\<close> up to the call of \<open>queue_worker_serv\<close>: \<open>None\<close> while the semaphore blocks.\<close>

definition worker_take :: "'c jug_queue \<Rightarrow> ('c option \<times> 'c jug_queue) option c_result" where
  "worker_take q =
     (if work_semaphore q = 0 then Inr None
      else c_then (queue_pop_connection (q\<lparr>work_semaphore := work_semaphore q - 1\<rparr>)) (\<lambda>r. Inr (Some r)))"

text \<open>Starting and stopping: the configuration, the threads (\<open>create_ok i\<close>: the \<open>i\<close>-th \<open>pthread_create\<close> succeeds).\<close>

record queue_globals =
  g_num_worker_threads :: int
  g_queue_size_limit :: int
  g_workers_allocated :: bool

definition queue_init ::
  "config_env \<Rightarrow> allocator \<Rightarrow> config_state \<Rightarrow> (int \<times> queue_globals option \<times> config_state) c_result" where
  "queue_init env mem st =
     (if \<not> can_alloc mem 88 then Inl Null_deref
      else c_then (jug_get_config env ''Queue'' ''num_worker_threads'' st) (\<lambda>(v, st1). case v of
        None \<Rightarrow> Inr (-1, None, st1)
      | Some n \<Rightarrow> c_then (jug_get_config env ''Queue'' ''queue_size_limit'' st1) (\<lambda>(v, st2). case v of
          None \<Rightarrow> Inr (-1, None, st2)
        | Some lim \<Rightarrow> Inr (0, Some \<lparr>g_num_worker_threads = atoi_str n, g_queue_size_limit = atoi_str lim,
            g_workers_allocated = (0 \<le> atoi_str n \<and> can_alloc mem (8 * nat (atoi_str n)))\<rparr>, st2))))"

text \<open>The code and the workers that were started. \<open>pthread_create\<close> writes into \<open>g_workers\<close>; \<open>worker_arg\<close> has 24 bytes.\<close>

fun launch_from :: "allocator \<Rightarrow> bool \<Rightarrow> (nat \<Rightarrow> bool) \<Rightarrow> nat list \<Rightarrow> (int \<times> nat list) c_result" where
  "launch_from mem g_workers create_ok [] = Inr (0, [])"
| "launch_from mem g_workers create_ok (i # is) =
     (if \<not> can_alloc mem 24 \<or> \<not> g_workers then Inl Null_deref
      else if \<not> create_ok i then Inr (-1, [])
      else c_then (launch_from mem g_workers create_ok is) (\<lambda>(code, started). Inr (code, i # started)))"

definition queue_launch_workers :: "allocator \<Rightarrow> (nat \<Rightarrow> bool) \<Rightarrow> queue_globals \<Rightarrow> (int \<times> nat list) c_result" where
  "queue_launch_workers mem create_ok g =
     launch_from mem (g_workers_allocated g) create_ok [0..<nat (g_num_worker_threads g)]"

definition queue_start ::
  "config_env \<Rightarrow> allocator \<Rightarrow> (nat \<Rightarrow> bool) \<Rightarrow> config_state \<Rightarrow>
     (int \<times> queue_globals option \<times> nat list \<times> config_state) c_result" where
  "queue_start env mem create_ok st = c_then (queue_init env mem st) (\<lambda>(code, g, st1).
     case g of
       None \<Rightarrow> Inr (code, None, [], st1)
     | Some g \<Rightarrow> c_then (queue_launch_workers mem create_ok g) (\<lambda>(c, started). Inr (c, Some g, started, st1)))"

definition queue_stop_workers :: "queue_globals \<Rightarrow> int \<times> nat list" where
  "queue_stop_workers g = (0, [0..<nat (g_num_worker_threads g)])"

definition queue_get_workers_count :: "queue_globals \<Rightarrow> int" where
  "queue_get_workers_count g = g_num_worker_threads g"

text \<open>\<open>g_workers\<close> as the list of thread identities.\<close>

fun worker_index :: "'t list \<Rightarrow> 't \<Rightarrow> int \<Rightarrow> int" where
  "worker_index [] current i = -1"
| "worker_index (w # ws) current i = (if w = current then i else worker_index ws current (i + 1))"

definition queue_worker_id :: "'t list \<Rightarrow> 't \<Rightarrow> int" where
  "queue_worker_id g_workers current = worker_index g_workers current 0"

section \<open>What the daemon relies on\<close>

datatype 'c qevent = Pushed 'c | Popped 'c

fun pushed :: "'c qevent list \<Rightarrow> 'c list" where
  "pushed [] = []"
| "pushed (Pushed c # es) = c # pushed es"
| "pushed (Popped c # es) = pushed es"

fun popped :: "'c qevent list \<Rightarrow> 'c list" where
  "popped [] = []"
| "popped (Pushed c # es) = popped es"
| "popped (Popped c # es) = c # popped es"

inductive qrun ::
  "('c \<Rightarrow> 'q \<Rightarrow> 'q \<Rightarrow> bool) \<Rightarrow> ('q \<Rightarrow> 'c \<Rightarrow> 'q \<Rightarrow> bool) \<Rightarrow> 'q \<Rightarrow> 'c qevent list \<Rightarrow> 'q \<Rightarrow> bool"
  for push :: "'c \<Rightarrow> 'q \<Rightarrow> 'q \<Rightarrow> bool" and pop :: "'q \<Rightarrow> 'c \<Rightarrow> 'q \<Rightarrow> bool"
where
  qrun_Nil: "qrun push pop q [] q"
| qrun_Push: "push c q q1 \<Longrightarrow> qrun push pop q1 es q2 \<Longrightarrow> qrun push pop q (Pushed c # es) q2"
| qrun_Pop: "pop q c q1 \<Longrightarrow> qrun push pop q1 es q2 \<Longrightarrow> qrun push pop q (Popped c # es) q2"

locale fifo =
  fixes push :: "'c \<Rightarrow> 'q \<Rightarrow> 'q \<Rightarrow> bool"
    and pop :: "'q \<Rightarrow> 'c \<Rightarrow> 'q \<Rightarrow> bool"
    and holds :: "'q \<Rightarrow> 'c list \<Rightarrow> bool"
  assumes push_law: "holds q xs \<Longrightarrow> push c q q' \<Longrightarrow> holds q' (xs @ [c])"
    and push_total: "holds q xs \<Longrightarrow> \<exists>q'. push c q q'"
    and pop_law: "holds q xs \<Longrightarrow> pop q c q' \<Longrightarrow> \<exists>ys. xs = c # ys \<and> holds q' ys"
    and pop_total: "holds q (x # xs) \<Longrightarrow> \<exists>q'. pop q x q'"
begin

text \<open>Nothing is lost, nothing is served twice, and everything in the order it came.\<close>

lemma run_conserves:
  "qrun push pop q es q' \<Longrightarrow> holds q xs \<Longrightarrow> \<exists>ys. holds q' ys \<and> xs @ pushed es = popped es @ ys"
proof (induction arbitrary: xs rule: qrun.induct)
  case (qrun_Push c q q1 es q2)
  then obtain ys where "holds q2 ys" "(xs @ [c]) @ pushed es = popped es @ ys"
    using push_law by blast
  then show ?case by auto
next
  case (qrun_Pop q c q1 es q2)
  then obtain zs where zs: "xs = c # zs" "holds q1 zs" using pop_law by blast
  then obtain ys where "holds q2 ys" "zs @ pushed es = popped es @ ys" using qrun_Pop.IH by blast
  then show ?case using zs by auto
qed auto

text \<open>Whatever has been pushed can be popped again.\<close>

lemma drain: "holds q xs \<Longrightarrow> \<exists>q'. qrun push pop q (map Popped xs) q' \<and> holds q' []"
proof (induction xs arbitrary: q)
  case (Cons x xs)
  obtain q1 where q1: "pop q x q1" using pop_total Cons.prems by blast
  then have "holds q1 xs" using pop_law Cons.prems by blast
  then obtain q' where "qrun push pop q1 (map Popped xs) q'" "holds q' []" using Cons.IH by blast
  then show ?case using q1 by (auto intro: qrun.qrun_Pop [where pop = pop])
qed (auto intro: qrun_Nil)

end

section \<open>The code provides it\<close>

text \<open>The entries from \<open>p\<close> on are at the addresses \<open>as\<close> and hold \<open>xs\<close>.\<close>

fun chain :: "(nat \<rightharpoonup> 'c jug_queue_entry) \<Rightarrow> nat option \<Rightarrow> nat list \<Rightarrow> 'c list \<Rightarrow> bool" where
  "chain h p [] [] = (p = None)"
| "chain h p (a # as) (x # xs) =
     (p = Some a \<and> (case h a of None \<Rightarrow> False | Some e \<Rightarrow> connection e = x \<and> chain h (next_entry e) as xs))"
| "chain h p _ _ = False"

definition queue_holds :: "'c jug_queue \<Rightarrow> 'c list \<Rightarrow> bool" where
  "queue_holds q xs \<longleftrightarrow> (\<exists>as. chain (heap q) (head q) as xs \<and> distinct as \<and>
     (as \<noteq> [] \<longrightarrow> tail q = Some (List.last as))) \<and> finite (dom (heap q)) \<and> work_semaphore q = length xs"

definition push_conn :: "'c \<Rightarrow> 'c jug_queue \<Rightarrow> 'c jug_queue \<Rightarrow> bool" where
  "push_conn c q q' \<longleftrightarrow> (\<exists>a. heap q a = None \<and> queue_push_connection a c q = Inr q')"

definition take_conn :: "'c jug_queue \<Rightarrow> 'c \<Rightarrow> 'c jug_queue \<Rightarrow> bool" where
  "take_conn q c q' \<longleftrightarrow> worker_take q = Inr (Some (Some c, q'))"

lemma chain_addresses: "chain h p as xs \<Longrightarrow> set as \<subseteq> dom h"
  by (induction h p as xs rule: chain.induct) (auto split: option.splits)

lemma chain_length: "chain h p as xs \<Longrightarrow> length as = length xs"
  by (induction h p as xs rule: chain.induct) (auto split: option.splits)

lemma chain_other: "a \<notin> set as \<Longrightarrow> chain (h(a := v)) p as xs = chain h p as xs"
  by (induction h p as xs rule: chain.induct) (auto split: option.splits)

lemma chain_snoc:
  "chain h p as xs \<Longrightarrow> as \<noteq> [] \<Longrightarrow> distinct as \<Longrightarrow> a \<notin> set as \<Longrightarrow> h (List.last as) = Some e \<Longrightarrow>
     h a = Some \<lparr>connection = c, next_entry = None\<rparr> \<Longrightarrow>
     chain (h(List.last as \<mapsto> e\<lparr>next_entry := Some a\<rparr>)) p (as @ [a]) (xs @ [c])"
proof (induction h p as xs rule: chain.induct)
  case (2 h p b bs x xs)
  show ?case
  proof (cases "bs = []")
    case True
    then show ?thesis using 2 by (cases xs) (auto split: option.splits)
  next
    case False
    then obtain e' where "h b = Some e'" "p = Some b" "connection e' = x" "chain h (next_entry e') bs xs"
      using "2.prems"(1) by (auto split: option.splits)
    moreover have "List.last bs \<noteq> b" using "2.prems"(3) False by auto
    ultimately show ?thesis using 2 False by auto
  qed
qed auto

lemma push_conn_law:
  assumes "queue_holds q xs" "push_conn c q q'"
  shows "queue_holds q' (xs @ [c])"
proof -
  obtain a where a: "heap q a = None" "queue_push_connection a c q = Inr q'"
    using assms(2) by (auto simp: push_conn_def)
  obtain as where as: "chain (heap q) (head q) as xs" "distinct as" "as \<noteq> [] \<longrightarrow> tail q = Some (List.last as)"
    using assms(1) by (auto simp: queue_holds_def)
  have fin: "finite (dom (heap q))" "work_semaphore q = length xs" using assms(1) by (auto simp: queue_holds_def)
  have na: "a \<notin> set as" using chain_addresses [OF as(1)] a(1) by auto
  let ?h = "(heap q)(a \<mapsto> \<lparr>connection = c, next_entry = None\<rparr>)"
  show ?thesis
  proof (cases as)
    case Nil
    then have "xs = []" "head q = None" using as(1) by (cases xs; simp)+
    then show ?thesis
      using a fin by (auto simp: queue_push_connection_def queue_holds_def Let_def intro!: exI [of _ "[a]"])
  next
    case (Cons b bs)
    then have ne: "as \<noteq> []" and hd: "head q = Some b" using as(1) by (cases xs; simp)+
    have tl: "tail q = Some (List.last as)" using as(3) ne by simp
    have "List.last as \<in> dom (heap q)" using chain_addresses [OF as(1)] last_in_set [OF ne] by blast
    then obtain e where e: "heap q (List.last as) = Some e" by blast
    have la: "List.last as \<noteq> a" using na last_in_set [OF ne] by auto
    have "chain (?h(List.last as \<mapsto> e\<lparr>next_entry := Some a\<rparr>)) (head q) (as @ [a]) (xs @ [c])"
      by (rule chain_snoc) (use as na ne e la in \<open>simp_all add: chain_other\<close>)
    moreover have "q' = q\<lparr>heap := ?h(List.last as \<mapsto> e\<lparr>next_entry := Some a\<rparr>), tail := Some a,
        work_semaphore := Suc (work_semaphore q)\<rparr>"
      using a(2) hd tl e la by (simp add: queue_push_connection_def Let_def)
    ultimately show ?thesis
      using as(2) na fin unfolding queue_holds_def by (auto intro!: exI [of _ "as @ [a]"])
  qed
qed

lemma push_conn_at:
  assumes "queue_holds q xs" and a: "heap q a = None"
  shows "\<exists>q'. queue_push_connection a c q = Inr q' \<and> queue_holds q' (xs @ [c])"
proof -
  obtain as where as: "chain (heap q) (head q) as xs" "as \<noteq> [] \<longrightarrow> tail q = Some (List.last as)"
    using assms by (auto simp: queue_holds_def)
  have "\<exists>q'. queue_push_connection a c q = Inr q'"
  proof (cases "as = []")
    case True
    then have "head q = None" using as(1) by (cases xs) simp_all
    then show ?thesis by (auto simp: queue_push_connection_def Let_def)
  next
    case False
    then have "List.last as \<in> dom (heap q)" using chain_addresses [OF as(1)] last_in_set by blast
    then show ?thesis
      using a as(2) False by (cases "head q") (auto simp: queue_push_connection_def Let_def)
  qed
  then obtain q' where q': "queue_push_connection a c q = Inr q'" ..
  then have "push_conn c q q'" using a by (auto simp: push_conn_def)
  with q' show ?thesis using push_conn_law [OF assms(1)] by blast
qed

lemma push_conn_total: "queue_holds q xs \<Longrightarrow> \<exists>q'. push_conn c q q'"
  using push_conn_at [of q xs _ c] ex_new_if_finite [of "dom (heap q)"]
  by (fastforce simp: push_conn_def queue_holds_def)

lemma take_conn_step:
  assumes "queue_holds q (x # xs)"
  obtains q' where "worker_take q = Inr (Some (Some x, q'))" "queue_holds q' xs"
proof -
  obtain as where as: "chain (heap q) (head q) as (x # xs)" "distinct as" "as \<noteq> [] \<longrightarrow> tail q = Some (List.last as)"
    using assms by (auto simp: queue_holds_def)
  then obtain b bs where b: "as = b # bs" by (cases as) auto
  then obtain e where e: "head q = Some b" "heap q b = Some e" "connection e = x" "chain (heap q) (next_entry e) bs xs"
    using as(1) by (auto split: option.splits)
  let ?q = "q\<lparr>work_semaphore := work_semaphore q - 1, head := next_entry e, heap := (heap q)(b := None)\<rparr>"
  have "worker_take q = Inr (Some (Some x, ?q))"
    using e assms by (simp add: worker_take_def queue_pop_connection_def queue_holds_def)
  moreover have "queue_holds ?q xs"
    using assms as e b unfolding queue_holds_def by (auto simp: chain_other intro!: exI [of _ bs])
  ultimately show thesis using that by blast
qed

lemma take_conn_law:
  assumes "queue_holds q xs" "take_conn q c q'"
  shows "\<exists>ys. xs = c # ys \<and> queue_holds q' ys"
proof (cases xs)
  case Nil
  then show ?thesis using assms by (simp add: take_conn_def worker_take_def queue_holds_def)
next
  case (Cons x ys)
  then show ?thesis using take_conn_step [of q x ys] assms by (auto simp: take_conn_def)
qed

lemma take_conn_total: "queue_holds q (x # xs) \<Longrightarrow> \<exists>q'. take_conn q x q'"
  using take_conn_step by (metis take_conn_def)

interpretation conn_fifo: fifo push_conn take_conn queue_holds
  by unfold_locales
    ((rule push_conn_law, assumption+) | (rule push_conn_total, assumption) | (rule take_conn_law, assumption+) |
     (rule take_conn_total, assumption))+

lemma empty_queue_holds: "queue_holds empty_queue []"
  by (auto simp: queue_holds_def empty_queue_def intro!: exI [of _ "[]"])

section \<open>The single reads and writes\<close>

text \<open>Where the main thread is in \<open>queue_push_connection\<close>, and a worker in \<open>queue_worker_main\<close>.\<close>

datatype pusher_pc =
    P_idle
  | P_new nat                       \<comment> \<open>the entry is allocated and filled\<close>
  | P_empty nat                     \<comment> \<open>\<open>head == 0\<close> was seen\<close>
  | P_link nat                      \<comment> \<open>\<open>head != 0\<close> was seen\<close>
  | P_tail nat                      \<comment> \<open>the tail is to be set\<close>
  | P_post

datatype 'c taker_pc =
    W_idle
  | W_woken                         \<comment> \<open>the semaphore has been passed\<close>
  | W_locked
  | W_read nat "nat option"         \<comment> \<open>\<open>head\<close> and \<open>head->next\<close> have been read\<close>
  | W_have nat                      \<comment> \<open>unlocked, with an entry\<close>
  | W_serve 'c

record 'c race =
  rq :: "'c jug_queue"
  pusher :: pusher_pc
  takers :: "nat \<Rightarrow> 'c taker_pc"
  access_mutex :: "nat option"
  accepted :: "'c list"
  served :: "'c list"
  corrupted :: bool                 \<comment> \<open>freed memory has been written\<close>

datatype 'c action = Accept nat 'c | Push_step | Take_step nat

definition race_start :: "'c race" where
  "race_start = \<lparr>rq = empty_queue, pusher = P_idle, takers = (\<lambda>_. W_idle), access_mutex = None, accepted = [],
     served = [], corrupted = False\<rparr>"

text \<open>A step of the main thread.\<close>

definition push_step :: "'c race \<Rightarrow> 'c race option" where
  "push_step s = (let q = rq s in case pusher s of
       P_idle \<Rightarrow> None
     | P_new a \<Rightarrow> Some (s\<lparr>pusher := (if head q = None then P_empty a else P_link a)\<rparr>)
     | P_empty a \<Rightarrow> Some (s\<lparr>rq := q\<lparr>head := Some a\<rparr>, pusher := P_tail a\<rparr>)
     | P_link a \<Rightarrow> (case tail q of
         None \<Rightarrow> None
       | Some t \<Rightarrow> (case heap q t of
           None \<Rightarrow> Some (s\<lparr>corrupted := True, pusher := P_tail a\<rparr>)
         | Some e \<Rightarrow> Some (s\<lparr>rq := q\<lparr>heap := (heap q)(t \<mapsto> e\<lparr>next_entry := Some a\<rparr>)\<rparr>, pusher := P_tail a\<rparr>)))
     | P_tail a \<Rightarrow> Some (s\<lparr>rq := q\<lparr>tail := Some a\<rparr>, pusher := P_post\<rparr>)
     | P_post \<Rightarrow> Some (s\<lparr>rq := q\<lparr>work_semaphore := Suc (work_semaphore q)\<rparr>, pusher := P_idle\<rparr>))"

text \<open>A step of worker \<open>i\<close>.\<close>

definition take_step :: "nat \<Rightarrow> 'c race \<Rightarrow> 'c race option" where
  "take_step i s = (let q = rq s; go = (\<lambda>pc s. s\<lparr>takers := (takers s)(i := pc)\<rparr>) in case takers s i of
       W_idle \<Rightarrow> (if work_semaphore q = 0 then None
                  else Some (go W_woken (s\<lparr>rq := q\<lparr>work_semaphore := work_semaphore q - 1\<rparr>\<rparr>)))
     | W_woken \<Rightarrow> (if access_mutex s \<noteq> None then None else Some (go W_locked (s\<lparr>access_mutex := Some i\<rparr>)))
     | W_locked \<Rightarrow> (case head q of
         None \<Rightarrow> Some (go W_idle (s\<lparr>access_mutex := None\<rparr>))
       | Some h \<Rightarrow> (case heap q h of
           None \<Rightarrow> Some (go (W_read h None) (s\<lparr>corrupted := True\<rparr>))
         | Some e \<Rightarrow> Some (go (W_read h (next_entry e)) s)))
     | W_read h n \<Rightarrow> Some (go (W_have h) (s\<lparr>rq := q\<lparr>head := n\<rparr>, access_mutex := None\<rparr>))
     | W_have h \<Rightarrow> (case heap q h of
         None \<Rightarrow> None
       | Some e \<Rightarrow> Some (go (W_serve (connection e)) (s\<lparr>rq := q\<lparr>heap := (heap q)(h := None)\<rparr>\<rparr>)))
     | W_serve c \<Rightarrow> Some (go W_idle (s\<lparr>served := served s @ [c]\<rparr>)))"

fun race_step :: "'c action \<Rightarrow> 'c race \<Rightarrow> 'c race option" where
  "race_step (Accept a c) s =
     (if pusher s = P_idle \<and> heap (rq s) a = None
      then Some (s\<lparr>rq := (rq s)\<lparr>heap := (heap (rq s))(a \<mapsto> \<lparr>connection = c, next_entry = None\<rparr>)\<rparr>,
        pusher := P_new a, accepted := accepted s @ [c]\<rparr>)
      else None)"
| "race_step Push_step s = push_step s"
| "race_step (Take_step i) s = take_step i s"

inductive race_reach :: "'c race \<Rightarrow> bool" where
  race_reach_start: "race_reach race_start"
| race_reach_step: "race_reach s \<Longrightarrow> race_step x s = Some s' \<Longrightarrow> race_reach s'"

fun race_run :: "'c action list \<Rightarrow> 'c race \<Rightarrow> 'c race option" where
  "race_run [] s = Some s"
| "race_run (x # xs) s = (case race_step x s of None \<Rightarrow> None | Some s' \<Rightarrow> race_run xs s')"

lemma race_run_reach: "race_run xs s = Some s' \<Longrightarrow> race_reach s \<Longrightarrow> race_reach s'"
  by (induction xs arbitrary: s) (auto split: option.splits intro: race_reach_step)

text \<open>One connection has been pushed; the second push has seen that the queue is not empty.\<close>

definition push_one :: "nat action list" where
  "push_one = Accept 0 1 # replicate 4 Push_step @ [Accept 1 2, Push_step]"

section \<open>Properties\<close>

text \<open>C14: With pushes and pops that do not overlap, the workers receive the connections in the order in which they
  were accepted, none is lost and none is served twice; no call touches freed memory, whatever addresses
  the allocator hands out, a worker that has passed the semaphore always finds a connection, and
  everything that is queued can still be served.\<close>

theorem connections_served_in_order:
  assumes "qrun push_conn take_conn empty_queue es q"
  shows "\<exists>waiting. pushed es = popped es @ waiting \<and> queue_holds q waiting \<and>
    (\<exists>q'. qrun push_conn take_conn q (map Popped waiting) q' \<and> queue_holds q' [])"
proof -
  obtain ys where ys: "queue_holds q ys" "[] @ pushed es = popped es @ ys"
    using conn_fifo.run_conserves [OF assms empty_queue_holds] by blast
  obtain q' where "qrun push_conn take_conn q (map Popped ys) q'" "queue_holds q' []"
    using conn_fifo.drain [OF ys(1)] by blast
  with ys show ?thesis by (metis append_Nil)
qed

theorem connections_served_in_order_witness:
  "\<exists>q. qrun push_conn take_conn empty_queue [Pushed 1, Pushed 2, Popped (1 :: nat)] q \<and> queue_holds q [2]"
proof -
  obtain q1 where q1: "push_conn (1 :: nat) empty_queue q1" using push_conn_total [OF empty_queue_holds] ..
  have h1: "queue_holds q1 [1]" using push_conn_law [OF empty_queue_holds q1] by simp
  obtain q2 where q2: "push_conn 2 q1 q2" using push_conn_total [OF h1] ..
  have h2: "queue_holds q2 [1, 2]" using push_conn_law [OF h1 q2] by simp
  obtain q where q: "take_conn q2 1 q" using take_conn_total [OF h2] ..
  have run: "qrun push_conn take_conn empty_queue [Pushed 1, Pushed 2, Popped (1 :: nat)] q"
    by (rule qrun_Push [where push = push_conn, OF q1], rule qrun_Push [where push = push_conn, OF q2],
        rule qrun_Pop [where pop = take_conn, OF q], rule qrun_Nil)
  from connections_served_in_order [OF run] have "queue_holds q [2]" by auto
  with run show ?thesis by blast
qed

text \<open>Since \<open>queue_push_connection\<close> does not take \<open>access_mutex\<close>, a pop that comes between its test of \<open>head\<close>
  and its use of \<open>tail\<close> frees the entry it then writes to: a state in which freed memory has been written
  is reachable.\<close>

theorem push_writes_freed_entry: "\<exists>s :: nat race. race_reach s \<and> corrupted s"
proof -
  have "\<exists>s. race_run (push_one @ replicate 5 (Take_step 0) @ [Push_step]) race_start = Some s \<and> corrupted s"
    by (simp add: push_one_def numeral_eq_Suc race_start_def empty_queue_def push_step_def take_step_def Let_def)
  then show ?thesis using race_run_reach race_reach_start by blast
qed

text \<open>C32: The same missing lock loses connections without touching freed memory: a worker that has read \<open>head->next\<close>
  before the main thread links the new entry sets \<open>head\<close> to null afterwards. Reachable is a state in
  which every thread waits for work, the semaphore is zero and the queue empty, while the second of two
  accepted connections has not been served.\<close>

theorem connection_lost:
  "\<exists>s :: nat race. race_reach s \<and> \<not> corrupted s \<and> accepted s = [1, 2] \<and> served s = [1] \<and> pusher s = P_idle \<and>
     (\<forall>i. takers s i = W_idle) \<and> access_mutex s = None \<and> head (rq s) = None \<and> work_semaphore (rq s) = 0"
proof -
  let ?xs = "push_one @ replicate 3 (Take_step 0) @ [Push_step] @ replicate 3 (Take_step 0) @
    [Push_step, Push_step] @ replicate 3 (Take_step 0)"
  have "\<exists>s. race_run ?xs race_start = Some s \<and> \<not> corrupted s \<and> accepted s = [1, 2] \<and> served s = [1] \<and>
      pusher s = P_idle \<and> (\<forall>i. takers s i = W_idle) \<and> access_mutex s = None \<and> head (rq s) = None \<and>
      work_semaphore (rq s) = 0"
    by (simp add: push_one_def numeral_eq_Suc race_start_def empty_queue_def push_step_def take_step_def Let_def)
  then show ?thesis using race_run_reach race_reach_start by blast
qed

end
