(* ===== verification/Worker.thy ===== *)
theory Worker
  imports Client Runner Lang Conn_Queue
begin

text \<open>
  The worker (\<open>queue_worker_serv\<close> in \<open>src/queue.c\<close>): a connection from the first byte received to the verdict.
  It puts the components together: receiving and decoding, the feed files, the compiler, the runner, the
  reply. Everything that can go wrong outside is a field of the environment.
\<close>

section \<open>Operations\<close>

record serv_env =
  sv_mem :: allocator
  sv_sock :: sock
  sv_sockopt :: "nat option"
  sv_send :: "nat \<Rightarrow> int"
  sv_feed_workspace :: string
  sv_feed_in :: feed_env
  sv_feed_out :: feed_env
  sv_ramfs :: ramfs_info
  sv_lang :: lang_env
  sv_runner :: Runner
  sv_limits :: "int \<times> int"
  sv_erfs :: int
  sv_run :: "string option \<Rightarrow> string option \<Rightarrow> run_world"
    \<comment> \<open>what a run meets: of the program the first file holds, on the input the second holds\<close>
  sv_open_in :: bool
  sv_open_right :: bool
  sv_read_error :: bool

record serv_state =
  sv_int :: int_state
  sv_langs :: lang_state
  sv_files :: files

text \<open>What the client gets: the bytes, and whether the socket is closed.\<close>

record serv_out =
  reply :: string
  reply_closed :: bool

definition answer_with :: "serv_env \<Rightarrow> jug_verdict_enum \<Rightarrow> bool \<Rightarrow> serv_out" where
  "answer_with env v closed = \<lparr>reply = fst (jug_int_send_verdict (sv_send env) v), reply_closed = closed\<rparr>"

text \<open>A feed file. The name is \<open>None\<close> when nothing is stored in \<open>submission\<close>, \<open>Some None\<close> for \<open>NULL\<close>.\<close>

definition feed_for ::
  "serv_env \<Rightarrow> feed_env \<Rightarrow> int option \<Rightarrow> string option \<Rightarrow> int \<Rightarrow> string \<Rightarrow> files \<Rightarrow>
     (string option option \<times> files) c_result" where
  "feed_for env e type data worker_id tag fs =
     (if type = Some INT_REQ_FEEDTYPE_DATA then
        (case data of
           None \<Rightarrow> Inl Uninitialised
         | Some d \<Rightarrow> c_then (jug_feed_new_file (sv_mem env) e (sv_feed_workspace env) d worker_id tag fs)
             (\<lambda>(name, fs'). Inr (Some name, fs')))
      else Inr (None, fs))"

text \<open>The content of the file \<open>open\<close> finds; \<open>None\<close> when it fails.\<close>

definition open_feed :: "bool \<Rightarrow> string option \<Rightarrow> files \<Rightarrow> string option" where
  "open_feed ok name fs = (if ok then (case name of None \<Rightarrow> None | Some n \<Rightarrow> fs n) else None)"

definition serv_run ::
  "serv_env \<Rightarrow> int \<Rightarrow> string \<Rightarrow> string option option \<Rightarrow> string option option \<Rightarrow> files \<Rightarrow>
     jug_verdict_enum option c_result" where
  "serv_run env worker_id path nin nout fs = (case (nin, nout) of
       (Some i, Some r) \<Rightarrow>
         (let infile = open_feed (sv_open_in env) i fs; right = open_feed (sv_open_right env) r fs in
          jug_runner_judge compare_output (sv_runner env) (sv_limits env) (sv_erfs env) (sv_run env (fs path) infile)
            (infile \<noteq> None) (right \<noteq> None)
            \<lparr>content = (case right of None \<Rightarrow> [] | Some c \<Rightarrow> c), offset = 0, fd_valid = True,
             fd_flags = O_RDWR, read_error = sv_read_error env\<rparr>
            \<lparr>thread_id = worker_id, bin_path = path,
             input_size = int32 (case infile of None \<Rightarrow> 0 | Some c \<Rightarrow> int (length c))\<rparr>)
     | _ \<Rightarrow> Inl Uninitialised)"

definition remove_feed :: "string option option \<Rightarrow> files \<Rightarrow> files" where
  "remove_feed name fs = (case name of Some (Some n) \<Rightarrow> jug_feed_remove_by_name n fs | _ \<Rightarrow> fs)"

text \<open>A judging request; \<open>None\<close> while the run goes on.\<close>

definition serv_judging ::
  "serv_env \<Rightarrow> int \<Rightarrow> int_request \<Rightarrow> serv_state \<Rightarrow> (serv_out \<times> serv_state) option c_result" where
  "serv_judging env worker_id req st =
     c_then (feed_for env (sv_feed_in env) (in_type req) (req_input req) worker_id ''input'' (sv_files st)) (\<lambda>(nin, fs1).
     c_then (feed_for env (sv_feed_out env) (out_type req) (req_output req) worker_id ''output'' fs1) (\<lambda>(nout, fs2).
     case sourcecode req of
       None \<Rightarrow> Inl Uninitialised
     | Some src \<Rightarrow>
         if \<not> can_alloc (sv_mem env) (length src + 2) then Inl Null_deref
         else c_then (lang_process (sv_mem env) (sv_lang env) (sv_ramfs env) ''c'' src worker_id (sv_langs st)
             blank_bin fs2) (\<lambda>(error, langs, bin, fs3).
           let st1 = st\<lparr>sv_langs := langs, sv_files := fs3\<rparr> in
           if error \<noteq> 0 then
             c_then (lang_free_BinaryInformation bin) (\<lambda>_. c_then (jug_int_free_request req) (\<lambda>_.
               Inr (Some (answer_with env (if error = -3 then VERDICT_COMPILE_ERROR else VERDICT_INTERNAL) True, st1))))
           else case bi_path bin of
             None \<Rightarrow> Inl Uninitialised
           | Some path \<Rightarrow>
               if \<not> can_alloc (sv_mem env) 400 \<or> \<not> can_alloc (sv_mem env) 500 then Inl Null_deref
               else c_then (lang_free_BinaryInformation bin) (\<lambda>_. c_then (jug_int_free_request req) (\<lambda>_.
                 c_then (serv_run env worker_id path nin nout fs3) (\<lambda>v. case v of
                     None \<Rightarrow> Inr None
                   | Some verdict \<Rightarrow>
                       let fs4 = remove_feed nout (remove_feed nin (lang_remove_binary path fs3)) in
                       Inr (Some (answer_with env verdict True, st1\<lparr>sv_files := fs4\<rparr>))))))))"

definition queue_worker_serv ::
  "serv_env \<Rightarrow> int \<Rightarrow> serv_state \<Rightarrow> (serv_out \<times> serv_state) option c_result" where
  "queue_worker_serv env worker_id st =
     c_then (jug_int_receive (sv_mem env) (sv_sockopt env) (sv_int st) (sv_sock env)) (\<lambda>(buf, rest, g).
       let st1 = st\<lparr>sv_int := g\<rparr> in
       case buf of
         None \<Rightarrow> Inr (Some (answer_with env VERDICT_INTERNAL False, st1))
       | Some req_buffer \<Rightarrow> c_then (jug_int_decode (sv_mem env) req_buffer blank_request) (\<lambda>(error, req).
           if error \<noteq> 0 then Inr (Some (answer_with env VERDICT_ACCEPTED False, st1))
           else if req_type req = Some INT_REQ_TYPE_JUDGE then serv_judging env worker_id req st1
           else Inr (Some (\<lparr>reply = [], reply_closed = False\<rparr>, st1))))"

section \<open>Laws\<close>

lemma answer_with_sent:
  assumes "\<And>k. 0 < sv_send env k"
  shows "answer_with env v c = \<lparr>reply = with_length (jug_int_verdict_to_string v), reply_closed = c\<rparr>"
  using send_loop_all [OF assms] by (simp add: answer_with_def jug_int_send_verdict_def with_length_def Let_def)

text \<open>A daemon in which everything the worker needs is in place: the language \<open>c\<close>, the workspaces, the
  allocator; no call on the way fails, there is no execution root file system, and the output is not shown.\<close>

definition daemon_ready :: "serv_env \<Rightarrow> serv_state \<Rightarrow> string \<Rightarrow> Lang \<Rightarrow> bool" where
  "daemon_ready env st p l \<longleftrightarrow> ample (sv_mem env) \<and> (\<forall>k. 0 < sv_send env k) \<and>
     ramfs_path (sv_ramfs env) = p \<and> length p \<le> 60 \<and> sv_feed_workspace env = p @ ''/feed-workspace'' \<and>
     g_lang_workspace (sv_langs st) = Some (p @ ''/lang-workspace'') \<and>
     length (lang_workspace_inited (sv_langs st)) = 40 \<and> lang_get (sv_langs st) ''c'' = Some l \<and>
     lang_kind l = LANG_COMPILED \<and> length (ext_compile l) = 20 \<and> NUL \<in> set (ext_compile l) \<and>
     NUL \<in> set (cmd_compile l) \<and>
     le_mkdir (sv_lang env) \<noteq> Mkdir_error \<and> le_open (sv_lang env) \<and> le_puts (sv_lang env) \<and>
     fe_open (sv_feed_in env) \<and> fe_puts (sv_feed_in env) \<and> fe_open (sv_feed_out env) \<and> fe_puts (sv_feed_out env) \<and>
     sv_open_in env \<and> sv_open_right env \<and> \<not> sv_read_error env \<and> sv_erfs env \<noteq> 1 \<and>
     show_submission_output (sv_runner env) = 0"

text \<open>The four files of a worker.\<close>

definition file_in :: "serv_env \<Rightarrow> string \<Rightarrow> int \<Rightarrow> string" where
  "file_in env p w = feed_filename (p @ ''/feed-workspace'') w (fe_now (sv_feed_in env)) ''input''"

definition file_out :: "serv_env \<Rightarrow> string \<Rightarrow> int \<Rightarrow> string" where
  "file_out env p w = feed_filename (p @ ''/feed-workspace'') w (fe_now (sv_feed_out env)) ''output''"

definition file_src :: "string \<Rightarrow> Lang \<Rightarrow> int \<Rightarrow> string" where
  "file_src p l w = submission_ext (p @ ''/lang-workspace'') w (cstr (ext_compile l))"

definition file_bin :: "string \<Rightarrow> int \<Rightarrow> string" where
  "file_bin p w = submission_file (p @ ''/lang-workspace'') w"

lemma files_distinct:
  "file_in env p w \<noteq> file_out env p w" "file_in env p w \<noteq> file_src p l w" "file_in env p w \<noteq> file_bin p w"
  "file_out env p w \<noteq> file_src p l w" "file_out env p w \<noteq> file_bin p w" "file_src p l w \<noteq> file_bin p w"
  by (simp_all add: file_in_def file_out_def file_src_def file_bin_def feed_filename_def submission_ext_def
      submission_file_def)

lemma feed_for_data:
  assumes "ample (sv_mem env)" "fe_open e" "fe_puts e" "0 \<le> w" "w < 24" "length tag \<le> 69" "length (sv_feed_workspace env) \<le> 100"
  shows "feed_for env e (Some INT_REQ_FEEDTYPE_DATA) (Some d) w tag fs =
    Inr (Some (Some (feed_filename (sv_feed_workspace env) w (fe_now e) tag)),
      fs(feed_filename (sv_feed_workspace env) w (fe_now e) tag \<mapsto> d))"
proof -
  have "can_alloc (sv_mem env) (length (sv_feed_workspace env) + 100)" using assms by (simp add: ampleD)
  moreover have "length (feed_filename (sv_feed_workspace env) w (fe_now e) tag) + 1 \<le> length (sv_feed_workspace env) + 100"
    using assms by (intro feed_filename_fits) simp_all
  ultimately show ?thesis using assms by (simp add: feed_for_def jug_feed_new_file_def Let_def)
qed

text \<open>The feed files of a request and its compilation, in a daemon that is ready and for any store of files.\<close>

lemma ready_feeds:
  assumes "daemon_ready env st p l" "0 \<le> w" "w < 24"
  shows "feed_for env (sv_feed_in env) (Some INT_REQ_FEEDTYPE_DATA) (Some d) w ''input'' fs =
      Inr (Some (Some (file_in env p w)), fs(file_in env p w \<mapsto> d))"
    "feed_for env (sv_feed_out env) (Some INT_REQ_FEEDTYPE_DATA) (Some d) w ''output'' fs =
      Inr (Some (Some (file_out env p w)), fs(file_out env p w \<mapsto> d))"
  using feed_for_data [of env "sv_feed_in env" w "''input''" d fs] feed_for_data [of env "sv_feed_out env" w "''output''" d fs]
    assms by (simp_all add: daemon_ready_def file_in_def file_out_def)

lemma ready_lang_process:
  assumes ready: "daemon_ready env st p l" and w: "0 \<le> w" "w < 24"
    and cmd: "c_fmt (cstr (cmd_compile l)) [file_src p l w, file_bin p w] = Inr cmd" "length cmd < length p + 200"
    and fs3: "fs3 = compiler (sv_lang env) cmd (fs(file_src p l w \<mapsto> src, file_bin p w := None))"
    and langs: "langs = (sv_langs st)\<lparr>lang_workspace_inited := (lang_workspace_inited (sv_langs st))[nat w := True]\<rparr>"
  shows "lang_process (sv_mem env) (sv_lang env) (sv_ramfs env) ''c'' src w (sv_langs st) blank_bin fs =
    (if fs3 (file_bin p w) = None
     then Inr (-3, langs, blank_bin\<lparr>bi_cmd := Some [], bi_path := Some []\<rparr>, fs3)
     else Inr (0, langs, blank_bin\<lparr>bi_cmd := Some (file_bin p w), bi_path := Some (file_bin p w),
       interpreted := Some 0\<rparr>, fs3(file_src p l w := None)))"
  by (rule lang_process_compiled [where p = p and ws = "p @ ''/lang-workspace''" and l = l and cmd = cmd])
    (use ready w cmd fs3 langs in \<open>simp_all add: daemon_ready_def ampleD file_src_def file_bin_def\<close>)

text \<open>A request with inline data, up to the run: the feed files are written and the compiler is started.\<close>

lemma serv_judging_data:
  assumes ready: "daemon_ready env st p l" and w: "0 \<le> w" "w < 24" and src: "length src < 30000000"
    and cmd: "c_fmt (cstr (cmd_compile l)) [file_src p l w, file_bin p w] = Inr cmd" "length cmd < length p + 200"
    and fs2: "fs2 = (sv_files st)(file_in env p w \<mapsto> inp, file_out env p w \<mapsto> out)"
    and fs3: "fs3 = compiler (sv_lang env) cmd (fs2(file_src p l w \<mapsto> src, file_bin p w := None))"
  obtains langs where "serv_judging env w (data_request inp out src) st =
    (if fs3 (file_bin p w) = None
     then Inr (Some (answer_with env VERDICT_COMPILE_ERROR True, st\<lparr>sv_langs := langs, sv_files := fs3\<rparr>))
     else c_then (serv_run env w (file_bin p w) (Some (Some (file_in env p w))) (Some (Some (file_out env p w)))
         (fs3(file_src p l w := None))) (\<lambda>v. case v of
       None \<Rightarrow> Inr None
     | Some verdict \<Rightarrow> Inr (Some (answer_with env verdict True, st\<lparr>sv_langs := langs,
         sv_files := (fs3(file_src p l w := None, file_bin p w := None, file_in env p w := None,
           file_out env p w := None))\<rparr>))))"
proof -
  have mem: "can_alloc (sv_mem env) n" if "n \<le> 40000000" for n
    using ready that by (simp add: daemon_ready_def ampleD)
  note feeds = ready_feeds [OF ready w] and lang = ready_lang_process [OF ready w cmd fs3 refl]
  show thesis
    using mem src feeds lang
    by (intro that [of "(sv_langs st)\<lparr>lang_workspace_inited := (lang_workspace_inited (sv_langs st))[nat w := True]\<rparr>"])
      (simp add: serv_judging_def data_request_def blank_request_def fs2 blank_bin_def
        lang_free_BinaryInformation_def jug_int_free_request_def remove_feed_def jug_feed_remove_by_name_def
        lang_remove_binary_def fun_upd_twist files_distinct cong: option.case_cong)
qed

text \<open>The message of a client: the request with inline data, in pieces of any size.\<close>

definition sends_request :: "serv_env \<Rightarrow> string \<Rightarrow> string \<Rightarrow> string \<Rightarrow> bool" where
  "sends_request env inp out src \<longleftrightarrow>
     NUL \<notin> set inp \<and> NUL \<notin> set out \<and> NUL \<notin> set src \<and> src \<noteq> [] \<and>
     length (with_length (request_body inp out src)) < 30000000 \<and>
     (\<exists>cs rest. sv_sock env = map Chunk cs @ rest \<and> concat cs = with_length (request_body inp out src) \<and>
        (\<forall>c \<in> set cs. c \<noteq> []))"

definition message :: "serv_env \<Rightarrow> serv_state \<Rightarrow> string \<Rightarrow> string \<Rightarrow> string \<Rightarrow> bool" where
  "message env st inp out src \<longleftrightarrow> g_ready (sv_int st) (sv_sockopt env) \<and> sends_request env inp out src"

lemmas message_defs = message_def sends_request_def

lemma message_length: "message env st inp out src \<Longrightarrow> length inp < 30000000 \<and> length src < 30000000"
  by (simp add: message_defs with_length_def request_body_def request_head_def)

lemma message_arrives:
  assumes "ample (sv_mem env)" "message env st inp out src"
    and "\<not> 1024 dvd length (with_length (request_body inp out src))"
  obtains b rest g where
    "jug_int_receive (sv_mem env) (sv_sockopt env) (sv_int st) (sv_sock env) = Inr (Some b, rest, g)"
    "jug_int_decode (sv_mem env) b blank_request = Inr (0, data_request inp out src)"
proof -
  obtain cs rest where cs: "sv_sock env = map Chunk cs @ rest" "concat cs = with_length (request_body inp out src)"
      "\<forall>c \<in> set cs. c \<noteq> []"
    using assms(2) by (auto simp: message_defs)
  have "\<exists>b g. jug_int_receive (sv_mem env) (sv_sockopt env) (sv_int st) (map Chunk cs @ rest) = Inr (Some b, rest, g) \<and>
      jug_int_decode (sv_mem env) b blank_request = Inr (0, data_request inp out src)"
    by (rule request_arrives [OF refl assms(1) _ cs(2,3)]) (use assms(2,3) in \<open>simp_all add: message_defs\<close>)
  then show thesis using that unfolding cs(1) by blast
qed

lemma serv_request:
  assumes "ample (sv_mem env)" "message env st inp out src"
    and "\<not> 1024 dvd length (with_length (request_body inp out src))"
  obtains g where "queue_worker_serv env w st = serv_judging env w (data_request inp out src) (st\<lparr>sv_int := g\<rparr>)"
proof -
  obtain b rest g where "jug_int_receive (sv_mem env) (sv_sockopt env) (sv_int st) (sv_sock env) = Inr (Some b, rest, g)"
      "jug_int_decode (sv_mem env) b blank_request = Inr (0, data_request inp out src)"
    using message_arrives [OF assms] .
  then show thesis
    by (intro that [of g]) (simp add: queue_worker_serv_def data_request_def)
qed

text \<open>A compiler that writes its result and nothing else: of the source \<open>s\<close> it makes the program \<open>code s\<close>, \<open>None\<close> if it refuses it.\<close>

definition compiler_ok ::
  "(string \<Rightarrow> files \<Rightarrow> files) \<Rightarrow> string \<Rightarrow> string \<Rightarrow> string \<Rightarrow> (string \<Rightarrow> string option) \<Rightarrow> bool" where
  "compiler_ok cc cmd srcfile binfile code \<longleftrightarrow> (\<forall>fs q. q \<noteq> binfile \<longrightarrow> cc cmd fs q = fs q) \<and>
     (\<forall>fs s. fs srcfile = Some s \<longrightarrow> fs binfile = None \<longrightarrow> cc cmd fs binfile = code s)"

lemma compiler_okD:
  assumes "compiler_ok cc cmd s b code" "s \<noteq> b"
  shows "cc cmd (fs(s \<mapsto> x, b := None)) b = code x"
  using assms(2) conjunct2 [OF assms(1) [unfolded compiler_ok_def], rule_format, of "fs(s \<mapsto> x, b := None)" x]
  by auto

lemma daemon_ready_int [simp]: "daemon_ready env (st\<lparr>sv_int := g\<rparr>) p l = daemon_ready env st p l"
  by (simp add: daemon_ready_def)

lemma daemon_ready_mem: "daemon_ready env st p l \<Longrightarrow> ample (sv_mem env)"
  by (simp add: daemon_ready_def)

lemma daemon_ready_answer:
  "daemon_ready env st p l \<Longrightarrow>
     answer_with env v c = \<lparr>reply = with_length (jug_int_verdict_to_string v), reply_closed = c\<rparr>"
  by (rule answer_with_sent) (simp add: daemon_ready_def)

text \<open>The run of a compiled submission.\<close>

lemma serv_run_decides:
  assumes ready: "daemon_ready env st p l" and w: "0 \<le> w" "w < 24"
    and fs: "fs (file_in env p w) = Some inp" "fs (file_out env p w) = Some out"
    and bin: "fs (file_bin p w) = Some b"
    and inp: "length inp < 30000000" and run: "clean_run (sv_run env (Some b) (Some inp)) (int (length inp)) bs ps"
    and cr: "CR \<notin> set (concat (pieces bs @ ps))"
  shows "\<exists>v. serv_run env w (file_bin p w) (Some (Some (file_in env p w))) (Some (Some (file_out env p w))) fs =
      Inr (Some v) \<and>
    (v = VERDICT_ACCEPTED \<longleftrightarrow> strip_LF (concat (pieces bs @ ps)) = strip_LF (filter (\<lambda>c. c \<noteq> CR) out))"
proof -
  let ?f = "\<lparr>content = out, offset = 0, fd_valid = True, fd_flags = O_RDWR, read_error = False\<rparr>"
  let ?sub = "\<lparr>thread_id = w, bin_path = file_bin p w, input_size = int (length inp)\<rparr>"
  have "length (file_bin p w) < 99"
    using ready length_dec_worker [of w] w by (simp add: daemon_ready_def file_bin_def submission_file_def)
  then have "\<exists>v. jug_runner_judge compare_output (sv_runner env) (sv_limits env) (sv_erfs env) (sv_run env (Some b) (Some inp)) True True
      ?f ?sub = Inr (Some v) \<and>
    (v = VERDICT_ACCEPTED \<longleftrightarrow> strip_LF (concat (pieces bs @ ps)) = strip_LF (filter (\<lambda>c. c \<noteq> CR) (content ?f)))"
    by (intro judge_run) (use run cr w ready in \<open>simp_all add: THREADS_MAX_def ref_good_def O_RDWR_def daemon_ready_def run_conf_of_def\<close>)
  moreover have "int32 (int (length inp)) = int (length inp)" using inp by simp
  ultimately show ?thesis using ready fs bin by (simp add: serv_run_def open_feed_def daemon_ready_def)
qed

section \<open>Properties\<close>

text \<open>From the first byte to the verdict: a worker of a daemon that is ready (\<open>daemon_ready\<close>) answers every judging request
  with inline data, without NUL bytes, with a source and of a length that is not a multiple of 1024, however the network
  cuts it, and closes the connection. If the source compiles to a program whose run the watcher ends with
  \<open>JS_CORRECT\<close>, with no call failing (\<open>clean_run\<close>) and no carriage return in the output, the client reads \<open>ACCEPTED\<close>
  exactly if the output of the program on the input equals the expected output it sent (up to line ends at the end
  and the carriage returns of the expected output), and the worker leaves no file behind.\<close>

theorem submission_judged:
  assumes ready: "daemon_ready env st p l" and w: "0 \<le> w" "w < 24" and msg: "message env st inp out src"
    and len: "\<not> 1024 dvd length (with_length (request_body inp out src))"
    and cmd: "c_fmt (cstr (cmd_compile l)) [file_src p l w, file_bin p w] = Inr cmd" "length cmd < length p + 200"
    and cc: "compiler_ok (compiler (sv_lang env)) cmd (file_src p l w) (file_bin p w) code" "code src = Some b"
    and run: "clean_run (sv_run env (Some b) (Some inp)) (int (length inp)) bs ps" "CR \<notin> set (concat (pieces bs @ ps))"
  shows "\<exists>v st'. queue_worker_serv env w st =
      Inr (Some (\<lparr>reply = with_length (jug_int_verdict_to_string v), reply_closed = True\<rparr>, st')) \<and>
    (v = VERDICT_ACCEPTED \<longleftrightarrow> strip_LF (concat (pieces bs @ ps)) = strip_LF (filter (\<lambda>c. c \<noteq> CR) out)) \<and>
    (\<forall>q. sv_files st' q = (if q \<in> {file_in env p w, file_out env p w, file_src p l w, file_bin p w} then None
       else sv_files st q))"
proof -
  obtain g where g: "queue_worker_serv env w st = serv_judging env w (data_request inp out src) (st\<lparr>sv_int := g\<rparr>)"
    using serv_request [OF daemon_ready_mem [OF ready] msg len] .
  let ?st = "st\<lparr>sv_int := g\<rparr>"
  define fs2 where "fs2 = (sv_files ?st)(file_in env p w \<mapsto> inp, file_out env p w \<mapsto> out)"
  define fs3 where "fs3 = compiler (sv_lang env) cmd (fs2(file_src p l w \<mapsto> src, file_bin p w := None))"
  have other: "q \<noteq> file_bin p w \<Longrightarrow> fs3 q = (fs2(file_src p l w \<mapsto> src)) q" for q
    using cc(1) by (simp add: fs3_def compiler_ok_def)
  have made: "fs3 (file_bin p w) = Some b"
    using compiler_okD [OF cc(1) files_distinct(6)] cc(2) by (simp add: fs3_def)
  have ready': "daemon_ready env ?st p l" using ready by simp
  obtain langs where judging: "serv_judging env w (data_request inp out src) ?st =
      c_then (serv_run env w (file_bin p w) (Some (Some (file_in env p w))) (Some (Some (file_out env p w)))
         (fs3(file_src p l w := None))) (\<lambda>v. case v of
       None \<Rightarrow> Inr None
     | Some verdict \<Rightarrow> Inr (Some (answer_with env verdict True, ?st\<lparr>sv_langs := langs,
         sv_files := (fs3(file_src p l w := None, file_bin p w := None, file_in env p w := None,
           file_out env p w := None))\<rparr>)))"
    by (rule serv_judging_data [OF ready' w _ cmd fs2_def fs3_def])
      (use message_length [OF msg] made in \<open>simp_all cong: option.case_cong\<close>)
  have "\<exists>v. serv_run env w (file_bin p w) (Some (Some (file_in env p w))) (Some (Some (file_out env p w)))
      (fs3(file_src p l w := None)) = Inr (Some v) \<and>
    (v = VERDICT_ACCEPTED \<longleftrightarrow> strip_LF (concat (pieces bs @ ps)) = strip_LF (filter (\<lambda>c. c \<noteq> CR) out))"
    by (rule serv_run_decides [OF ready w _ _ _ _ run])
      (use message_length [OF msg] made in \<open>simp_all add: files_distinct files_distinct [symmetric] other fs2_def\<close>)
  then show ?thesis
    unfolding g judging using daemon_ready_answer [OF ready]
    by (auto simp: other fs2_def files_distinct)
qed

text \<open>The compiler copies the source, and the program \<open>m\<close> prints \<open>outp\<close>.\<close>

definition sample_serv :: "string \<Rightarrow> serv_env" where
  "sample_serv outp = \<lparr>sv_mem = roomy,
     sv_sock = map Chunk [''17'' @ [LF], request_body ''1'' ''2'' ''m''] @ [], sv_sockopt = None, sv_send = (\<lambda>_. 5),
     sv_feed_workspace = ''/r/m/feed-workspace'', sv_feed_in = \<lparr>fe_now = 1, fe_open = True, fe_puts = True\<rparr>,
     sv_feed_out = \<lparr>fe_now = 1, fe_open = True, fe_puts = True\<rparr>, sv_ramfs = sample_ramfs,
     sv_lang = \<lparr>le_mkdir = Made, le_open = True, le_puts = True,
       compiler = copying (file_src ''/r/m'' (hd (g_languages sample_langs)) 3) (file_bin ''/r/m'' 3)\<rparr>,
     sv_runner = sample_runner, sv_limits = (255, 3000), sv_erfs = 0,
     sv_run = (\<lambda>bin _. (sample_world [if bin = Some ''m'' then outp else ''?''])\<lparr>rw_sends := replicate 5 Send_again,
       rw_flush_sends := [Sent 1]\<rparr>),
     sv_open_in = True, sv_open_right = True, sv_read_error = False\<rparr>"

definition sample_serv_state :: serv_state where
  "sample_serv_state = \<lparr>sv_int = \<lparr>g_socketbuffer_max_size = 0, g_socketbuffer_max_size_calculated = False\<rparr>,
     sv_langs = sample_langs, sv_files = Map.empty\<rparr>"

lemma sample_lang:
  "lang_get sample_langs ''c'' = Some (hd (g_languages sample_langs))"
  "cstr (ext_compile (hd (g_languages sample_langs))) = ''c''"
  "cstr (cmd_compile (hd (g_languages sample_langs))) = ''cc %s %s''"
  using cstr_padded [of "''c''" 20] cstr_padded [of "''cc %s %s''" 100]
  by (simp_all add: sample_langs_def lang_get_def)

lemma sample_daemon_ready:
  "daemon_ready (sample_serv outp) sample_serv_state ''/r/m'' (hd (g_languages sample_langs))"
  using sample_lang(1)
  by (simp add: daemon_ready_def sample_serv_def sample_serv_state_def sample_ramfs_def sample_runner_def)
    (simp add: sample_langs_def lang_start_def LANG_WORKERS_MAX_NBR_def blank_lang_def)

lemma sample_message: "message (sample_serv outp) sample_serv_state ''1'' ''2'' ''m''"
  by (auto simp: message_defs sample_serv_def sample_serv_state_def small_message_text small_request
      intro!: exI [of _ "[''17'' @ [LF], request_body ''1'' ''2'' ''m'']"] exI [of _ "[] :: sock"])

lemma sample_command:
  "c_fmt (cstr (cmd_compile (hd (g_languages sample_langs)))) [s, t] = Inr (''cc '' @ s @ '' '' @ t)"
  by (simp add: sample_lang(3))

lemma copying_ok: "compiler_ok (copying s t) (''cc '' @ s @ '' '' @ t) s t Some"
  by (auto simp: compiler_ok_def copying_def)

lemma sample_run_clean: "r \<noteq> [] \<Longrightarrow> clean_run (sv_run (sample_serv r) (Some ''m'') i) (int (length ''1'')) [Read_again] [r]"
  by (auto simp: clean_run_def sample_serv_def sample_world_def arriving_def sent_total_def sum_list_replicate)

theorem submission_judged_witness:
  "\<exists>st'. queue_worker_serv (sample_serv ''2'') 3 sample_serv_state =
      Inr (Some (\<lparr>reply = with_length ''ACCEPTED'', reply_closed = True\<rparr>, st')) \<and> sv_files st' = Map.empty"
proof -
  let ?l = "hd (g_languages sample_langs)" and ?e = "sample_serv ''2''"
  have three: "dec_int 3 = ''3''" by code_simp
  have "length (''cc '' @ file_src ''/r/m'' ?l 3 @ '' '' @ file_bin ''/r/m'' 3) < length ''/r/m'' + 200"
    by (simp add: file_src_def file_bin_def submission_ext_def submission_file_def sample_lang three)
  moreover have "compiler_ok (compiler (sv_lang ?e)) (''cc '' @ file_src ''/r/m'' ?l 3 @ '' '' @ file_bin ''/r/m'' 3)
      (file_src ''/r/m'' ?l 3) (file_bin ''/r/m'' 3) Some"
    using copying_ok by (simp add: sample_serv_def)
  moreover have "\<not> 1024 dvd length (with_length (request_body ''1'' ''2'' ''m''))"
    by (auto simp: small_message_text small_request dest: dvd_imp_le)
  ultimately have "\<exists>v st'. queue_worker_serv ?e 3 sample_serv_state =
      Inr (Some (\<lparr>reply = with_length (jug_int_verdict_to_string v), reply_closed = True\<rparr>, st')) \<and>
    (v = VERDICT_ACCEPTED \<longleftrightarrow> strip_LF (concat (pieces [Read_again] @ [''2''])) = strip_LF (filter (\<lambda>c. c \<noteq> CR) ''2'')) \<and>
    (\<forall>q. sv_files st' q = (if q \<in> {file_in ?e ''/r/m'' 3, file_out ?e ''/r/m'' 3, file_src ''/r/m'' ?l 3,
       file_bin ''/r/m'' 3} then None else sv_files sample_serv_state q))"
    by (intro submission_judged [where code = Some and b = "''m''", OF sample_daemon_ready _ _ sample_message _ sample_command])
      (use sample_run_clean [of "''2''"] in simp_all)
  then show ?thesis by (auto simp: sample_serv_state_def fun_eq_iff)
qed

text \<open>C23: A client whose message is a multiple of 1024 bytes long is told \<open>ACCEPTED\<close>, whatever its input, expected output
  and source are, whatever the compiler does and without anything being run: the message is a well-formed judging request
  with inline data, without NUL bytes and with a non-empty source, shorter than 30 MB, and it arrives in any pieces.
  The decoder refuses it, and the worker answers a refused request with \<open>VERDICT_ACCEPTED\<close>. The connection is not
  closed. Memory can be allocated and every \<open>send\<close> sends something.\<close>

theorem kilobyte_request_accepted:
  assumes "ample (sv_mem env)" "\<And>k. 0 < sv_send env k" "message env st inp out src"
    and "1024 dvd length (with_length (request_body inp out src))"
  shows "\<exists>st'. queue_worker_serv env w st =
      Inr (Some (\<lparr>reply = with_length ''ACCEPTED'', reply_closed = False\<rparr>, st')) \<and> sv_files st' = sv_files st"
proof -
  obtain cs rest where cs: "sv_sock env = map Chunk cs @ rest" "concat cs = with_length (request_body inp out src)"
      "\<forall>c \<in> set cs. c \<noteq> []"
    using assms(3) by (auto simp: message_defs)
  have "\<exists>b g req. jug_int_receive (sv_mem env) (sv_sockopt env) (sv_int st) (map Chunk cs @ rest) = Inr (Some b, rest, g) \<and>
      jug_int_decode (sv_mem env) b blank_request = Inr (-2, req)"
    by (rule kilobyte_truncated [OF refl _ assms(1) _ cs(2,3)]) (use assms(3,4) in \<open>simp_all add: message_defs\<close>)
  then obtain b g req where "jug_int_receive (sv_mem env) (sv_sockopt env) (sv_int st) (map Chunk cs @ rest) = Inr (Some b, rest, g)"
      "jug_int_decode (sv_mem env) b blank_request = Inr (-2, req)"
    by blast
  then show ?thesis using answer_with_sent [OF assms(2)] by (simp add: queue_worker_serv_def cs(1))
qed

theorem kilobyte_request_accepted_witness:
  "\<exists>st'. queue_worker_serv ((sample_serv ''2'')\<lparr>sv_sock := map Chunk
      [with_length (request_body ''1'' ''2'' (replicate 1000 CHR ''x''))]\<rparr>) 3 sample_serv_state =
    Inr (Some (\<lparr>reply = with_length ''ACCEPTED'', reply_closed = False\<rparr>, st')) \<and> sv_files st' = Map.empty"
proof -
  let ?m = "with_length (request_body ''1'' ''2'' (replicate 1000 CHR ''x''))"
  let ?e = "(sample_serv ''2'')\<lparr>sv_sock := map Chunk [?m]\<rparr>"
  have "?m \<noteq> []" by (simp add: with_length_def)
  then have "message ?e sample_serv_state ''1'' ''2'' (replicate 1000 CHR ''x'')"
    by (auto simp: message_defs kilobyte_message sample_serv_state_def sample_serv_def intro!: exI [of _ "[?m]"] exI [of _ "[] :: sock"])
  then have "\<exists>st'. queue_worker_serv ?e 3 sample_serv_state =
      Inr (Some (\<lparr>reply = with_length ''ACCEPTED'', reply_closed = False\<rparr>, st')) \<and> sv_files st' = sv_files sample_serv_state"
    by (rule kilobyte_request_accepted [rotated 2]) (simp_all add: kilobyte_message sample_serv_def)
  then show ?thesis by (simp add: sample_serv_state_def)
qed

text \<open>C24: A source that does not compile is answered with \<open>COMPILING ERROR\<close> and the connection is closed, but the two
  feed files and the source stay in the memory file system. The message is a judging request with inline data, without
  NUL bytes, with a non-empty source, shorter than 30 MB and not a multiple of 1024 bytes long (such a one is told
  \<open>ACCEPTED\<close> without being compiled); the daemon is ready (\<open>daemon_ready\<close>): the language \<open>c\<close> is there, memory, files and
  directories can be made, \<open>send\<close> does not fail, there is no execution root file system and the output is not shown; the command line fits its buffer, and the compiler
  writes no file but its result.\<close>

theorem compile_error_reported:
  assumes ready: "daemon_ready env st p l" and w: "0 \<le> w" "w < 24" and msg: "message env st inp out src"
    and len: "\<not> 1024 dvd length (with_length (request_body inp out src))"
    and cmd: "c_fmt (cstr (cmd_compile l)) [file_src p l w, file_bin p w] = Inr cmd" "length cmd < length p + 200"
    and cc: "compiler_ok (compiler (sv_lang env)) cmd (file_src p l w) (file_bin p w) code" "code src = None"
  shows "\<exists>st'. queue_worker_serv env w st =
      Inr (Some (\<lparr>reply = with_length ''COMPILING ERROR'', reply_closed = True\<rparr>, st')) \<and>
    sv_files st' (file_in env p w) = Some inp \<and> sv_files st' (file_out env p w) = Some out \<and>
    sv_files st' (file_src p l w) = Some src"
proof -
  obtain g where g: "queue_worker_serv env w st = serv_judging env w (data_request inp out src) (st\<lparr>sv_int := g\<rparr>)"
    using serv_request [OF daemon_ready_mem [OF ready] msg len] .
  let ?st = "st\<lparr>sv_int := g\<rparr>"
  define fs2 where "fs2 = (sv_files ?st)(file_in env p w \<mapsto> inp, file_out env p w \<mapsto> out)"
  define fs3 where "fs3 = compiler (sv_lang env) cmd (fs2(file_src p l w \<mapsto> src, file_bin p w := None))"
  have other: "q \<noteq> file_bin p w \<Longrightarrow> fs3 q = (fs2(file_src p l w \<mapsto> src)) q" for q
    using cc(1) by (simp add: fs3_def compiler_ok_def)
  have none: "fs3 (file_bin p w) = None"
    using compiler_okD [OF cc(1) files_distinct(6)] cc(2) by (simp add: fs3_def)
  have ready': "daemon_ready env ?st p l" using ready by simp
  obtain langs where judging: "serv_judging env w (data_request inp out src) ?st =
      Inr (Some (answer_with env VERDICT_COMPILE_ERROR True, ?st\<lparr>sv_langs := langs, sv_files := fs3\<rparr>))"
    by (rule serv_judging_data [OF ready' w _ cmd fs2_def fs3_def])
      (use message_length [OF msg] none in simp_all)
  then show ?thesis
    unfolding g judging using daemon_ready_answer [OF ready]
    by (simp add: other fs2_def files_distinct files_distinct [symmetric])
qed

theorem compile_error_reported_witness:
  "\<exists>st'. queue_worker_serv ((sample_serv ''2'')\<lparr>sv_lang := (sv_lang (sample_serv ''2''))\<lparr>compiler := \<lambda>_ fs. fs\<rparr>\<rparr>)
      3 sample_serv_state = Inr (Some (\<lparr>reply = with_length ''COMPILING ERROR'', reply_closed = True\<rparr>, st'))"
proof -
  let ?l = "hd (g_languages sample_langs)"
  let ?e = "(sample_serv ''2'')\<lparr>sv_lang := (sv_lang (sample_serv ''2''))\<lparr>compiler := \<lambda>_ fs. fs\<rparr>\<rparr>"
  have three: "dec_int 3 = ''3''" by code_simp
  have "daemon_ready ?e sample_serv_state ''/r/m'' ?l"
    using sample_daemon_ready [of "''2''"] by (simp add: daemon_ready_def)
  moreover have "message ?e sample_serv_state ''1'' ''2'' ''m''"
    using sample_message [of "''2''"] by (simp add: message_defs)
  moreover have "length (''cc '' @ file_src ''/r/m'' ?l 3 @ '' '' @ file_bin ''/r/m'' 3) < length ''/r/m'' + 200"
    by (simp add: file_src_def file_bin_def submission_ext_def submission_file_def sample_lang three)
  moreover have "\<not> 1024 dvd length (with_length (request_body ''1'' ''2'' ''m''))"
    by (auto simp: small_message_text small_request dest: dvd_imp_le)
  moreover have "compiler_ok (compiler (sv_lang ?e)) cmd (file_src ''/r/m'' ?l 3) (file_bin ''/r/m'' 3) (\<lambda>_. None)" for cmd
    by (simp add: compiler_ok_def)
  ultimately have "\<exists>st'. queue_worker_serv ?e 3 sample_serv_state =
      Inr (Some (\<lparr>reply = with_length ''COMPILING ERROR'', reply_closed = True\<rparr>, st')) \<and>
    sv_files st' (file_in ?e ''/r/m'' 3) = Some ''1'' \<and> sv_files st' (file_out ?e ''/r/m'' 3) = Some ''2'' \<and>
    sv_files st' (file_src ''/r/m'' ?l 3) = Some ''m''"
    by (intro compile_error_reported [where code = "\<lambda>_. None" and l = ?l, OF _ _ _ _ _ sample_command]) simp_all
  then show ?thesis by blast
qed

text \<open>A feed given by reference leaves the corresponding pointer of the request unset.\<close>

lemma decode_reference:
  assumes "jug_int_decode mem b blank_request = Inr (0, req)"
    and "in_type req = Some INT_REQ_FEEDTYPE_REFERENCE \<or> out_type req = Some INT_REQ_FEEDTYPE_REFERENCE"
  shows "req_input req = None \<or> req_output req = None"
  using assms
  by (auto simp: jug_int_decode_def decode_input_def decode_output_def decode_source_def then_stage_def c_then_Inr
      blank_request_def request_types Let_def split: if_splits option.splits sum.splits)

lemma serv_judging_unset:
  assumes "req_input req = None \<or> req_output req = None"
  shows "\<exists>e. serv_judging env w req st = Inl e"
proof -
  have "jug_int_free_request req = Inl Uninitialised" using assms by (auto simp: jug_int_free_request_def)
  then have "serv_judging env w req st \<noteq> Inr x" for x
    by (auto simp: serv_judging_def c_then_Inr Let_def split: option.splits if_splits)
  then show ?thesis by (cases "serv_judging env w req st") auto
qed

text \<open>C25: A judging request whose input or output is given by reference, which the protocol allows and the decoder
  accepts, makes every worker that serves it fault: at the latest when \<open>jug_int_free_request\<close> frees pointers
  that were never set. Any client can do this to the daemon.\<close>

theorem reference_request_faults:
  assumes "jug_int_receive (sv_mem env) (sv_sockopt env) (sv_int st) (sv_sock env) = Inr (Some b, rest, g)"
    and "jug_int_decode (sv_mem env) b blank_request = Inr (0, req)" "req_type req = Some INT_REQ_TYPE_JUDGE"
    and "in_type req = Some INT_REQ_FEEDTYPE_REFERENCE \<or> out_type req = Some INT_REQ_FEEDTYPE_REFERENCE"
  shows "\<exists>e. queue_worker_serv env w st = Inl e"
  using serv_judging_unset [OF decode_reference [OF assms(2,4)]] assms by (simp add: queue_worker_serv_def)

text \<open>Input 5 and output 6, by reference, and the source \<open>m\<close>.\<close>

definition reference_body :: string where
  "reference_body = ''0'' @ [LF] @ ''1'' @ [LF] @ ''5'' @ [LF] @ ''1'' @ [LF] @ ''6'' @ [LF] @ ''1'' @ [LF] @ ''m''"

lemma c_atoi_digit: "d < 10 \<Longrightarrow> c_atoi (digit_char d # LF # r) = Inr (int d)"
  using c_atoi_dec_nat [of d LF r] by simp

lemma digit_chars: "CHR ''1'' = digit_char 1" "CHR ''5'' = digit_char 5" "CHR ''6'' = digit_char 6"
  unfolding digit_char_def by code_simp+

lemma c_atoi_literals:
  "c_atoi (CHR ''1'' # LF # r) = Inr 1" "c_atoi (CHR ''5'' # LF # r) = Inr 5" "c_atoi (CHR ''6'' # LF # r) = Inr 6"
  unfolding digit_chars by (simp_all add: c_atoi_digit del: One_nat_def)

theorem reference_request_faults_witness:
  "\<exists>e. queue_worker_serv ((sample_serv ''2'')\<lparr>sv_sock := map Chunk [with_length reference_body]\<rparr>) 3
     sample_serv_state = Inl e"
proof -
  let ?e = "(sample_serv ''2'')\<lparr>sv_sock := map Chunk [with_length reference_body]\<rparr>"
  let ?g = "\<lparr>g_socketbuffer_max_size = 0, g_socketbuffer_max_size_calculated = False\<rparr>"
  have len: "with_length reference_body = ''13'' @ LF # reference_body"
    unfolding with_length_def reference_body_def by code_simp
  have "length (with_length reference_body) = 16" unfolding len by (simp add: reference_body_def)
  then have "\<exists>c g'. jug_int_receive roomy None ?g (map Chunk [with_length reference_body] @ []) = Inr (Some c, [], g') \<and>
      data_ptr c = Inr ((if 1024 dvd length (with_length reference_body) then butlast reference_body
        else reference_body) @ [NUL])"
    by (intro jug_int_receive_message) (simp_all add: len, simp_all add: reference_body_def)
  then obtain c g' where c: "jug_int_receive roomy None ?g (map Chunk [with_length reference_body]) = Inr (Some c, [], g')"
      "data_ptr c = Inr (reference_body @ [NUL])"
    using \<open>length (with_length reference_body) = 16\<close> by (auto dest: dvd_imp_le)
  have "decode_data roomy (dec_nat (length ''m'') @ LF # ''m'' @ [NUL]) = Inr (Some (''m'', []))"
    by (rule decode_data_read) (simp_all add: roomy_def)
  then have src: "decode_data roomy (CHR ''1'' # LF # ''m'' @ [NUL]) = Inr (Some (''m'', []))"
    unfolding digit_chars by simp
  let ?req = "blank_request\<lparr>req_type := Some 0, in_type := Some 1, in_reference := Some 5, out_type := Some 1,
    out_reference := Some 6, sourcecode := Some ''m''\<rparr>"
  have "jug_int_decode roomy c blank_request = Inr (0, ?req)"
    using src
    by (simp add: jug_int_decode_def buffer_get_string_def c(2) reference_body_def c_atoi_0 then_stage_def
        decode_input_def decode_output_def decode_source_def request_types Let_def c_atoi_literals)
  then show ?thesis
    using c(1)
    by (intro reference_request_faults [where b = c and rest = "[]" and g = g' and req = ?req])
      (simp_all add: sample_serv_def sample_serv_state_def request_types)
qed

end
