(* ===== verification/Kudosd.thy ===== *)
theory Kudosd
  imports Sandbox Worker
begin

text \<open>
  The daemon (\<open>src/kudosd.c\<close>): the command line, the file with the process id of the daemon, the actions
  \<open>start\<close>, \<open>stop\<close>, \<open>restart\<close> and \<open>state\<close>, becoming a daemon, starting every component in order, the loop that
  accepts connections, and the signal handler. Answers of the system are fields of environments; the
  messages of the command are modelled, those of the start and of the system log are left out.
\<close>

section \<open>The command line\<close>

datatype daemon_action_enum =
  DAEMON_ACTION_START | DAEMON_ACTION_STOP | DAEMON_ACTION_RESTART | DAEMON_ACTION_STATE

datatype effect = Print string | Kill int | Unlink_pidfile

text \<open>A message after which the process exits with 0, or the action. The argument is copied into
  \<open>action_str[50]\<close>.\<close>

definition kudosd_arguments :: "string list \<Rightarrow> (string + daemon_action_enum) c_result" where
  "kudosd_arguments argv = (case argv of
       [] \<Rightarrow> Inl Out_of_bounds
     | [_] \<Rightarrow> Inr (Inl (''Usage : kudosd [start|stop|restart|state|-v]'' @ [LF]))
     | _ # a # _ \<Rightarrow>
         if length a + 1 > 50 then Inl Buffer_overflow
         else if a = ''start'' then Inr (Inr DAEMON_ACTION_START)
         else if a = ''restart'' then Inr (Inr DAEMON_ACTION_RESTART)
         else if a = ''stop'' then Inr (Inr DAEMON_ACTION_STOP)
         else if a = ''state'' then Inr (Inr DAEMON_ACTION_STATE)
         else if a = ''-v'' then Inr (Inl (''KudosJudge 0.1'' @ [LF]))
         else Inr (Inl (a @ '' : Unknown action'' @ [LF])))"

section \<open>The process id of the daemon\<close>

datatype stat_answer = Found | Missing | Stat_error

text \<open>\<open>tmppid_str\<close> is declared with 10 bytes. \<open>stack\<close> is what lies from its first byte up to the end of the memory
  that may be overwritten without harm: 10 bytes by the declaration, more if the frame leaves a gap.
  Up to 50 bytes are read into it, and a terminator is written at index 10.\<close>

definition read_pid :: "string \<Rightarrow> string \<Rightarrow> int c_result" where
  "read_pid stack file_bytes =
     (let got = take 50 file_bytes in
      if length got > length stack \<or> length stack \<le> 10 then Inl Buffer_overflow
      else c_atoi ((got @ drop (length got) stack)[10 := NUL]))"

text \<open>The bytes \<open>sprintf\<close> and \<open>fwrite\<close> put into the file.\<close>

definition write_pid :: "string \<Rightarrow> int \<Rightarrow> string c_result" where
  "write_pid stack pid =
     (if length (dec_int pid) + 1 > length stack then Inl Buffer_overflow else Inr (dec_int pid @ [NUL]))"

text \<open>Reading the id and looking for its directory in \<open>/proc\<close>: an exit code, or the id and whether it runs.\<close>

definition check_pid :: "string \<Rightarrow> (int \<Rightarrow> stat_answer) \<Rightarrow> string \<Rightarrow> (int + (int \<times> bool)) c_result" where
  "check_pid stack proc_stat file_bytes = c_then (read_pid stack file_bytes) (\<lambda>pid.
     Inr (case proc_stat pid of
         Found \<Rightarrow> Inr (pid, True)
       | Missing \<Rightarrow> Inr (pid, False)
       | Stat_error \<Rightarrow> Inl 5))"

record daemon_state =
  tmpfile_exists :: bool
  daemon_pid :: "int option"
  daemon_running :: bool

text \<open>\<open>pf_bytes\<close> is the file, \<open>None\<close> when it cannot be opened. \<open>fread\<close> has no negative result, so that the exit with 3
  is never taken.\<close>

record pidfile_env =
  pf_stat :: stat_answer
  pf_bytes :: "string option"
  pf_stack :: string
  pf_proc :: "int \<Rightarrow> stat_answer"

definition gather_state :: "pidfile_env \<Rightarrow> (int + daemon_state) c_result" where
  "gather_state env = (case pf_stat env of
       Stat_error \<Rightarrow> Inr (Inl 1)
     | Missing \<Rightarrow> Inr (Inr \<lparr>tmpfile_exists = False, daemon_pid = None, daemon_running = False\<rparr>)
     | Found \<Rightarrow> (case pf_bytes env of
           None \<Rightarrow> Inr (Inl 2)
         | Some bytes \<Rightarrow> c_then (check_pid (pf_stack env) (pf_proc env) bytes) (\<lambda>r.
             Inr (map_sum id (\<lambda>(pid, up). \<lparr>tmpfile_exists = True, daemon_pid = Some pid, daemon_running = up\<rparr>) r))))"

section \<open>The actions\<close>

text \<open>The answers of \<open>time\<close> and \<open>access\<close> at successive moments. A loop asks until the time is over or the file is, or
  is not, there; the rest of the list is what comes after it, and \<open>None\<close> says that it is still asking.\<close>

fun poll :: "int \<Rightarrow> bool \<Rightarrow> (int \<times> bool) list \<Rightarrow> (int \<times> bool) list option" where
  "poll limit waiting_while [] = None"
| "poll limit waiting_while ((elapsed, there) # obs) =
     (if elapsed < limit \<and> there = waiting_while then poll limit waiting_while obs else Some obs)"

record control_env =
  ce_euid :: int
  ce_unlink :: bool
  ce_kill :: bool
  ce_polls :: "(int \<times> bool) list"

definition ESC :: char where "ESC = CHR 0x1B"

definition pid_of :: "daemon_state \<Rightarrow> int" where
  "pid_of s = (case daemon_pid s of None \<Rightarrow> 0 | Some pid \<Rightarrow> pid)"

definition root_hint :: "daemon_action_enum \<Rightarrow> control_env \<Rightarrow> effect list" where
  "root_hint act env =
     (if act \<noteq> DAEMON_ACTION_STATE \<and> ce_euid env \<noteq> 0
      then [Print (''You may need to run kudosJudge as root (sudo)'' @ [LF])] else [])"

text \<open>What is done, and the exit code; no code means that the start of the daemon follows.\<close>

definition kudosd_action ::
  "daemon_action_enum \<Rightarrow> control_env \<Rightarrow> daemon_state \<Rightarrow> (effect list \<times> int option) option" where
  "kudosd_action act env s = (case act of
       DAEMON_ACTION_STATE \<Rightarrow>
         Some ([Print (if daemon_running s
             then ''the KudosJudge Daemon is'' @ [ESC] @ ''[0;32m running'' @ [ESC] @ ''[0m (pid='' @ dec_int (pid_of s) @ '')'' @ [LF]
             else ''the KudosJudge Daemon is'' @ [ESC] @ ''[0;31m not running'' @ [LF]),
           Print ([ESC] @ ''[0m'')], Some 0)
     | DAEMON_ACTION_START \<Rightarrow>
         if daemon_running s then Some ([Print (''the daemon is already running : pid='' @ dec_int (pid_of s) @ [LF])], Some 0)
         else if tmpfile_exists s \<and> \<not> ce_unlink env then Some ([Print (''Internal Error : 4'' @ [LF])], Some 4)
         else Some (if tmpfile_exists s then [Unlink_pidfile] else [], None)
     | DAEMON_ACTION_STOP \<Rightarrow>
         if \<not> daemon_running s then Some ([Print (''the daemon isn'' @ [CHR 0x27] @ ''t running'' @ [LF])], Some 0)
         else if \<not> ce_kill env then Some ([Print (''error during shutdown operation, error 6'')], Some 6)
         else if \<not> ce_unlink env then Some ([Kill (pid_of s), Print (''Internal Error : 7'' @ [LF])], Some 7)
         else Some ([Kill (pid_of s), Unlink_pidfile,
           Print (''the daemon (pid='' @ dec_int (pid_of s) @ '') is stopped'' @ [LF])], Some 0)
     | DAEMON_ACTION_RESTART \<Rightarrow>
         if \<not> daemon_running s then Some ([Print (''the daemon isn'' @ [CHR 0x27] @ ''t running'' @ [LF])], None)
         else if \<not> ce_kill env
         then Some ([Print (''stopping...'' @ [LF]), Print (''error during shutdown operation, error 8'')], Some 8)
         else (case poll 7 True (ce_polls env) of
             Some ((_, there) # _) \<Rightarrow>
               if there then Some ([Print (''stopping...'' @ [LF]), Kill (pid_of s),
                 Print (''Failed to stop, timeout'' @ [LF])], Some 13)
               else Some ([Print (''stopping...'' @ [LF]), Kill (pid_of s), Print (''Daemon Stopped'' @ [LF])], None)
           | _ \<Rightarrow> None))"

section \<open>Becoming a daemon\<close>

text \<open>The answers of the two calls of \<open>fork\<close> in the process that goes on (0 in the child), and of \<open>setsid\<close>.\<close>

record fork_env =
  fork1 :: int
  setsid_ok :: bool
  fork2 :: int

text \<open>An exit code, or the return value.\<close>

definition kjd_daemonize :: "fork_env \<Rightarrow> int + int" where
  "kjd_daemonize env =
     (if fork1 env < 0 then Inr (-1)
      else if fork1 env > 0 then Inr 100
      else if \<not> setsid_ok env then Inl (-1)
      else if fork2 env < 0 then Inl (-2)
      else if fork2 env > 0 then Inl 0
      else Inr 0)"

text \<open>The process that was started by hand waits for the file of the daemon. \<open>pe_reads\<close>: what successive calls of
  \<open>fread\<close> deliver, empty while nothing has been written.\<close>

record parent_env =
  pe_polls :: "(int \<times> bool) list"
  pe_open :: bool
  pe_reads :: "string list"
  pe_stack :: string
  pe_proc :: "int \<Rightarrow> stat_answer"

definition kudosd_parent :: "parent_env \<Rightarrow> (effect list \<times> int) option c_result" where
  "kudosd_parent env = (let starting = Print (''starting ...'' @ [LF]) in
     case poll 10 False (pe_polls env) of
       Some ((_, there) # _) \<Rightarrow>
         if \<not> there then Inr (Some ([starting, Print (''Failed to start the daemon, Timout'' @ [LF])], 12))
         else if \<not> pe_open env then Inr (Some ([starting, Print (''Internal Error : 2'' @ [LF])], 10))
         else (case dropWhile (\<lambda>r. r = []) (pe_reads env) of
             [] \<Rightarrow> Inr None
           | bytes # _ \<Rightarrow> c_then (check_pid (pe_stack env) (pe_proc env) bytes) (\<lambda>r. Inr (Some (case r of
                 Inl code \<Rightarrow> ([starting, Print (''Internal Error : 5'' @ [LF])], code)
               | Inr (pid, up) \<Rightarrow> (starting # (if up
                   then [Print ([ESC] @ ''[0;32mstarted'' @ [ESC] @ ''[0m  (pid = '' @ dec_int pid @ '') '' @ [LF])]
                   else [Print (''stat returned -1 : No such file or directory'' @ [LF]),
                     Print ([ESC] @ ''[0;31m Failed to start the daemon'' @ [ESC] @ ''[0m '' @ [LF])]), 0)))))
     | _ \<Rightarrow> Inr None)"

section \<open>Starting the components\<close>

text \<open>\<open>jug_runner_start\<close> and \<open>jug_runner_stop\<close> of \<open>src/runner.c\<close>: a code, or the runner, the sandbox and the process
  id of the template.\<close>

definition jug_runner_start ::
  "config_env \<Rightarrow> bool \<Rightarrow> template_env \<Rightarrow> int \<Rightarrow> config_state \<Rightarrow>
     ((int + (Runner \<times> sandbox \<times> int)) \<times> config_state) c_result" where
  "jug_runner_start env tmp_exists w num_workers st =
     c_then (jug_runner_init env st) (\<lambda>(e, runner, st1). case runner of
       None \<Rightarrow> Inr (Inl (-1), st1)
     | Some r \<Rightarrow> c_then (jug_sandbox_init env tmp_exists st1) (\<lambda>(e, sandbox, st2). case sandbox of
         None \<Rightarrow> Inr (Inl (-1), st2)
       | Some b \<Rightarrow> c_then (jug_runner_template_init w num_workers) (\<lambda>(e, pid).
           Inr (if e \<noteq> 0 then Inl (-2) else Inr (r, b, pid), st2))))"


record start_env =
  ds_conf :: config_env
  ds_mem :: allocator
  ds_pid :: int
  ds_var_dir :: bool
  ds_var_mkdir :: bool
  ds_ramfs_exists :: bool
  ds_ramfs_mkdir :: bool
  ds_ramfs_mount :: bool
  ds_threads :: "nat \<Rightarrow> bool"
  ds_tmp_exists :: bool
  ds_template :: template_env
  ds_lang_dir :: mkdir_answer
  ds_feed_dir :: mkdir_answer
  ds_bind :: bool
  ds_pid_open :: bool
  ds_pid_written :: nat
  ds_stack :: string

record kjd =
  d_stderr :: string
  d_ramfs :: ramfs_info
  d_queue :: queue_globals
  d_workers :: "nat list"
  d_runner :: Runner
  d_sandbox :: sandbox
  d_template_pid :: int
  d_langs :: lang_state
  d_feed_workspace :: string
  d_int :: int_state
  d_pidfile :: string

text \<open>The directory below which the memory file system is mounted, and mounting it.\<close>

definition start_ramfs :: "start_env \<Rightarrow> (int + ramfs_info) c_result" where
  "start_ramfs env =
     (if jug_root (ds_conf env) = None then Inr (Inl (-558))
      else if \<not> ds_var_dir env \<and> \<not> ds_var_mkdir env then Inr (Inl (-558))
      else c_then (init_ramfs (ds_mem env) ''/var/opt/kudosJudge'' ''ramfs'' 10 15) (\<lambda>info.
        let error = fst (create_ramfs (ds_ramfs_exists env) (ds_ramfs_mkdir env) (ds_ramfs_mount env) info) in
        Inr (if error \<noteq> 0 \<and> error \<noteq> -2 then Inl (-559) else Inr info)))"

definition stderr_name :: "int \<Rightarrow> string \<Rightarrow> string" where
  "stderr_name pid v = (if atoi_str v = 1 then ''/tmp/kudosd-stderr-'' @ dec_int pid else ''/dev/null'')"

text \<open>The last part: the socket is bound and the file with the process id is written. A failing call of \<open>socket\<close> is
  only logged; \<open>bind\<close> then fails.\<close>

definition publish_pid :: "start_env \<Rightarrow> (int + string) c_result" where
  "publish_pid env =
     (if \<not> ds_bind env then Inr (Inl 1)
      else if \<not> ds_pid_open env then Inr (Inl 2)
      else c_then (write_pid (ds_stack env) (ds_pid env)) (\<lambda>bytes.
        Inr (if ds_pid_written env < length bytes then Inl 3 else Inr bytes)))"

text \<open>From the redirection of \<open>stderr\<close> to the file with the process id: an exit code, or the running daemon.\<close>

definition kudosd_start :: "start_env \<Rightarrow> config_state \<Rightarrow> (int + kjd) c_result" where
  "kudosd_start env st0 =
     c_then (jug_get_config (ds_conf env) ''Executer'' ''redirect_stderr'' st0) (\<lambda>(v, st1). case v of
       None \<Rightarrow> Inr (Inl 12)
     | Some redirect \<Rightarrow> c_then (start_ramfs env) (\<lambda>r. case r of
         Inl code \<Rightarrow> Inr (Inl code)
       | Inr ramfs \<Rightarrow> c_then (queue_start (ds_conf env) (ds_mem env) (ds_threads env) st1) (\<lambda>(error, queue, workers, st2).
         case queue of
           None \<Rightarrow> Inr (Inl (-100))
         | Some q \<Rightarrow> if error \<noteq> 0 then Inr (Inl (-100))
         else c_then (jug_runner_start (ds_conf env) (ds_tmp_exists env) (ds_template env)
             (queue_get_workers_count q) st2) (\<lambda>(r, st3). case r of
           Inl _ \<Rightarrow> Inr (Inl (-556))
         | Inr (runner, box, template) \<Rightarrow>
           c_then (lang_init (ds_conf env) ramfs (ds_lang_dir env) st3 lang_start) (\<lambda>(error, langs, st4).
           if error \<noteq> 0 then Inr (Inl (-557))
           else c_then (jug_feed_init (ds_mem env) ramfs (ds_feed_dir env)) (\<lambda>(error, feed). case feed of
             None \<Rightarrow> Inr (Inl (-558))
           | Some feed \<Rightarrow>
             (case jug_int_init \<lparr>g_socketbuffer_max_size = 0, g_socketbuffer_max_size_calculated = False\<rparr> of (error, g) \<Rightarrow>
             if error \<noteq> 0 then Inr (Inl (-559))
             else c_then (publish_pid env) (\<lambda>r. Inr (case r of
               Inl code \<Rightarrow> Inl code
             | Inr bytes \<Rightarrow> Inr \<lparr>d_stderr = stderr_name (ds_pid env) redirect, d_ramfs = ramfs, d_queue = q,
                 d_workers = workers, d_runner = runner, d_sandbox = box, d_template_pid = template,
                 d_langs = langs, d_feed_workspace = feed, d_int = g, d_pidfile = bytes\<rparr>)))))))))"

section \<open>Serving\<close>

text \<open>A connection: its socket and the address of the structure with the name of the peer, which is the same
  variable of \<open>main\<close> for every connection.\<close>

record jug_connection =
  client_socket :: int
  client_sockaddr_in :: nat

text \<open>The answers of \<open>accept\<close>, each with the address \<open>malloc\<close> gives the queue entry; \<open>None\<close> while the loop goes on, and
  the queue as it is then.\<close>

fun accept_loop ::
  "nat \<Rightarrow> (int \<times> nat) list \<Rightarrow> jug_connection jug_queue \<Rightarrow> (int option \<times> jug_connection jug_queue) c_result" where
  "accept_loop client [] q = Inr (None, q)"
| "accept_loop client ((client_sock, a) # answers) q =
     (if client_sock < 0 then Inr (Some 1, q)
      else c_then (queue_push_connection a \<lparr>client_socket = client_sock, client_sockaddr_in = client\<rparr> q)
        (accept_loop client answers))"










section \<open>main\<close>

record main_env =
  me_setenv :: bool
  me_argv :: "string list"
  me_pidfile :: pidfile_env
  me_control :: control_env
  me_fork :: fork_env
  me_parent :: parent_env
  me_start :: start_env
  me_client :: nat
  me_accepts :: "(int \<times> nat) list"

text \<open>The process exits, serves connections, or waits for the file of the daemon to come or go.\<close>

datatype main_end =
    Exit "effect list" int
  | Serves "effect list" kjd "jug_connection jug_queue"
  | Waits

text \<open>The process that becomes the daemon.\<close>

definition kudosd_serve :: "main_env \<Rightarrow> effect list \<Rightarrow> main_end c_result" where
  "kudosd_serve env effs = c_then (kudosd_start (me_start env) config_start) (\<lambda>r. case r of
       Inl code \<Rightarrow> Inr (Exit effs code)
     | Inr d \<Rightarrow> c_then (accept_loop (me_client env) (me_accepts env) empty_queue) (\<lambda>(ret, q).
         Inr (case ret of Some code \<Rightarrow> Exit effs code | None \<Rightarrow> Serves effs d q)))"

definition kudosd_main :: "main_env \<Rightarrow> main_end c_result" where
  "kudosd_main env =
     (if \<not> me_setenv env then Inr (Exit [Print ''Cannot set the environment variable JUG_ROOT''] (-52))
      else c_then (kudosd_arguments (me_argv env)) (\<lambda>a. case a of
        Inl msg \<Rightarrow> Inr (Exit [Print msg] 0)
      | Inr act \<Rightarrow> c_then (gather_state (me_pidfile env)) (\<lambda>s. case s of
          Inl code \<Rightarrow> Inr (Exit (root_hint act (me_control env) @ [Print (''Internal Error : '' @ dec_int code @ [LF])]) code)
        | Inr s \<Rightarrow> (case kudosd_action act (me_control env) s of
              None \<Rightarrow> Inr Waits
            | Some (effs, Some code) \<Rightarrow> Inr (Exit (root_hint act (me_control env) @ effs) code)
            | Some (effs, None) \<Rightarrow>
                let done = root_hint act (me_control env) @ effs in
                (case kjd_daemonize (me_fork env) of
                   Inl code \<Rightarrow> Inr (Exit done code)
                 | Inr r \<Rightarrow>
                     if r = 100 then c_then (kudosd_parent (me_parent env)) (\<lambda>p. Inr (case p of
                         None \<Rightarrow> Waits
                       | Some (effs', code) \<Rightarrow> Exit (done @ effs') code))
                     else kudosd_serve env done)))))"

section \<open>Laws\<close>

lemma check_written_pid:
  assumes "10 < length stack" "0 \<le> pid" "pid < 2 ^ 31" "write_pid stack0 pid = Inr bytes"
  shows "check_pid stack proc bytes = Inr (case proc pid of Found \<Rightarrow> Inr (pid, True) | Missing \<Rightarrow> Inr (pid, False)
    | Stat_error \<Rightarrow> Inl 5)"
proof -
  let ?n = "nat pid"
  have bytes: "bytes = dec_nat ?n @ [NUL]" using assms by (auto simp: write_pid_def dec_int_def split: if_splits)
  have n: "?n < 2 ^ 31" using assms by simp
  then have len: "length (dec_nat ?n) \<le> 10" by (intro length_dec_nat_bound) simp_all
  let ?b = "(bytes @ drop (length bytes) stack)[10 := NUL]"
  have "\<exists>r. ?b = dec_nat ?n @ NUL # r"
  proof (cases "length (dec_nat ?n) = 10")
    case True
    then show ?thesis by (simp add: bytes list_update_append)
  next
    case False
    then have "length (dec_nat ?n) < 10" using len by simp
    then show ?thesis
      by (auto simp: bytes list_update_append nth_Cons' list_update.simps(2) split: nat.splits)
  qed
  then obtain r where "?b = dec_nat ?n @ NUL # r" ..
  then have "c_atoi ?b = Inr pid" using c_atoi_dec_nat [OF n, of NUL r] assms(2) by simp
  then show ?thesis using len assms(1) by (simp add: check_pid_def read_pid_def bytes)
qed

text \<open>The settings the daemon asks for, and a configuration that has them all.\<close>

definition queue_keys :: "string list" where
  "queue_keys = [''num_worker_threads'', ''queue_size_limit'']"

definition complete_conf :: "(string \<times> (string \<times> string) list) list \<Rightarrow> bool" where
  "complete_conf conf \<longleftrightarrow>
     (\<forall>k \<in> set (''redirect_stderr'' # runner_keys @ sandbox_keys). map_of (flat_conf conf) (''Executer'', k) \<noteq> None) \<and>
     (\<forall>k \<in> set queue_keys. map_of (flat_conf conf) (''Queue'', k) \<noteq> None)"

definition conf_value :: "(string \<times> (string \<times> string) list) list \<Rightarrow> string \<Rightarrow> string \<Rightarrow> string" where
  "conf_value conf section key = the (map_of (flat_conf conf) (section, key))"

lemma complete_conf_value:
  "complete_conf conf \<Longrightarrow> k \<in> set (''redirect_stderr'' # runner_keys @ sandbox_keys) \<Longrightarrow>
     map_of (flat_conf conf) (''Executer'', k) = Some (conf_value conf ''Executer'' k)"
  unfolding complete_conf_def conf_value_def by auto

lemma runner_start_reads:
  assumes "config_at env conf" "complete_conf conf" "reads_conf st conf"
  obtains r b where "jug_runner_start env True w n st = c_then (jug_runner_template_init w n) (\<lambda>(e, pid).
      Inr (if e \<noteq> 0 then Inl (-2) else Inr (r, b, pid), conf_state conf))"
    "use_ERFS b = atoi_str (conf_value conf ''Executer'' ''use_ERFS'')"
    "show_submission_output r = atoi_str (conf_value conf ''Executer'' ''show_submission_output'')"
proof -
  let ?v = "\<lambda>k. conf_value conf ''Executer'' k"
  let ?i = "\<lambda>k. atoi_str (?v k)"
  let ?r = "\<lparr>kill_on_compout = ?i ''kill_on_compout'', show_submission_output = ?i ''show_submission_output'',
    stack_size_mb = ?i ''stack_size_mb'', output_size_limit_mb_default = ?i ''output_size_limit_mb'',
    nbr_instances = 0, count_submissions = 0, count_submissions_success = 0\<rparr>"
  let ?b = "\<lparr>use_ERFS = ?i ''use_ERFS'', chroot_dir = ?v ''chroot_dir_path'', use_cgroups = ?i ''use_cgroups'',
    use_setrlimit = ?i ''use_setrlimit'', mem_limit_mb_default = ?i ''mem_limit_mb'',
    time_limit_ms_default = ?i ''time_limit_ms'', walltime_limit_ms_default = ?i ''walltime_limit_ms''\<rparr>"
  have mem: "can_alloc (conf_mem env) k" for k using assms(1) by (simp add: config_at_def)
  have "read_settings (jug_get_config env ''Executer'') True runner_keys st =
      Inr (Some (map (conf_value conf ''Executer'') runner_keys), conf_state conf)"
    by (rule conf.read_all) (use assms(1,3) complete_conf_value [OF assms(2)] in \<open>simp_all add: runner_keys_def\<close>)
  moreover have "read_settings (jug_get_config env ''Executer'') True sandbox_keys (conf_state conf) =
      Inr (Some (map (conf_value conf ''Executer'') sandbox_keys), conf_state conf)"
    by (rule conf.read_all) (use assms(1) complete_conf_value [OF assms(2)] in \<open>simp_all add: sandbox_keys_def\<close>)
  ultimately have "jug_runner_start env True w n st = c_then (jug_runner_template_init w n) (\<lambda>(e, pid).
      Inr (if e \<noteq> 0 then Inl (-2) else Inr (?r, ?b, pid), conf_state conf))"
    using mem by (simp add: jug_runner_start_def jug_runner_init_def jug_sandbox_init_def runner_keys_def
        sandbox_keys_def del: read_settings.simps)
  then show thesis by (rule that) simp_all
qed

text \<open>With one of the settings missing neither the runner nor the queue starts.\<close>

lemma runner_start_missing:
  assumes "config_at env conf" "reads_conf st conf"
    and "k \<in> set (runner_keys @ sandbox_keys)" "map_of (flat_conf conf) (''Executer'', k) = None"
  shows "jug_runner_start env t w n st = Inr (Inl (-1), conf_state conf)"
proof -
  let ?look = "jug_get_config env ''Executer''"
  have mem: "can_alloc (conf_mem env) k" for k using assms(1) by (simp add: config_at_def)
  show ?thesis
  proof (cases "\<exists>k \<in> set runner_keys. map_of (flat_conf conf) (''Executer'', k) = None")
    case True
    then have "read_settings ?look True runner_keys st = Inr (None, conf_state conf)"
      using conf.read_missing assms(1,2) by blast
    then show ?thesis using mem by (simp add: jug_runner_start_def jug_runner_init_def)
  next
    case False
    then have "\<forall>k \<in> set runner_keys. map_of (flat_conf conf) (''Executer'', k) = Some (conf_value conf ''Executer'' k)"
      by (auto simp: conf_value_def)
    then have "read_settings ?look True runner_keys st = Inr (Some (map (conf_value conf ''Executer'') runner_keys), conf_state conf)"
      by (intro conf.read_all) (use assms(1,2) in \<open>auto simp: runner_keys_def\<close>)
    moreover have "read_settings ?look True sandbox_keys (conf_state conf) = Inr (None, conf_state conf)"
      using False assms(1,3,4) by (intro conf.read_missing) auto
    ultimately show ?thesis
      using mem by (simp add: jug_runner_start_def jug_runner_init_def jug_sandbox_init_def runner_keys_def del: read_settings.simps)
  qed
qed

lemma queue_start_missing:
  assumes "config_at env conf" "ample mem" "k \<in> set queue_keys" "map_of (flat_conf conf) (''Queue'', k) = None"
  shows "queue_start env mem ok (conf_state conf) = Inr (-1, None, [], conf_state conf)"
proof -
  have "jug_get_config env ''Queue'' k' (conf_state conf) = Inr (map_of (flat_conf conf) (''Queue'', k'), conf_state conf)" for k'
    using conf.look_law [of env conf "conf_state conf"] assms(1) by simp
  then show ?thesis
    using assms(2-4) by (auto simp: queue_start_def queue_init_def queue_keys_def ampleD split: option.split)
qed

lemma launch_from_all: "launch_from mem ws ok is = Inr (0, started) \<Longrightarrow> started = is"
  by (induction "is" arbitrary: started) (auto simp: c_then_Inr split: if_splits)

lemma queue_started:
  "queue_start env mem ok st = Inr (0, Some q, workers, st') \<Longrightarrow> workers = [0..<nat (g_num_worker_threads q)]"
  by (auto simp: queue_start_def queue_launch_workers_def c_cases dest!: launch_from_all)

text \<open>What the memory file system, the runner and the languages promise a daemon that has started.\<close>

lemma start_ramfs_path:
  "start_ramfs env = Inr (Inr info) \<Longrightarrow> ramfs_path info = ''/var/opt/kudosJudge/ramfs'' \<and> used info = 0 \<and>
     size_alloc info = 10000000 \<and> mem_max info = 10000000"
  by (auto simp: start_ramfs_def c_then_Inr init_ramfs_def Let_def split: if_splits)

lemma template_started: "jug_runner_template_init w n = Inr (0, pid) \<Longrightarrow> n \<le> THREADS_MAX \<and> pid = clone_pid w \<and> pid \<noteq> -1"
  by (auto simp: jug_runner_template_init_def Let_def split: if_splits)

lemma runner_started:
  "jug_runner_start env tmp w n st = Inr (Inr (r, b, pid), st') \<Longrightarrow> n \<le> THREADS_MAX \<and> pid = clone_pid w"
  by (auto simp: jug_runner_start_def c_then_Inr split: option.splits if_splits dest!: template_started)

lemma published: "publish_pid env = Inr (Inr bytes) \<Longrightarrow> write_pid (ds_stack env) (ds_pid env) = Inr bytes"
  by (auto simp: publish_pid_def c_then_Inr split: if_splits)

lemma started_daemon_parts:
  assumes "kudosd_start env st = Inr (Inr d)"
  obtains cst1 cst2 cst3 cst4 ferror where "start_ramfs env = Inr (Inr (d_ramfs d))"
    "queue_start (ds_conf env) (ds_mem env) (ds_threads env) cst1 = Inr (0, Some (d_queue d), d_workers d, cst2)"
    "jug_runner_start (ds_conf env) (ds_tmp_exists env) (ds_template env) (g_num_worker_threads (d_queue d)) cst2 =
       Inr (Inr (d_runner d, d_sandbox d, d_template_pid d), cst3)"
    "lang_init (ds_conf env) (d_ramfs d) (ds_lang_dir env) cst3 lang_start = Inr (0, d_langs d, cst4)"
    "jug_feed_init (ds_mem env) (d_ramfs d) (ds_feed_dir env) = Inr (ferror, Some (d_feed_workspace d))"
    "publish_pid env = Inr (Inr (d_pidfile d))"
  using assms
  by (auto simp: kudosd_start_def Let_def queue_get_workers_count_def c_cases split: if_splits)

definition RAMFS_DIR :: string where "RAMFS_DIR = ''/var/opt/kudosJudge/ramfs''"

definition kjd_ok :: "kjd \<Rightarrow> bool" where
  "kjd_ok d \<longleftrightarrow> ramfs_path (d_ramfs d) = RAMFS_DIR \<and> d_feed_workspace d = RAMFS_DIR @ ''/feed-workspace'' \<and>
     g_lang_workspace (d_langs d) = Some (RAMFS_DIR @ ''/lang-workspace'') \<and> lang_state_wf (d_langs d) \<and>
     g_num_worker_threads (d_queue d) \<le> 24 \<and> d_workers d = [0..<nat (g_num_worker_threads (d_queue d))]"

lemma kudosd_start_ok:
  assumes "kudosd_start env st = Inr (Inr d)"
  shows "kjd_ok d" "d_template_pid d = clone_pid (ds_template env)"
    "write_pid (ds_stack env) (ds_pid env) = Inr (d_pidfile d)"
proof -
  obtain cst1 cst2 cst3 cst4 ferror where parts: "start_ramfs env = Inr (Inr (d_ramfs d))"
    "queue_start (ds_conf env) (ds_mem env) (ds_threads env) cst1 = Inr (0, Some (d_queue d), d_workers d, cst2)"
    "jug_runner_start (ds_conf env) (ds_tmp_exists env) (ds_template env) (g_num_worker_threads (d_queue d)) cst2 =
       Inr (Inr (d_runner d, d_sandbox d, d_template_pid d), cst3)"
    "lang_init (ds_conf env) (d_ramfs d) (ds_lang_dir env) cst3 lang_start = Inr (0, d_langs d, cst4)"
    "jug_feed_init (ds_mem env) (d_ramfs d) (ds_feed_dir env) = Inr (ferror, Some (d_feed_workspace d))"
    "publish_pid env = Inr (Inr (d_pidfile d))"
    using started_daemon_parts [OF assms] by metis
  show "kjd_ok d"
    using start_ramfs_path [OF parts(1)] queue_started [OF parts(2)] runner_started [OF parts(3)]
      lang_init_wf [OF lang_start_wf parts(4)] parts(5)
    by (simp add: kjd_ok_def RAMFS_DIR_def THREADS_MAX_def jug_feed_init_def split: if_splits)
  show "d_template_pid d = clone_pid (ds_template env)" using runner_started [OF parts(3)] by simp
  show "write_pid (ds_stack env) (ds_pid env) = Inr (d_pidfile d)" using published [OF parts(6)] .
qed

text \<open>A system on which every call of the start succeeds, the process id has at most nine digits (the greatest one Linux gives
  out has seven) and \<open>tmppid_str\<close> has the ten bytes it is declared with.\<close>

definition healthy :: "start_env \<Rightarrow> bool" where
  "healthy env \<longleftrightarrow> ample (ds_mem env) \<and> (ds_var_dir env \<or> ds_var_mkdir env) \<and>
     (ds_ramfs_exists env \<or> ds_ramfs_mkdir env \<and> ds_ramfs_mount env) \<and> (\<forall>i. ds_threads env i) \<and> ds_tmp_exists env \<and>
     (\<forall>k. pipe_ok (ds_template env) k) \<and> mutex_ok (ds_template env) \<and> shmget_ok (ds_template env) \<and>
     shmat_ok (ds_template env) \<and> stack_ok (ds_template env) \<and> clone_pid (ds_template env) \<noteq> -1 \<and>
     ds_lang_dir env \<noteq> Mkdir_error \<and> ds_feed_dir env \<noteq> Mkdir_error \<and> ds_bind env \<and> ds_pid_open env \<and>
     0 \<le> ds_pid env \<and> ds_pid env < 10 ^ 9 \<and> 10 \<le> ds_pid_written env \<and> 10 \<le> length (ds_stack env)"

text \<open>The languages of a configuration: the entry of a compiled language comes first; every further entry can be read into
  a fresh slot, and there are slots for all of them.\<close>

definition readable :: "(Lang \<Rightarrow> string \<Rightarrow> string \<Rightarrow> Lang c_result) \<Rightarrow> (string \<times> string) list \<Rightarrow> bool" where
  "readable rd kvs = list_all (\<lambda>(key, val). case rd blank_lang key val of Inl _ \<Rightarrow> False | Inr _ \<Rightarrow> True) kvs"

definition first_compiler ::
  "(string \<times> (string \<times> string) list) list \<Rightarrow> string \<Rightarrow> string \<Rightarrow> string \<Rightarrow> string \<Rightarrow> string \<Rightarrow> bool" where
  "first_compiler conf key v la c x \<longleftrightarrow>
     (\<exists>more. section_entries conf ''compilers'' = (key, v @ '','' @ la @ '','' @ c @ '','' @ x) # more \<and>
        readable read_compiler more) \<and>
     readable read_interpreter (section_entries conf ''interpreters'') \<and>
     readable read_vm (section_entries conf ''virtual machines'') \<and>
     length (section_entries conf ''compilers'') + length (section_entries conf ''interpreters'') +
       length (section_entries conf ''virtual machines'') \<le> LANG_MAX \<and>
     field_ok 20 key \<and> field_ok 30 v \<and> field_ok 80 la \<and> field_ok 100 c \<and> field_ok 20 x"

text \<open>A table whose first languages are \<open>ls\<close>, with \<open>n\<close> fresh slots after them.\<close>

definition lang_table :: "Lang list \<Rightarrow> nat \<Rightarrow> lang_state" where
  "lang_table ls n = lang_start\<lparr>g_languages := ls @ replicate n blank_lang, g_languages_count := length ls\<rparr>"

lemma lang_table_entry:
  "rd blank_lang key val = Inr l \<Longrightarrow> read_langs rd ((key, val) # kvs) (lang_table ls (Suc n)) =
     read_langs rd kvs (lang_table (ls @ [l]) n)"
  by (simp add: lang_table_def nth_append list_update_append)

lemma lang_table_reads:
  "readable rd kvs \<Longrightarrow> length kvs \<le> m \<Longrightarrow>
     \<exists>ls'. length ls' = length kvs \<and> read_langs rd kvs (lang_table ls m) = Inr (lang_table (ls @ ls') (m - length kvs))"
proof (induction kvs arbitrary: ls m)
  case (Cons kv kvs)
  obtain key val where kv: "kv = (key, val)" by (cases kv)
  obtain l where l: "rd blank_lang key val = Inr l"
    using Cons.prems(1) by (auto simp: readable_def kv split: sum.splits)
  obtain k where k: "m = Suc k" using Cons.prems(2) by (cases m) simp_all
  obtain ls' where "length ls' = length kvs"
      "read_langs rd kvs (lang_table (ls @ [l]) k) = Inr (lang_table ((ls @ [l]) @ ls') (k - length kvs))"
    using Cons.IH [of k "ls @ [l]"] Cons.prems k by (auto simp: readable_def)
  then show ?case using lang_table_entry [of rd key val l kvs ls k, OF l] kv k by (intro exI [of _ "l # ls'"]) simp
qed simp

lemma lang_init_reads:
  assumes "config_at env conf" "first_compiler conf key v la c x" "reads_conf cst conf" "a \<noteq> Mkdir_error"
  obtains st l where "lang_init env ramfs a cst lang_start = Inr (0, st, conf_state conf)"
    "lang_get st key = Some l" "lang_kind l = LANG_COMPILED" "cstr (cmd_compile l) = c" "cstr (ext_compile l) = x"
proof -
  let ?in = "section_entries conf ''interpreters''" and ?vm = "section_entries conf ''virtual machines''"
  obtain more where more: "section_entries conf ''compilers'' = (key, v @ '','' @ la @ '','' @ c @ '','' @ x) # more"
      "readable read_compiler more" "readable read_interpreter ?in" "readable read_vm ?vm"
      "Suc (length more) + length ?in + length ?vm \<le> 19"
    using assms(2) by (auto simp: first_compiler_def LANG_MAX_def)
  obtain l where l: "read_compiler blank_lang key (v @ '','' @ la @ '','' @ c @ '','' @ x) = Inr l"
      "lang_kind l = LANG_COMPILED" "cstr (lang_id l) = key" "cstr (cmd_compile l) = c" "cstr (ext_compile l) = x"
    using compiler_entry_round_trip [of key v la c x] assms(2) by (auto simp: first_compiler_def)
  have start: "lang_start\<lparr>g_languages_count := 0\<rparr> = lang_table [] (Suc 18)"
    by (simp add: lang_table_def lang_start_def LANG_MAX_def numeral_eq_Suc)
  have len: "length more \<le> 18" "length ?in \<le> 18 - length more" "length ?vm \<le> 18 - length more - length ?in"
    using more(5) by linarith+
  obtain ls1 where ls1: "read_langs read_compiler more (lang_table [l] 18) = Inr (lang_table ([l] @ ls1) (18 - length more))"
    using lang_table_reads [OF more(2), of 18 "[l]"] len(1) by auto
  obtain ls2 where ls2: "read_langs read_interpreter ?in (lang_table ([l] @ ls1) (18 - length more)) =
      Inr (lang_table (([l] @ ls1) @ ls2) (18 - length more - length ?in))"
    using lang_table_reads [OF more(3), of "18 - length more" "[l] @ ls1"] len(2) by blast
  obtain ls3 where ls3: "read_langs read_vm ?vm (lang_table (([l] @ ls1) @ ls2) (18 - length more - length ?in)) =
      Inr (lang_table ((([l] @ ls1) @ ls2) @ ls3) (18 - length more - length ?in - length ?vm))"
    using lang_table_reads [OF more(4), of "18 - length more - length ?in" "([l] @ ls1) @ ls2"] len(3) by blast
  let ?final = "(lang_table ((([l] @ ls1) @ ls2) @ ls3) (18 - length more - length ?in - length ?vm))\<lparr>
    g_lang_workspace := Some (ramfs_path ramfs @ ''/'' @ ''lang-workspace'')\<rparr>"
  have mem: "can_alloc (conf_mem env) k" for k using assms(1) by (simp add: config_at_def)
  have "read_langs read_compiler (section_entries conf ''compilers'') (lang_start\<lparr>g_languages_count := 0\<rparr>) =
      Inr (lang_table ([l] @ ls1) (18 - length more))"
    unfolding start more(1) by (subst lang_table_entry [where l = l]) (use l(1) ls1 in simp_all)
  then have "lang_init env ramfs a cst lang_start = Inr (0, ?final, conf_state conf)"
    unfolding lang_init_def
    using conf.entries_law [of env conf] assms(1,3,4) mem ls2 ls3
    by (simp del: read_langs.simps append_Cons append_Nil append_assoc)
  then show thesis by (rule that) (use l in \<open>simp_all add: lang_get_def lang_table_def\<close>)
qed

lemma launch_from_ok: "(\<forall>i. ok i) \<Longrightarrow> can_alloc mem 24 \<Longrightarrow> ws \<or> is = [] \<Longrightarrow> launch_from mem ws ok is = Inr (0, is)"
  by (induction "is") auto

lemma queue_start_reads:
  assumes "config_at env conf" "\<forall>k \<in> set queue_keys. map_of (flat_conf conf) (''Queue'', k) \<noteq> None"
    and "ample mem" "\<forall>i. ok i"
    and n: "n = atoi_str (conf_value conf ''Queue'' ''num_worker_threads'')"
  shows "queue_start env mem ok (conf_state conf) = Inr (0, Some \<lparr>g_num_worker_threads = n,
      g_queue_size_limit = atoi_str (conf_value conf ''Queue'' ''queue_size_limit''), g_workers_allocated = (0 \<le> n)\<rparr>,
    [0..<nat n], conf_state conf)"
proof -
  have "n < 2 ^ 31" using atoi_str_range(2) n by simp
  then have mem: "can_alloc mem (8 * nat n)" "can_alloc mem 24" "can_alloc mem 88" using assms(3) by (simp_all add: ampleD)
  have launch: "launch_from mem (0 \<le> n) ok [0..<nat n] = Inr (0, [0..<nat n])"
    by (rule launch_from_ok) (use assms(4) mem in auto)
  have "jug_get_config env ''Queue'' ''num_worker_threads'' (conf_state conf) =
      Inr (Some (conf_value conf ''Queue'' ''num_worker_threads''), conf_state conf)"
    "jug_get_config env ''Queue'' ''queue_size_limit'' (conf_state conf) =
      Inr (Some (conf_value conf ''Queue'' ''queue_size_limit''), conf_state conf)"
    using conf.look_law [of env conf "conf_state conf"] assms(1,2) by (auto simp: queue_keys_def conf_value_def)
  then show ?thesis
    using mem launch by (simp add: queue_start_def queue_init_def queue_launch_workers_def n [symmetric])
qed

lemma start_ramfs_healthy:
  assumes "healthy env" "jug_root (ds_conf env) \<noteq> None"
  obtains info where "start_ramfs env = Inr (Inr info)"
  using assms
  by (auto simp: start_ramfs_def healthy_def init_ramfs_def create_ramfs_def ampleD Let_def)

lemma publish_pid_healthy:
  assumes "healthy env"
  obtains bytes where "publish_pid env = Inr (Inr bytes)"
proof -
  have "nat (ds_pid env) < 10 ^ 9" using assms by (auto simp: healthy_def nat_less_iff)
  then have "length (dec_int (ds_pid env)) \<le> 9"
    using length_dec_nat_bound [of "nat (ds_pid env)" 9] assms by (simp add: healthy_def dec_int_def)
  then show thesis using that assms by (simp add: publish_pid_def write_pid_def healthy_def)
qed

lemma template_healthy:
  "healthy env \<Longrightarrow> jug_runner_template_init (ds_template env) n =
     Inr (if n > 24 then (-5, -1) else (0, clone_pid (ds_template env)))"
  by (simp add: healthy_def jug_runner_template_init_def THREADS_MAX_def Let_def)

lemma start_decides:
  assumes conf: "config_at (ds_conf env) conf" "complete_conf conf" "first_compiler conf key v la c x"
    and env: "healthy env" and n: "n = atoi_str (conf_value conf ''Queue'' ''num_worker_threads'')"
  shows "n > 24 \<longrightarrow> kudosd_start env config_start = Inr (Inl (-556))"
    "n \<le> 24 \<longrightarrow> (\<exists>d l. kudosd_start env config_start = Inr (Inr d) \<and> g_num_worker_threads (d_queue d) = n \<and>
       use_ERFS (d_sandbox d) = atoi_str (conf_value conf ''Executer'' ''use_ERFS'') \<and>
       show_submission_output (d_runner d) = atoi_str (conf_value conf ''Executer'' ''show_submission_output'') \<and>
       lang_get (d_langs d) key = Some l \<and> lang_kind l = LANG_COMPILED \<and> cstr (cmd_compile l) = c \<and> cstr (ext_compile l) = x)"
proof -
  let ?cs = "conf_state conf" and ?q = "\<lparr>g_num_worker_threads = n, g_queue_size_limit = atoi_str (conf_value conf ''Queue'' ''queue_size_limit''),
    g_workers_allocated = (0 \<le> n)\<rparr>"
  have redirect: "jug_get_config (ds_conf env) ''Executer'' ''redirect_stderr'' config_start =
      Inr (Some (conf_value conf ''Executer'' ''redirect_stderr''), ?cs)"
    using get_config_reads [OF conf(1)] complete_conf_value [OF conf(2)] by simp
  obtain info where info: "start_ramfs env = Inr (Inr info)"
    using start_ramfs_healthy [OF env] conf(1) by (auto simp: config_at_def)
  have queue: "queue_start (ds_conf env) (ds_mem env) (ds_threads env) ?cs = Inr (0, Some ?q, [0..<nat n], ?cs)"
    by (rule queue_start_reads [OF conf(1) _ _ _ n]) (use env conf(2) in \<open>simp_all add: healthy_def complete_conf_def\<close>)
  obtain r b where runner: "jug_runner_start (ds_conf env) True (ds_template env) n ?cs =
      c_then (jug_runner_template_init (ds_template env) n) (\<lambda>(e, pid).
        Inr (if e \<noteq> 0 then Inl (-2) else Inr (r, b, pid), ?cs))"
      "use_ERFS b = atoi_str (conf_value conf ''Executer'' ''use_ERFS'')"
      "show_submission_output r = atoi_str (conf_value conf ''Executer'' ''show_submission_output'')"
    using runner_start_reads [OF conf(1,2)] by (metis reads_conf_start(2))
  obtain langs l where langs: "lang_init (ds_conf env) info (ds_lang_dir env) ?cs lang_start = Inr (0, langs, ?cs)"
      "lang_get langs key = Some l" "lang_kind l = LANG_COMPILED" "cstr (cmd_compile l) = c" "cstr (ext_compile l) = x"
    using lang_init_reads [OF conf(1,3)] env by (metis healthy_def reads_conf_start(2))
  obtain bytes where bytes: "publish_pid env = Inr (Inr bytes)" using publish_pid_healthy [OF env] .
  have tmp: "ds_tmp_exists env" using env by (simp add: healthy_def)
  have feed: "jug_feed_init (ds_mem env) info (ds_feed_dir env) = Inr (0, Some (ramfs_path info @ ''/feed-workspace''))"
    using env start_ramfs_path [OF info] by (simp add: jug_feed_init_def healthy_def ampleD)
  note steps = redirect info queue runner langs bytes tmp feed template_healthy [OF env]
  show "n > 24 \<longrightarrow> kudosd_start env config_start = Inr (Inl (-556))"
    using steps by (simp add: kudosd_start_def queue_get_workers_count_def)
  show "n \<le> 24 \<longrightarrow> (\<exists>d l. kudosd_start env config_start = Inr (Inr d) \<and> g_num_worker_threads (d_queue d) = n \<and>
       use_ERFS (d_sandbox d) = atoi_str (conf_value conf ''Executer'' ''use_ERFS'') \<and>
       show_submission_output (d_runner d) = atoi_str (conf_value conf ''Executer'' ''show_submission_output'') \<and>
       lang_get (d_langs d) key = Some l \<and> lang_kind l = LANG_COMPILED \<and> cstr (cmd_compile l) = c \<and> cstr (ext_compile l) = x)"
    using steps by (simp add: kudosd_start_def queue_get_workers_count_def jug_int_init_def Let_def)
qed

text \<open>The tables the workers of a daemon may see: what \<open>lang_process\<close> makes of the one it started with.\<close>

inductive lang_runs :: "lang_state \<Rightarrow> lang_state \<Rightarrow> bool" for st0 :: lang_state where
  lang_runs_start: "lang_runs st0 st0"
| lang_runs_process: "lang_runs st0 st \<Longrightarrow> lang_process mem e ramfs langid source w st bi fs = Inr (code, st', bi', fs') \<Longrightarrow>
    lang_runs st0 st'"

lemma lang_runs_wf:
  "lang_runs st0 st \<Longrightarrow> lang_state_wf st0 \<Longrightarrow> lang_state_wf st \<and> g_languages st = g_languages st0 \<and>
     g_languages_count st = g_languages_count st0 \<and> g_lang_workspace st = g_lang_workspace st0"
  by (induction rule: lang_runs.induct) (auto dest: lang_process_wf)

lemma lang_get_runs:
  assumes "lang_runs st0 st" "lang_state_wf st0"
  shows "lang_get st langid = lang_get st0 langid"
  using lang_runs_wf [OF assms] by (simp add: lang_get_def)

lemma push_at_fresh:
  assumes "queue_holds q xs" "heap q a = None"
  shows "\<exists>q'. queue_push_connection a c q = Inr q' \<and> dom (heap q') = insert a (dom (heap q))"
proof -
  obtain as where as: "chain (heap q) (head q) as xs" "as \<noteq> [] \<longrightarrow> tail q = Some (List.last as)"
    using assms by (auto simp: queue_holds_def)
  show ?thesis
  proof (cases "as = []")
    case True
    then have "head q = None" using as(1) by (cases xs) simp_all
    then show ?thesis by (auto simp: queue_push_connection_def Let_def)
  next
    case False
    then have "List.last as \<in> dom (heap q)" using chain_addresses [OF as(1)] last_in_set by blast
    then show ?thesis using as(2) False by (auto simp: queue_push_connection_def Let_def split: option.splits)
  qed
qed

lemma accept_loop_holds:
  "queue_holds q xs \<Longrightarrow> \<forall>s \<in> set answers. 0 \<le> fst s \<Longrightarrow> distinct (map snd answers) \<Longrightarrow>
     \<forall>a \<in> set (map snd answers). heap q a = None \<Longrightarrow>
     \<exists>q'. accept_loop client answers q = Inr (None, q') \<and>
       queue_holds q' (xs @ map (\<lambda>(s, _). \<lparr>client_socket = s, client_sockaddr_in = client\<rparr>) answers)"
proof (induction answers arbitrary: q xs)
  case (Cons p answers)
  obtain s a where p: "p = (s, a)" by (cases p)
  let ?c = "\<lparr>client_socket = s, client_sockaddr_in = client\<rparr>"
  have a: "heap q a = None" using Cons.prems(4) p by simp
  obtain q1 where q1: "queue_push_connection a ?c q = Inr q1" "dom (heap q1) = insert a (dom (heap q))"
    using push_at_fresh [OF Cons.prems(1) a] by blast
  then have "push_conn ?c q q1" using a by (auto simp: push_conn_def)
  then have holds: "queue_holds q1 (xs @ [?c])" by (rule conn_fifo.push_law [OF Cons.prems(1)])
  have "heap q1 b = None" if "b \<in> set (map snd answers)" for b
  proof -
    have "b \<noteq> a" "heap q b = None" using that Cons.prems(3,4) p by auto
    then have "b \<notin> dom (heap q1)" unfolding q1(2) by auto
    then show ?thesis by auto
  qed
  then show ?case using Cons.IH [OF holds] Cons.prems p q1(1) by auto
qed simp

section \<open>Properties\<close>

text \<open>C20: The start of the daemon, decided by its configuration: on a system where no call fails (\<open>healthy\<close>), with a
  configuration file, however it is written, that parses to every setting and to languages of which the first is a
  compiled one and all can be read and have a slot, the daemon starts with as many workers as asked for, or refuses with
  code \<open>-556\<close> if they are more than the 24 the runner has pipes for.\<close>

theorem daemon_start_decides:
  assumes "config_at (ds_conf env) conf" "complete_conf conf" "first_compiler conf key v la c x" "healthy env"
    and "n = atoi_str (conf_value conf ''Queue'' ''num_worker_threads'')"
  shows "if n > 24 then kudosd_start env config_start = Inr (Inl (-556))
    else \<exists>d l. kudosd_start env config_start = Inr (Inr d) \<and> d_workers d = [0..<nat n] \<and>
      lang_get (d_langs d) key = Some l \<and> lang_kind l = LANG_COMPILED \<and> cstr (cmd_compile l) = c"
proof (cases "n > 24")
  case True
  then show ?thesis using start_decides(1) [OF assms] by simp
next
  case False
  then obtain d l where d: "kudosd_start env config_start = Inr (Inr d)" "g_num_worker_threads (d_queue d) = n"
      "lang_get (d_langs d) key = Some l" "lang_kind l = LANG_COMPILED" "cstr (cmd_compile l) = c"
    using start_decides(2) [OF assms] by auto
  then have "d_workers d = [0..<nat n]" using kudosd_start_ok(1) [OF d(1)] by (simp add: kjd_ok_def)
  then show ?thesis using d False by auto
qed

text \<open>The configuration the repository ships (\<open>src/etc/config.ini\<close>): its text, how it is laid out, and the sections it
  consists of; and a system where every call succeeds.\<close>

definition shipped_config_ini :: string where
  "shipped_config_ini = concat (map (\<lambda>l. l @ [LF]) ([
    ''# the main config file for KudosJudge.'',
    ''# each component is represented by a section'',
    ''#'',
    [],
    ''[Executer]'',
    ''# limits'',
    ''mem_limit_mb = 255'',
    ''time_limit_ms= 3000'',
    ''walltime_limit_ms=60000'',
    ''output_size_limit_mb=5'',
    [],
    ''# allocated size for the watcher stack.'',
    ''stack_size_mb= 32'',
    ''# ERFS path'',
    ''use_ERFS=0'',
    ''chroot_dir_path = /home/odev/chrootdeb'',
    [],
    ''# whether to use cgroups (right now always no),'' @ [TAB] @ '' '',
    ''use_cgroups=0'',
    [],
    ''# whether to use Linux setrlimit, (alaways yes)'',
    ''use_setrlimit=1 '',
    [],
    ''# kill the submission before it terminate if it is judged wrong.'',
    ''kill_on_compout=1'',
    [],
    ''#print the executer output on the screen'',
    ''show_submission_output=0'',
    ''#redirect kudosjudge'' @ [CHR 0x27] @ ''s stderr to a file in /tmp'',
    ''redirect_stderr=1'',
    [],
    [],
    [],
    ''[Queue]'',
    ''#the number of threads to launch (<24, because 24 is the maximum value supported)'',
    ''num_worker_threads=5;'',
    ''#queue size limit; the limit the daemon refuses connections.'',
    ''queue_size_limit=120'',
    [],
    [],
    ''#### list of compilers/interpreters/virtual machines ######'',
    ''[compilers]'',
    ''c=4.8.4, gcc-4.8.4, gcc %s -o %s,c'',
    ''[interpreters]'',
    ''python=2.7.6, Python 2.6.7, python %s,py'',
    ''python2=2.7.6, Python 2.6.8, python %s,py'',
    ''[virtual machines]'',
    ''java=1.7.0, Java openJDK, javac %s,java,java %s,class''] @ replicate 26 []))"

definition shipped_remarks :: "ini_item list" where
  "shipped_remarks = [Remark ''# the main config file for KudosJudge.'',
     Remark ''# each component is represented by a section'',
     Remark ''#''] @ replicate 1 (Remark [])"

definition shipped_layout :: "(string \<times> ini_item list) list" where
  "shipped_layout =
    [(''Executer'',
     [Remark ''# limits'',
     Entry [] ''mem_limit_mb'' '' '' '' '' ''255'' [],
     Entry [] ''time_limit_ms'' [] '' '' ''3000'' [],
     Entry [] ''walltime_limit_ms'' [] [] ''60000'' [],
     Entry [] ''output_size_limit_mb'' [] [] ''5'' [],
     Remark [],
     Remark ''# allocated size for the watcher stack.'',
     Entry [] ''stack_size_mb'' [] '' '' ''32'' [],
     Remark ''# ERFS path'',
     Entry [] ''use_ERFS'' [] [] ''0'' [],
     Entry [] ''chroot_dir_path'' '' '' '' '' ''/home/odev/chrootdeb'' [],
     Remark [],
     Remark (''# whether to use cgroups (right now always no),'' @ [TAB] @ '' ''),
     Entry [] ''use_cgroups'' [] [] ''0'' [],
     Remark [],
     Remark ''# whether to use Linux setrlimit, (alaways yes)'',
     Entry [] ''use_setrlimit'' [] [] ''1'' '' '',
     Remark [],
     Remark ''# kill the submission before it terminate if it is judged wrong.'',
     Entry [] ''kill_on_compout'' [] [] ''1'' [],
     Remark [],
     Remark ''#print the executer output on the screen'',
     Entry [] ''show_submission_output'' [] [] ''0'' [],
     Remark (''#redirect kudosjudge'' @ [CHR 0x27] @ ''s stderr to a file in /tmp''),
     Entry [] ''redirect_stderr'' [] [] ''1'' []] @ replicate 3 (Remark [])),
     (''Queue'',
     [Remark ''#the number of threads to launch (<24, because 24 is the maximum value supported)'',
     Entry [] ''num_worker_threads'' [] [] ''5;'' [],
     Remark ''#queue size limit; the limit the daemon refuses connections.'',
     Entry [] ''queue_size_limit'' [] [] ''120'' [],
     Remark [],
     Remark [],
     Remark ''#### list of compilers/interpreters/virtual machines ######'']),
     (''compilers'',
     [Entry [] ''c'' [] [] ''4.8.4, gcc-4.8.4, gcc %s -o %s,c'' []]),
     (''interpreters'',
     [Entry [] ''python'' [] [] ''2.7.6, Python 2.6.7, python %s,py'' [],
     Entry [] ''python2'' [] [] ''2.7.6, Python 2.6.8, python %s,py'' []]),
     (''virtual machines'',
     [Entry [] ''java'' [] [] ''1.7.0, Java openJDK, javac %s,java,java %s,class'' []] @ replicate 26 (Remark []))]"

definition sample_conf :: "(string \<times> (string \<times> string) list) list" where
  "sample_conf =
     [(''Executer'', [(''mem_limit_mb'', ''255''), (''time_limit_ms'', ''3000''), (''walltime_limit_ms'', ''60000''),
        (''output_size_limit_mb'', ''5''), (''stack_size_mb'', ''32''), (''use_ERFS'', ''0''),
        (''chroot_dir_path'', ''/home/odev/chrootdeb''), (''use_cgroups'', ''0''), (''use_setrlimit'', ''1''),
        (''kill_on_compout'', ''1''), (''show_submission_output'', ''0''), (''redirect_stderr'', ''1'')]),
      (''Queue'', [(''num_worker_threads'', ''5;''), (''queue_size_limit'', ''120'')]),
      (''compilers'', [(''c'', ''4.8.4, gcc-4.8.4, gcc %s -o %s,c'')]),
      (''interpreters'', [(''python'', ''2.7.6, Python 2.6.7, python %s,py''), (''python2'', ''2.7.6, Python 2.6.8, python %s,py'')]),
      (''virtual machines'', [(''java'', ''1.7.0, Java openJDK, javac %s,java,java %s,class'')])]"

definition sample_start :: start_env where
  "sample_start = \<lparr>ds_conf = \<lparr>jug_root = Some ''/opt/kudosJudge'',
       file_at = (\<lambda>f. if f = ''/opt/kudosJudge/etc/config.ini'' then Some shipped_config_ini else None),
       conf_mem = granting\<rparr>,
     ds_mem = roomy, ds_pid = 77, ds_var_dir = True, ds_var_mkdir = True, ds_ramfs_exists = False, ds_ramfs_mkdir = True,
     ds_ramfs_mount = True, ds_threads = (\<lambda>_. True), ds_tmp_exists = True,
     ds_template = \<lparr>pipe_ok = (\<lambda>_. True), mutex_ok = True, shmget_ok = True, shmat_ok = True, stack_ok = True, clone_pid = 78\<rparr>,
     ds_lang_dir = Made, ds_feed_dir = Exists, ds_bind = True, ds_pid_open = True, ds_pid_written = 10,
     ds_stack = replicate 10 NUL\<rparr>"

lemma shipped_text: "shipped_config_ini = print_items shipped_remarks @ print_layout shipped_layout"
  by code_simp

lemma shipped_ok:
  "layout_ok shipped_layout" "\<forall>i \<in> set shipped_remarks. item_ok i" "entries_of shipped_remarks = []"
  "layout_conf shipped_layout = sample_conf"
  by code_simp+

lemma sample_start_config: "config_at (ds_conf sample_start) sample_conf"
  unfolding shipped_ok(4) [symmetric]
  by (rule config_at_layout [of _ "''/opt/kudosJudge''" shipped_remarks])
    (use shipped_ok in \<open>simp_all add: sample_start_def granting_def shipped_text\<close>, simp add: shipped_layout_def)

lemma sample_conf_complete: "complete_conf sample_conf"
  by (simp add: complete_conf_def sample_conf_def flat_conf_def runner_keys_def sandbox_keys_def queue_keys_def)

lemma sample_conf_compiler: "first_compiler sample_conf ''c'' ''4.8.4'' '' gcc-4.8.4'' '' gcc %s -o %s'' ''c''"
proof -
  have "readable read_interpreter (section_entries sample_conf ''interpreters'')"
    "readable read_vm (section_entries sample_conf ''virtual machines'')"
    by code_simp+
  then show ?thesis
    by (simp add: first_compiler_def) (simp add: section_entries_def sample_conf_def field_ok_def readable_def LANG_MAX_def)
qed

lemma sample_start_healthy: "healthy sample_start"
  by (simp add: healthy_def sample_start_def)

lemma sample_conf_workers: "atoi_str (conf_value sample_conf ''Queue'' ''num_worker_threads'') = 5"
proof -
  have "conf_value sample_conf ''Queue'' ''num_worker_threads'' = ''5;''"
    by (simp add: conf_value_def sample_conf_def flat_conf_def)
  moreover have "atoi_str ''5;'' = 5" by code_simp
  ultimately show ?thesis by simp
qed

lemmas sample_starts = sample_start_config sample_conf_complete sample_conf_compiler sample_start_healthy

theorem daemon_start_decides_witness:
  "\<exists>d. kudosd_start sample_start config_start = Inr (Inr d) \<and> d_workers d = [0, 1, 2, 3, 4]"
proof -
  have "nat 5 = 5" "[0..<5] = [0, 1, 2, 3, 4 :: nat]" by (simp_all add: upt_rec)
  then show ?thesis
    using daemon_start_decides [OF sample_starts refl] by (auto simp: sample_conf_workers)
qed

text \<open>C22: A setting is missing from the configuration file, however it is written: the daemon does not start, and its exit
  code says in which part the setting is: 12 for the one \<open>main\<close> reads itself, else \<open>-100\<close> for those of the queue, else \<open>-556\<close>
  for those of the runner and the sandbox. No call of the system fails (\<open>healthy\<close>), and the file can be parsed.\<close>

theorem incomplete_configuration_refused:
  assumes "config_at (ds_conf env) conf" "healthy env" "\<not> complete_conf conf"
  shows "kudosd_start env config_start = Inr (Inl
    (if map_of (flat_conf conf) (''Executer'', ''redirect_stderr'') = None then 12
     else if \<exists>k \<in> set queue_keys. map_of (flat_conf conf) (''Queue'', k) = None then -100
     else -556))"
proof -
  let ?cs = "conf_state conf"
  have redirect: "jug_get_config (ds_conf env) ''Executer'' ''redirect_stderr'' config_start =
      Inr (map_of (flat_conf conf) (''Executer'', ''redirect_stderr''), ?cs)"
    using get_config_reads [OF assms(1)] by simp
  obtain info where info: "start_ramfs env = Inr (Inr info)"
    using start_ramfs_healthy [OF assms(2)] assms(1) by (auto simp: config_at_def)
  have mem: "ample (ds_mem env)" and threads: "\<forall>i. ds_threads env i" using assms(2) by (simp_all add: healthy_def)
  show ?thesis
  proof (cases "map_of (flat_conf conf) (''Executer'', ''redirect_stderr'')")
    case None
    then show ?thesis using redirect by (simp add: kudosd_start_def)
  next
    case (Some r)
    show ?thesis
    proof (cases "\<exists>k \<in> set queue_keys. map_of (flat_conf conf) (''Queue'', k) = None")
      case True
      then have "queue_start (ds_conf env) (ds_mem env) (ds_threads env) ?cs = Inr (-1, None, [], ?cs)"
        using queue_start_missing [OF assms(1) mem] by blast
      then show ?thesis using Some True redirect info by (simp add: kudosd_start_def)
    next
      case False
      then obtain k where "k \<in> set (runner_keys @ sandbox_keys)" "map_of (flat_conf conf) (''Executer'', k) = None"
        using assms(3) Some by (auto simp: complete_conf_def)
      then have "jug_runner_start (ds_conf env) t w n ?cs = Inr (Inl (-1), ?cs)" for t w n
        using runner_start_missing [OF assms(1)] by simp
      moreover obtain q ws where "queue_start (ds_conf env) (ds_mem env) (ds_threads env) ?cs = Inr (0, Some q, ws, ?cs)"
        using False that [OF queue_start_reads [OF assms(1) _ mem threads refl]] by simp
      ultimately show ?thesis using Some False redirect info by (simp add: kudosd_start_def)
    qed
  qed
qed

theorem incomplete_configuration_refused_witness:
  "kudosd_start (sample_start\<lparr>ds_conf := (ds_conf sample_start)\<lparr>file_at := (\<lambda>f. if f = ''/opt/kudosJudge/etc/config.ini''
      then Some (print_ini [(''Executer'', [(''redirect_stderr'', ''1'')]), (''Queue'', [(''queue_size_limit'', ''120'')])])
      else None)\<rparr>\<rparr>) config_start = Inr (Inl (-100))"
  (is "kudosd_start ?e config_start = _")
proof -
  let ?c = "[(''Executer'', [(''redirect_stderr'', ''1'')]), (''Queue'', [(''queue_size_limit'', ''120'')])]"
  have "config_at (ds_conf ?e) ?c"
    by (rule config_at_print [of _ "''/opt/kudosJudge''"])
      (simp_all add: sample_start_def granting_def conf_ok_def key_ok_def tidy_def one_line_def ini_blank_def)
  moreover have "healthy ?e" using sample_start_healthy by (simp add: healthy_def)
  moreover have "\<not> complete_conf ?c" by (simp add: complete_conf_def flat_conf_def queue_keys_def)
  ultimately show ?thesis
    using incomplete_configuration_refused [of ?e ?c] by (simp add: flat_conf_def queue_keys_def)
qed

lemma sample_daemon:
  obtains d where "kudosd_start sample_start config_start = Inr (Inr d)" "g_num_worker_threads (d_queue d) = 5"
    "d_template_pid d = 78" "d_pidfile d = dec_int 77 @ [NUL]"
proof -
  obtain d where d: "kudosd_start sample_start config_start = Inr (Inr d)" "g_num_worker_threads (d_queue d) = 5"
    using start_decides(2) [OF sample_starts refl] sample_conf_workers by auto
  then show thesis
    using kudosd_start_ok(2,3) [OF d(1)] that
    by (auto simp: sample_start_def write_pid_def split: if_splits)
qed

text \<open>C21: A daemon that has started, whatever its configuration and whatever calls failed on the way, has its feed files
  and its languages in the memory file system, at most 24 workers, all of them running, and tables of
  languages of the declared shape: nineteen entries whose arrays have their sizes and whose names are
  terminated. Processing submissions, any number of them for any workers, keeps all of it.\<close>

theorem started_daemon_well_typed:
  assumes "kudosd_start env st = Inr (Inr d)" "lang_runs (d_langs d) langs"
  shows "lang_state_wf langs \<and> g_languages langs = g_languages (d_langs d) \<and>
    g_lang_workspace langs = Some (ramfs_path (d_ramfs d) @ ''/lang-workspace'') \<and>
    d_feed_workspace d = ramfs_path (d_ramfs d) @ ''/feed-workspace'' \<and>
    g_num_worker_threads (d_queue d) \<le> THREADS_MAX \<and> d_workers d = [0..<nat (g_num_worker_threads (d_queue d))]"
proof -
  have ok: "kjd_ok d" using kudosd_start_ok(1) [OF assms(1)] .
  then have "lang_state_wf (d_langs d)" by (simp add: kjd_ok_def)
  then show ?thesis using lang_runs_wf [OF assms(2)] ok by (simp add: kjd_ok_def THREADS_MAX_def)
qed

theorem started_daemon_well_typed_witness:
  "\<exists>d. kudosd_start sample_start config_start = Inr (Inr d) \<and> lang_state_wf (d_langs d)"
proof -
  obtain d where "kudosd_start sample_start config_start = Inr (Inr d)" using sample_daemon by blast
  then show ?thesis using started_daemon_well_typed [OF _ lang_runs_start] by blast
qed

text \<open>C37: The file with the process id: after a start, reading it back, in a frame where \<open>tmppid_str\<close> has room for the
  terminator, gives the process id, and \<open>start\<close> then refuses to start a second daemon as long as \<open>/proc\<close> has the
  first.\<close>

theorem pid_file_round_trip:
  assumes "kudosd_start env st = Inr (Inr d)" "0 \<le> ds_pid env" "ds_pid env < 2 ^ 31"
    and "pf_stat pe = Found" "pf_bytes pe = Some (d_pidfile d)" "10 < length (pf_stack pe)" "pf_proc pe (ds_pid env) = Found"
  shows "gather_state pe = Inr (Inr \<lparr>tmpfile_exists = True, daemon_pid = Some (ds_pid env), daemon_running = True\<rparr>) \<and>
    kudosd_action DAEMON_ACTION_START ce \<lparr>tmpfile_exists = True, daemon_pid = Some (ds_pid env), daemon_running = True\<rparr> =
      Some ([Print (''the daemon is already running : pid='' @ dec_int (ds_pid env) @ [LF])], Some 0)"
  using check_written_pid [OF assms(6,2,3) kudosd_start_ok(3) [OF assms(1)]] assms
  by (simp add: gather_state_def kudosd_action_def pid_of_def)

theorem pid_file_round_trip_witness:
  "\<exists>d. kudosd_start sample_start config_start = Inr (Inr d) \<and>
    gather_state \<lparr>pf_stat = Found, pf_bytes = Some (d_pidfile d), pf_stack = replicate 16 NUL, pf_proc = (\<lambda>_. Found)\<rparr> =
      Inr (Inr \<lparr>tmpfile_exists = True, daemon_pid = Some 77, daemon_running = True\<rparr>)"
proof -
  obtain d where d: "kudosd_start sample_start config_start = Inr (Inr d)" using sample_daemon by blast
  moreover have "ds_pid sample_start = 77" by (simp add: sample_start_def)
  ultimately show ?thesis
    using pid_file_round_trip [OF d, of "\<lparr>pf_stat = Found, pf_bytes = Some (d_pidfile d), pf_stack = replicate 16 NUL,
      pf_proc = (\<lambda>_. Found)\<rparr>"] by auto
qed

text \<open>By its declaration \<open>tmppid_str\<close> has ten bytes, and the terminator is written at index 10: as soon as the file
  exists and can be opened, every action, \<open>state\<close> included, writes outside the array, whatever the file
  holds.\<close>

theorem pid_buffer_overrun:
  assumes "kudosd_arguments (me_argv env) = Inr (Inr act)" "me_setenv env"
    and "pf_stat (me_pidfile env) = Found" "pf_bytes (me_pidfile env) = Some bytes" "length (pf_stack (me_pidfile env)) = 10"
  shows "kudosd_main env = Inl Buffer_overflow"
  using assms by (simp add: kudosd_main_def gather_state_def check_pid_def read_pid_def Let_def)

definition sample_main :: main_env where
  "sample_main = \<lparr>me_setenv = True, me_argv = [''kudosd'', ''restart''],
     me_pidfile = \<lparr>pf_stat = Found, pf_bytes = Some (dec_int 50 @ [NUL]), pf_stack = replicate 10 NUL, pf_proc = (\<lambda>_. Missing)\<rparr>,
     me_control = \<lparr>ce_euid = 0, ce_unlink = True, ce_kill = True, ce_polls = []\<rparr>,
     me_fork = \<lparr>fork1 = 60, setsid_ok = True, fork2 = 0\<rparr>,
     me_parent = \<lparr>pe_polls = [(0, True), (0, True)], pe_open = True, pe_reads = [dec_int 50 @ [NUL]],
       pe_stack = replicate 16 NUL, pe_proc = (\<lambda>_. Missing)\<rparr>,
     me_start = sample_start, me_client = 0, me_accepts = []\<rparr>"

theorem pid_buffer_overrun_witness: "kudosd_main sample_main = Inl Buffer_overflow"
  by (rule pid_buffer_overrun [where act = DAEMON_ACTION_RESTART and bytes = "dec_int 50 @ [NUL]"])
    (simp_all add: sample_main_def kudosd_arguments_def)

text \<open>\<open>restart\<close> with a file that was left behind by a daemon that no longer runs: unlike \<open>start\<close>, it does not remove the
  file. The starting process finds it at once, reads the old process id, and reports
  a failure with exit code 0 while the new daemon is still starting.\<close>

theorem restart_trusts_stale_file:
  assumes "kudosd_arguments (me_argv env) = Inr (Inr DAEMON_ACTION_RESTART)" "me_setenv env" "fork1 (me_fork env) > 0"
    and "pf_stat (me_pidfile env) = Found" "pf_bytes (me_pidfile env) = Some (dec_int old @ [NUL])"
    and "10 < length (pf_stack (me_pidfile env))" "pf_proc (me_pidfile env) old = Missing" "0 \<le> old" "old < 2 ^ 31"
    and "pe_polls (me_parent env) = (t, True) # (t', True) # polls" "pe_open (me_parent env)"
    and "pe_reads (me_parent env) = (dec_int old @ [NUL]) # rs" "10 < length (pe_stack (me_parent env))"
    and "pe_proc (me_parent env) old = Missing"
  shows "\<exists>effs. kudosd_main env = Inr (Exit effs 0) \<and> Unlink_pidfile \<notin> set effs \<and>
    Print ([ESC] @ ''[0;31m Failed to start the daemon'' @ [ESC] @ ''[0m '' @ [LF]) \<in> set effs"
proof -
  have bytes: "write_pid (replicate (length (dec_int old) + 1) NUL) old = Inr (dec_int old @ [NUL])"
    by (simp add: write_pid_def)
  have "gather_state (me_pidfile env) =
      Inr (Inr \<lparr>tmpfile_exists = True, daemon_pid = Some old, daemon_running = False\<rparr>)"
    using check_written_pid [OF assms(6,8,9) bytes] assms(4,5,7) by (simp add: gather_state_def)
  moreover have "check_pid (pe_stack (me_parent env)) (pe_proc (me_parent env)) (dec_int old @ [NUL]) = Inr (Inr (old, False))"
    using check_written_pid [OF assms(13,8,9) bytes] assms(14) by simp
  ultimately show ?thesis
    using assms(1-3,10-12)
    by (simp add: kudosd_main_def kudosd_action_def kjd_daemonize_def kudosd_parent_def root_hint_def Let_def)
qed

theorem restart_trusts_stale_file_witness:
  "\<exists>effs. kudosd_main (sample_main\<lparr>me_pidfile := (me_pidfile sample_main)\<lparr>pf_stack := replicate 16 NUL\<rparr>\<rparr>) =
     Inr (Exit effs 0) \<and> Unlink_pidfile \<notin> set effs"
  using restart_trusts_stale_file [of "sample_main\<lparr>me_pidfile := (me_pidfile sample_main)\<lparr>pf_stack := replicate 16 NUL\<rparr>\<rparr>" 50]
  by (auto simp: sample_main_def kudosd_arguments_def)

text \<open>A \<open>fork\<close> that fails is not an error: the process goes on in the foreground exactly as the daemon would, without a
  session of its own and without the signal handlers, and serves.\<close>

theorem failed_fork_serves:
  assumes "fork1 (me_fork env) < 0"
  shows "kudosd_main env = kudosd_main (env\<lparr>me_fork := \<lparr>fork1 = 0, setsid_ok = True, fork2 = 0\<rparr>\<rparr>)"
  using assms by (simp add: kudosd_main_def kjd_daemonize_def kudosd_serve_def cong: sum.case_cong option.case_cong)

definition failing_fork :: main_env where
  "failing_fork = sample_main\<lparr>me_argv := [''kudosd'', ''start''], me_pidfile := (me_pidfile sample_main)\<lparr>pf_stat := Missing\<rparr>,
     me_fork := \<lparr>fork1 = -1, setsid_ok = True, fork2 = 0\<rparr>, me_accepts := [(5, 100), (6, 200)]\<rparr>"



text \<open>The connections that are accepted while no worker runs are in the queue in the order of their arrival, each
  with its own socket; but all of them point to one structure for the name of the peer, a variable of
  \<open>main\<close> that the next \<open>accept\<close> overwrites.\<close>

theorem accepted_connections_queued:
  assumes "\<forall>(s, a) \<in> set answers. 0 \<le> s" "distinct (map snd answers)"
  shows "\<exists>q. accept_loop client answers empty_queue = Inr (None, q) \<and>
    queue_holds q (map (\<lambda>(s, a). \<lparr>client_socket = s, client_sockaddr_in = client\<rparr>) answers)"
  using accept_loop_holds [OF empty_queue_holds, of answers client] assms
  by (auto simp: empty_queue_def split_beta)

theorem accepted_connections_queued_witness:
  "\<exists>q. accept_loop 9 [(5, 100), (6, 200)] empty_queue = Inr (None, q) \<and>
    queue_holds q [\<lparr>client_socket = 5, client_sockaddr_in = 9\<rparr>, \<lparr>client_socket = 6, client_sockaddr_in = 9\<rparr>]"
  using accepted_connections_queued [of "[(5, 100), (6, 200)]" 9] by simp

theorem failed_fork_serves_witness:
  "\<exists>d q. kudosd_main failing_fork = Inr (Serves [] d q) \<and>
    queue_holds q [\<lparr>client_socket = 5, client_sockaddr_in = 0\<rparr>, \<lparr>client_socket = 6, client_sockaddr_in = 0\<rparr>]"
proof -
  obtain d where "kudosd_start sample_start config_start = Inr (Inr d)" using sample_daemon by blast
  moreover obtain q where "accept_loop 0 [(5, 100), (6, 200)] empty_queue = Inr (None, q)"
      "queue_holds q [\<lparr>client_socket = 5, client_sockaddr_in = 0\<rparr>, \<lparr>client_socket = 6, client_sockaddr_in = 0\<rparr>]"
    using accept_loop_holds [OF empty_queue_holds, of "[(5, 100), (6, 200)]" 0] by (auto simp: empty_queue_def)
  ultimately have "\<exists>d q. kudosd_main (failing_fork\<lparr>me_fork := \<lparr>fork1 = 0, setsid_ok = True, fork2 = 0\<rparr>\<rparr>) = Inr (Serves [] d q) \<and>
      queue_holds q [\<lparr>client_socket = 5, client_sockaddr_in = 0\<rparr>, \<lparr>client_socket = 6, client_sockaddr_in = 0\<rparr>]"
    by (simp add: failing_fork_def sample_main_def kudosd_main_def kudosd_arguments_def gather_state_def
        kudosd_action_def kjd_daemonize_def kudosd_serve_def root_hint_def)
  then show ?thesis using failed_fork_serves [of failing_fork] by (simp add: failing_fork_def)
qed

end
