(* ===== verification/Serving.thy ===== *)
theory Serving
  imports Worker "HOL-Library.Multiset"
begin

text \<open>
  The daemon while it serves: the main thread that accepts connections, the queue, and the workers that take
  connections from it and serve them at the same time, on shared files and shared tables. A worker's service
  is cut into the calls \<open>queue_worker_serv\<close> makes; between two of them every other thread may run. The
  operations of the queue are single steps here (\<open>Conn_Queue\<close> has what goes wrong when they overlap).

  The locale \<open>handlers\<close> is the contract between the threads: what a handler owns of the shared state, that its
  steps keep it, and that they leave alone what the others own. From it follow, once and for all, that
  no interleaving loses a connection, answers one twice or stops before all are answered.
\<close>

section \<open>Threads\<close>

record ('c, 'j, 's, 'o) system =
  sq :: "'c jug_queue"
  jobs :: "nat \<Rightarrow> ('c \<times> 'j) option"
  shared :: 's
  arrived :: "'c list"
  answered :: "('c \<times> nat \<times> 'o) list"
  crashed :: bool

definition system_start :: "'s \<Rightarrow> ('c, 'j, 's, 'o) system" where
  "system_start st = \<lparr>sq = empty_queue, jobs = (\<lambda>_. None), shared = st, arrived = [], answered = [], crashed = False\<rparr>"

text \<open>A step of one of the \<open>n\<close> workers (\<open>queue_worker_main\<close>): \<open>work\<close> is a step of the handler of a connection, \<open>begin_job\<close>
  where it starts, \<open>outcome\<close> what it sends when it has come to its end. A fault takes the whole process down.\<close>

inductive worker_step ::
  "nat \<Rightarrow> ('c \<Rightarrow> nat \<Rightarrow> 'j \<Rightarrow> 's \<Rightarrow> ('j \<times> 's) option c_result) \<Rightarrow> ('j \<Rightarrow> 'o option) \<Rightarrow> 'j \<Rightarrow>
     ('c, 'j, 's, 'o) system \<Rightarrow> ('c, 'j, 's, 'o) system \<Rightarrow> bool"
  for n work outcome begin_job
where
  take_job: "\<not> crashed s \<Longrightarrow> w < n \<Longrightarrow> jobs s w = None \<Longrightarrow> worker_take (sq s) = Inr (Some (Some c, q)) \<Longrightarrow>
    worker_step n work outcome begin_job s (s\<lparr>sq := q, jobs := (jobs s)(w \<mapsto> (c, begin_job))\<rparr>)"
| take_nothing: "\<not> crashed s \<Longrightarrow> w < n \<Longrightarrow> jobs s w = None \<Longrightarrow> worker_take (sq s) = Inr (Some (None, q)) \<Longrightarrow>
    worker_step n work outcome begin_job s (s\<lparr>sq := q\<rparr>)"
| take_fault: "\<not> crashed s \<Longrightarrow> w < n \<Longrightarrow> jobs s w = None \<Longrightarrow> worker_take (sq s) = Inl e \<Longrightarrow>
    worker_step n work outcome begin_job s (s\<lparr>crashed := True\<rparr>)"
| work_job: "\<not> crashed s \<Longrightarrow> w < n \<Longrightarrow> jobs s w = Some (c, j) \<Longrightarrow> outcome j = None \<Longrightarrow>
    work c w j (shared s) = Inr (Some (j', st)) \<Longrightarrow>
    worker_step n work outcome begin_job s (s\<lparr>jobs := (jobs s)(w \<mapsto> (c, j')), shared := st\<rparr>)"
| work_fault: "\<not> crashed s \<Longrightarrow> w < n \<Longrightarrow> jobs s w = Some (c, j) \<Longrightarrow> outcome j = None \<Longrightarrow>
    work c w j (shared s) = Inl e \<Longrightarrow>
    worker_step n work outcome begin_job s (s\<lparr>crashed := True\<rparr>)"
| reply_job: "\<not> crashed s \<Longrightarrow> w < n \<Longrightarrow> jobs s w = Some (c, j) \<Longrightarrow> outcome j = Some out \<Longrightarrow>
    worker_step n work outcome begin_job s
      (s\<lparr>jobs := (jobs s)(w := None), answered := answered s @ [(c, w, out)]\<rparr>)"

text \<open>Or the main thread accepts a new connection and pushes it, at an address \<open>malloc\<close> has not given out.\<close>

inductive daemon_step ::
  "nat \<Rightarrow> ('c \<Rightarrow> nat \<Rightarrow> 'j \<Rightarrow> 's \<Rightarrow> ('j \<times> 's) option c_result) \<Rightarrow> ('j \<Rightarrow> 'o option) \<Rightarrow> 'j \<Rightarrow>
     ('c, 'j, 's, 'o) system \<Rightarrow> ('c, 'j, 's, 'o) system \<Rightarrow> bool"
  for n work outcome begin_job
where
  arrive: "\<not> crashed s \<Longrightarrow> heap (sq s) a = None \<Longrightarrow> c \<notin> set (arrived s) \<Longrightarrow>
    queue_push_connection a c (sq s) = Inr q \<Longrightarrow>
    daemon_step n work outcome begin_job s (s\<lparr>sq := q, arrived := arrived s @ [c]\<rparr>)"
| arrive_fault: "\<not> crashed s \<Longrightarrow> heap (sq s) a = None \<Longrightarrow> c \<notin> set (arrived s) \<Longrightarrow>
    queue_push_connection a c (sq s) = Inl e \<Longrightarrow>
    daemon_step n work outcome begin_job s (s\<lparr>crashed := True\<rparr>)"
| by_worker: "worker_step n work outcome begin_job s s' \<Longrightarrow> daemon_step n work outcome begin_job s s'"

inductive_cases worker_stepE: "worker_step n work outcome begin_job s s'"
inductive_cases daemon_stepE: "daemon_step n work outcome begin_job s s'"

inductive daemon_reach ::
  "nat \<Rightarrow> ('c \<Rightarrow> nat \<Rightarrow> 'j \<Rightarrow> 's \<Rightarrow> ('j \<times> 's) option c_result) \<Rightarrow> ('j \<Rightarrow> 'o option) \<Rightarrow> 'j \<Rightarrow> 's \<Rightarrow>
     ('c, 'j, 's, 'o) system \<Rightarrow> bool"
  for n work outcome begin_job st
where
  reach_start: "daemon_reach n work outcome begin_job st (system_start st)"
| reach_step: "daemon_reach n work outcome begin_job st s \<Longrightarrow> daemon_step n work outcome begin_job s s' \<Longrightarrow>
    daemon_reach n work outcome begin_job st s'"

section \<open>The contract\<close>

text \<open>The connections in service, and how many steps are left before everything has been answered, when a connection
  takes at most \<open>k\<close>.\<close>

definition in_service :: "nat \<Rightarrow> ('c, 'j, 's, 'o) system \<Rightarrow> 'c multiset" where
  "in_service n s = (\<Sum>w<n. case jobs s w of None \<Rightarrow> {#} | Some (c, j) \<Rightarrow> {#c#})"

definition steps_left :: "nat \<Rightarrow> ('j \<Rightarrow> nat) \<Rightarrow> nat \<Rightarrow> ('c, 'j, 's, 'o) system \<Rightarrow> nat" where
  "steps_left n togo k s = (\<Sum>w<n. case jobs s w of None \<Rightarrow> 0 | Some (c, j) \<Rightarrow> Suc (togo j)) +
     (k + 2) * work_semaphore (sq s)"

lemma sum_jobs_update:
  fixes f :: "('c \<times> 'j) option \<Rightarrow> 'm :: comm_monoid_add"
  assumes "w < (n :: nat)"
  shows "(\<Sum>v<n. f ((g(w := x)) v)) + f (g w) = (\<Sum>v<n. f (g v)) + f x"
proof -
  have "(\<Sum>v<n. f (h v)) = f (h w) + (\<Sum>v\<in>{..<n} - {w}. f (h v))" for h
    using assms by (simp add: sum.remove)
  moreover have "(\<Sum>v\<in>{..<n} - {w}. f ((g(w := x)) v)) = (\<Sum>v\<in>{..<n} - {w}. f (g v))"
    by (rule sum.cong) simp_all
  ultimately show ?thesis by (simp add: ac_simps)
qed

lemma in_service_update:
  assumes "w < n" "jobs s' = (jobs s)(w := x)"
  shows "in_service n s' + (case jobs s w of None \<Rightarrow> {#} | Some (c, j) \<Rightarrow> {#c#}) =
    in_service n s + (case x of None \<Rightarrow> {#} | Some (c, j) \<Rightarrow> {#c#})"
  using sum_jobs_update [OF assms(1), of "\<lambda>y. case y of None \<Rightarrow> {#} | Some (c, j) \<Rightarrow> {#c#}" "jobs s" x]
  by (simp add: in_service_def assms(2))

lemma steps_left_update:
  assumes "w < n" "jobs s' = (jobs s)(w := x)" "work_semaphore (sq s) = work_semaphore (sq s') + d"
  shows "steps_left n togo k s' + (case jobs s w of None \<Rightarrow> 0 | Some (c, j) \<Rightarrow> Suc (togo j)) + (k + 2) * d =
    steps_left n togo k s + (case x of None \<Rightarrow> 0 | Some (c, j) \<Rightarrow> Suc (togo j))"
  using sum_jobs_update [OF assms(1), of "\<lambda>y. case y of None \<Rightarrow> 0 | Some (c, j) \<Rightarrow> Suc (togo j)" "jobs s" x]
  by (simp add: steps_left_def assms(2,3) algebra_simps)

lemma distinct_part:
  assumes "mset xs = M + mset ys" "distinct xs"
  shows "distinct ys"
proof -
  obtain zs where "mset zs = M" using ex_mset by blast
  then have "mset xs = mset (zs @ ys)" using assms(1) by simp
  then show ?thesis using mset_eq_imp_distinct_iff assms(2) by fastforce
qed

locale handlers =
  fixes n :: nat
    and work :: "'c \<Rightarrow> nat \<Rightarrow> 'j \<Rightarrow> 's \<Rightarrow> ('j \<times> 's) option c_result"
    and outcome :: "'j \<Rightarrow> 'o option"
    and begin_job :: 'j
    and good :: "'c \<Rightarrow> bool"                            \<comment> \<open>connections the contract speaks of\<close>
    and fine :: "'s \<Rightarrow> bool"                            \<comment> \<open>what every thread keeps of the shared state\<close>
    and owns :: "'c \<Rightarrow> nat \<Rightarrow> 'j \<Rightarrow> 's \<Rightarrow> bool"             \<comment> \<open>what holds of a handler's own part of it\<close>
    and togo :: "'j \<Rightarrow> nat"
  assumes begin_law: "good c \<Longrightarrow> w < n \<Longrightarrow> fine st \<Longrightarrow> owns c w begin_job st"
    and work_law: "good c \<Longrightarrow> w < n \<Longrightarrow> fine st \<Longrightarrow> owns c w j st \<Longrightarrow> outcome j = None \<Longrightarrow>
      \<exists>j' st'. work c w j st = Inr (Some (j', st')) \<and> fine st' \<and> owns c w j' st' \<and> togo j' < togo j"
    and frame_law: "good c \<Longrightarrow> w < n \<Longrightarrow> fine st \<Longrightarrow> owns c w j st \<Longrightarrow> work c w j st = Inr (Some (j', st')) \<Longrightarrow>
      w' \<noteq> w \<Longrightarrow> w' < n \<Longrightarrow> good c' \<Longrightarrow> owns c' w' i st \<Longrightarrow> owns c' w' i st'"
begin

definition keeps :: "('c, 'j, 's, 'o) system \<Rightarrow> bool" where
  "keeps s \<longleftrightarrow> \<not> crashed s \<and> fine (shared s) \<and>
     (\<forall>w c j. jobs s w = Some (c, j) \<longrightarrow> w < n \<and> good c \<and> owns c w j (shared s)) \<and>
     (\<forall>(c, w, out) \<in> set (answered s). w < n \<and> (\<exists>j st. good c \<and> fine st \<and> owns c w j st \<and> outcome j = Some out)) \<and>
     (\<exists>waiting. queue_holds (sq s) waiting \<and> (\<forall>c \<in> set waiting. good c) \<and>
        mset (arrived s) = mset waiting + in_service n s + mset (map fst (answered s))) \<and> distinct (arrived s)"

lemma keeps_start: "fine st \<Longrightarrow> keeps (system_start st)"
  using empty_queue_holds by (auto simp: keeps_def system_start_def in_service_def intro!: exI [of _ "[]"])

lemma keeps_push:
  assumes "keeps s" "good c" "heap (sq s) a = None" "c \<notin> set (arrived s)"
  obtains q where "queue_push_connection a c (sq s) = Inr q" "keeps (s\<lparr>sq := q, arrived := arrived s @ [c]\<rparr>)"
proof -
  obtain ws where ws: "queue_holds (sq s) ws" "\<forall>c \<in> set ws. good c"
      "mset (arrived s) = mset ws + in_service n s + mset (map fst (answered s))"
    using assms(1) by (auto simp: keeps_def)
  obtain q where q: "queue_push_connection a c (sq s) = Inr q" "queue_holds q (ws @ [c])"
    using push_conn_at [OF ws(1) assms(3)] by blast
  have "in_service n (s\<lparr>sq := q, arrived := arrived s @ [c]\<rparr>) = in_service n s" by (simp add: in_service_def)
  then have "keeps (s\<lparr>sq := q, arrived := arrived s @ [c]\<rparr>)"
    using assms q(2) ws(2,3) unfolding keeps_def by (auto intro!: exI [of _ "ws @ [c]"])
  with q(1) show thesis by (rule that)
qed

lemma keeps_queue:
  assumes "keeps s"
  obtains "work_semaphore (sq s) = 0" "worker_take (sq s) = Inr None" "queue_holds (sq s) []"
  | c q where "worker_take (sq s) = Inr (Some (Some c, q))" "work_semaphore (sq s) = Suc (work_semaphore q)" "good c"
    "\<And>w. w < n \<Longrightarrow> jobs s w = None \<Longrightarrow> keeps (s\<lparr>sq := q, jobs := (jobs s)(w \<mapsto> (c, begin_job))\<rparr>)"
proof -
  obtain ws where ws: "queue_holds (sq s) ws" "\<forall>c \<in> set ws. good c"
      "mset (arrived s) = mset ws + in_service n s + mset (map fst (answered s))"
    using assms by (auto simp: keeps_def)
  show thesis
  proof (cases ws)
    case Nil
    then have "work_semaphore (sq s) = 0" using ws(1) by (simp add: queue_holds_def)
    then show thesis using that(1) ws(1) Nil by (simp add: worker_take_def)
  next
    case (Cons c cs)
    obtain q where q: "worker_take (sq s) = Inr (Some (Some c, q))" "queue_holds q cs"
      using take_conn_step [of "sq s" c cs] ws(1) Cons by blast
    have sem: "work_semaphore (sq s) = Suc (work_semaphore q)" using ws(1) q(2) Cons by (simp add: queue_holds_def)
    have "keeps (s\<lparr>sq := q, jobs := (jobs s)(w \<mapsto> (c, begin_job))\<rparr>)" if "w < n" "jobs s w = None" for w
    proof -
      let ?s = "s\<lparr>sq := q, jobs := (jobs s)(w \<mapsto> (c, begin_job))\<rparr>"
      have "in_service n ?s = in_service n s + {#c#}"
        using in_service_update [OF that(1), of ?s s "Some (c, begin_job)"] that(2) by simp
      then show ?thesis
        using assms that q(2) ws(2,3) Cons begin_law unfolding keeps_def
        by (auto intro!: exI [of _ cs])
    qed
    then show thesis using that(2) q(1) sem ws(2) Cons by auto
  qed
qed

lemma keeps_work:
  assumes "keeps s" "jobs s w = Some (c, j)" "outcome j = None"
  obtains j' st' where "work c w j (shared s) = Inr (Some (j', st'))" "togo j' < togo j"
    "keeps (s\<lparr>jobs := (jobs s)(w \<mapsto> (c, j')), shared := st'\<rparr>)"
proof -
  have own: "w < n" "good c" "fine (shared s)" "owns c w j (shared s)" using assms(1,2) by (auto simp: keeps_def)
  obtain j' st' where j': "work c w j (shared s) = Inr (Some (j', st'))" "fine st'" "owns c w j' st'" "togo j' < togo j"
    using work_law [OF own(2,1,3,4) assms(3)] by blast
  let ?s = "s\<lparr>jobs := (jobs s)(w \<mapsto> (c, j')), shared := st'\<rparr>"
  have "in_service n ?s = in_service n s"
    using in_service_update [OF own(1), of ?s s "Some (c, j')"] assms(2) by simp
  moreover have "owns c' v i st'" if "jobs s v = Some (c', i)" "v \<noteq> w" for v c' i
    using frame_law [OF own(2,1,3,4) j'(1) that(2)] that(1) assms(1) by (auto simp: keeps_def)
  ultimately have "keeps ?s" using assms(1) own j'(2,3) unfolding keeps_def by auto
  then show thesis using that j'(1,4) by blast
qed

lemma keeps_reply:
  assumes "keeps s" "jobs s w = Some (c, j)" "outcome j = Some out"
  shows "keeps (s\<lparr>jobs := (jobs s)(w := None), answered := answered s @ [(c, w, out)]\<rparr>)"
proof -
  let ?s = "s\<lparr>jobs := (jobs s)(w := None), answered := answered s @ [(c, w, out)]\<rparr>"
  have own: "w < n" "good c" "fine (shared s)" "owns c w j (shared s)" using assms(1,2) by (auto simp: keeps_def)
  have "in_service n ?s + {#c#} = in_service n s"
    using in_service_update [OF own(1), of ?s s None] assms(2) by simp
  then have eq: "in_service n s = add_mset c (in_service n ?s)" by simp
  have "\<exists>i st. fine st \<and> owns c w i st \<and> outcome i = Some out" using own assms(3) by blast
  then show ?thesis
    using assms own(1,2) unfolding keeps_def by (auto simp: eq)
qed

text \<open>A step of a worker keeps everything, and there is less to do.\<close>

lemma keeps_worker:
  assumes "worker_step n work outcome begin_job s s'" "keeps s"
  shows "keeps s' \<and> arrived s' = arrived s \<and>
    steps_left n togo (togo begin_job) s' < steps_left n togo (togo begin_job) s"
  using assms(1)
proof cases
  case (take_job w c q)
  then have "keeps s'" "work_semaphore (sq s) = work_semaphore (sq s') + 1"
    using keeps_queue [OF assms(2)] by auto
  then show ?thesis
    using steps_left_update [of w n s' s "Some (c, begin_job)" 1 togo "togo begin_job"] take_job by simp
next
  case (work_job w c j j' st)
  obtain "togo j' < togo j" "keeps s'" using keeps_work [OF assms(2) work_job(4,5)] work_job(1,6) by auto
  then show ?thesis
    using steps_left_update [of w n s' s "Some (c, j')" 0 togo "togo begin_job"] work_job by simp
next
  case (reply_job w c j out)
  then show ?thesis
    using keeps_reply [OF assms(2) reply_job(4,5)] steps_left_update [of w n s' s None 0 togo "togo begin_job"] by simp
next
  case (work_fault w c j e)
  then show ?thesis using keeps_work [OF assms(2) work_fault(4,5)] by auto
qed (use keeps_queue [OF assms(2)] in auto)

text \<open>Whatever the threads do, in whatever order.\<close>

lemma reach_keeps:
  "daemon_reach n work outcome begin_job st s \<Longrightarrow> fine st \<Longrightarrow> \<forall>c \<in> set (arrived s). good c \<Longrightarrow> keeps s"
proof (induction rule: daemon_reach.induct)
  case reach_start
  then show ?case by (simp add: keeps_start)
next
  case (reach_step s s')
  have sub: "set (arrived s) \<subseteq> set (arrived s')"
    using reach_step.hyps(2) by (auto elim!: daemon_stepE worker_stepE)
  then have "keeps s" using reach_step.IH reach_step.prems by blast
  with reach_step.hyps(2) show ?case
  proof cases
    case (arrive a c q)
    then show ?thesis using keeps_push [OF \<open>keeps s\<close> _ arrive(3,4)] reach_step.prems(2) by auto
  next
    case (arrive_fault a c e)
    obtain ws where "queue_holds (sq s) ws" using \<open>keeps s\<close> by (auto simp: keeps_def)
    then show ?thesis using push_conn_at [of "sq s" ws a c] arrive_fault(3,5) by auto
  next
    case by_worker
    then show ?thesis using keeps_worker \<open>keeps s\<close> by blast
  qed
qed

text \<open>Nothing is answered twice, and every answer is the outcome of a handler that kept the contract.\<close>

lemma keeps_answered:
  assumes "keeps s"
  shows "distinct (map fst (answered s))"
    "(c, w, out) \<in> set (answered s) \<Longrightarrow>
       c \<in> set (arrived s) \<and> w < n \<and> good c \<and> (\<exists>j st. fine st \<and> owns c w j st \<and> outcome j = Some out)"
proof -
  obtain ws where conn: "mset (arrived s) = mset ws + in_service n s + mset (map fst (answered s))" "distinct (arrived s)"
    using assms by (auto simp: keeps_def)
  then show "distinct (map fst (answered s))" using distinct_part by metis
  assume *: "(c, w, out) \<in> set (answered s)"
  then have "c \<in># mset (map fst (answered s))" by force
  then have "c \<in># mset (arrived s)" unfolding conn(1) by simp
  moreover have "w < n \<and> (\<exists>j st. good c \<and> fine st \<and> owns c w j st \<and> outcome j = Some out)"
    using assms * unfolding keeps_def by blast
  ultimately show "c \<in> set (arrived s) \<and> w < n \<and> good c \<and> (\<exists>j st. fine st \<and> owns c w j st \<and> outcome j = Some out)"
    by auto
qed

lemma idle_jobs:
  assumes "\<forall>w<n. jobs s w = None"
  shows "in_service n s = {#}"
  using assms by (simp add: in_service_def)

text \<open>A system in which no worker can do anything has answered everything.\<close>

lemma stuck_answered:
  assumes "keeps s" "0 < n" "\<nexists>s'. worker_step n work outcome begin_job s s'"
  shows "mset (map fst (answered s)) = mset (arrived s)"
proof -
  have alive: "\<not> crashed s" using assms(1) by (simp add: keeps_def)
  have none: "jobs s w = None" if "w < n" for w
  proof (rule ccontr)
    assume "jobs s w \<noteq> None"
    then obtain c j where j: "jobs s w = Some (c, j)" by auto
    then show False
      using assms(3) keeps_work [OF assms(1) j] worker_step.work_job [OF alive that j]
        worker_step.reply_job [OF alive that j] by (cases "outcome j") metis+
  qed
  then have "queue_holds (sq s) []"
    using keeps_queue [OF assms(1)] worker_step.take_job [OF alive assms(2)] assms(2,3) by metis
  moreover obtain ws where "queue_holds (sq s) ws"
      "mset (arrived s) = mset ws + in_service n s + mset (map fst (answered s))"
    using assms(1) by (auto simp: keeps_def)
  ultimately show ?thesis using idle_jobs none by (auto simp: queue_holds_def)
qed

text \<open>Left to themselves the workers answer everything, after a number of steps that is known in advance.\<close>

lemma workers_bounded:
  "(worker_step n work outcome begin_job ^^ k) s s' \<Longrightarrow> keeps s \<Longrightarrow>
     keeps s' \<and> arrived s' = arrived s \<and>
     steps_left n togo (togo begin_job) s' + k \<le> steps_left n togo (togo begin_job) s"
proof (induction k arbitrary: s')
  case (Suc k)
  then obtain t where t: "(worker_step n work outcome begin_job ^^ k) s t" "worker_step n work outcome begin_job t s'"
    by auto
  then show ?case using Suc.IH [OF t(1) Suc.prems(2)] keeps_worker [OF t(2)] by force
qed simp

lemma workers_drain:
  "keeps s \<Longrightarrow> 0 < n \<Longrightarrow>
     \<exists>s'. (worker_step n work outcome begin_job)\<^sup>*\<^sup>* s s' \<and> keeps s' \<and> mset (map fst (answered s')) = mset (arrived s)"
proof (induction "steps_left n togo (togo begin_job) s" arbitrary: s rule: less_induct)
  case less
  show ?case
  proof (cases "\<exists>t. worker_step n work outcome begin_job s t")
    case True
    then obtain t where t: "worker_step n work outcome begin_job s t" ..
    then have "keeps t" "arrived t = arrived s"
        "steps_left n togo (togo begin_job) t < steps_left n togo (togo begin_job) s"
      using keeps_worker less.prems(1) by blast+
    then show ?thesis using less.hyps [of t] less.prems(2) t by (metis converse_rtranclp_into_rtranclp)
  next
    case False
    then show ?thesis using stuck_answered [OF less.prems] less.prems(1) by blast
  qed
qed

end

section \<open>The handler of a connection in steps\<close>

text \<open>Where a worker is in \<open>queue_worker_serv\<close>, with the local variables it still needs.\<close>

datatype job =
    J_begin
  | J_input int_request
  | J_output int_request "string option option"
  | J_compile int_request "string option option" "string option option"
  | J_run string "string option option" "string option option"
  | J_clean string "string option option" "string option option" jug_verdict_enum
  | J_done serv_out

fun job_step :: "serv_env \<Rightarrow> int \<Rightarrow> job \<Rightarrow> serv_state \<Rightarrow> (job \<times> serv_state) option c_result" where
  "job_step env worker_id J_begin st =
     c_then (jug_int_receive (sv_mem env) (sv_sockopt env) (sv_int st) (sv_sock env)) (\<lambda>(buf, rest, g).
       let st1 = st\<lparr>sv_int := g\<rparr> in
       case buf of
         None \<Rightarrow> Inr (Some (J_done (answer_with env VERDICT_INTERNAL False), st1))
       | Some req_buffer \<Rightarrow> c_then (jug_int_decode (sv_mem env) req_buffer blank_request) (\<lambda>(error, req).
           if error \<noteq> 0 then Inr (Some (J_done (answer_with env VERDICT_ACCEPTED False), st1))
           else if req_type req = Some INT_REQ_TYPE_JUDGE then Inr (Some (J_input req, st1))
           else Inr (Some (J_done \<lparr>reply = [], reply_closed = False\<rparr>, st1))))"
| "job_step env worker_id (J_input req) st =
     c_then (feed_for env (sv_feed_in env) (in_type req) (req_input req) worker_id ''input'' (sv_files st)) (\<lambda>(nin, fs).
       Inr (Some (J_output req nin, st\<lparr>sv_files := fs\<rparr>)))"
| "job_step env worker_id (J_output req nin) st =
     c_then (feed_for env (sv_feed_out env) (out_type req) (req_output req) worker_id ''output'' (sv_files st)) (\<lambda>(nout, fs).
       Inr (Some (J_compile req nin nout, st\<lparr>sv_files := fs\<rparr>)))"
| "job_step env worker_id (J_compile req nin nout) st = (case sourcecode req of
       None \<Rightarrow> Inl Uninitialised
     | Some src \<Rightarrow>
         if \<not> can_alloc (sv_mem env) (length src + 2) then Inl Null_deref
         else c_then (lang_process (sv_mem env) (sv_lang env) (sv_ramfs env) ''c'' src worker_id (sv_langs st)
             blank_bin (sv_files st)) (\<lambda>(error, langs, bin, fs).
           let st1 = st\<lparr>sv_langs := langs, sv_files := fs\<rparr> in
           if error \<noteq> 0 then
             c_then (lang_free_BinaryInformation bin) (\<lambda>_. c_then (jug_int_free_request req) (\<lambda>_.
               Inr (Some (J_done (answer_with env (if error = -3 then VERDICT_COMPILE_ERROR else VERDICT_INTERNAL) True),
                 st1))))
           else case bi_path bin of
             None \<Rightarrow> Inl Uninitialised
           | Some path \<Rightarrow>
               if \<not> can_alloc (sv_mem env) 400 \<or> \<not> can_alloc (sv_mem env) 500 then Inl Null_deref
               else c_then (lang_free_BinaryInformation bin) (\<lambda>_. c_then (jug_int_free_request req) (\<lambda>_.
                 Inr (Some (J_run path nin nout, st1))))))"
| "job_step env worker_id (J_run path nin nout) st =
     c_then (serv_run env worker_id path nin nout (sv_files st)) (\<lambda>v. case v of
         None \<Rightarrow> Inr None
       | Some verdict \<Rightarrow> Inr (Some (J_clean path nin nout verdict, st)))"
| "job_step env worker_id (J_clean path nin nout verdict) st =
     Inr (Some (J_done (answer_with env verdict True),
       st\<lparr>sv_files := remove_feed nout (remove_feed nin (lang_remove_binary path (sv_files st)))\<rparr>))"
| "job_step env worker_id (J_done out) st = Inr None"

fun job_outcome :: "job \<Rightarrow> serv_out option" where
  "job_outcome (J_done out) = Some out"
| "job_outcome _ = None"

lemma job_outcome_iff: "job_outcome j = Some out \<longleftrightarrow> j = J_done out"
  by (cases j) simp_all

fun job_togo :: "job \<Rightarrow> nat" where
  "job_togo J_begin = 6"
| "job_togo (J_input _) = 5"
| "job_togo (J_output _ _) = 4"
| "job_togo (J_compile _ _ _) = 3"
| "job_togo (J_run _ _ _) = 2"
| "job_togo (J_clean _ _ _ _) = 1"
| "job_togo (J_done _) = 0"

text \<open>A worker that is alone, for at most \<open>k\<close> steps.\<close>

fun solo :: "nat \<Rightarrow> serv_env \<Rightarrow> int \<Rightarrow> job \<Rightarrow> serv_state \<Rightarrow> (serv_out \<times> serv_state) option c_result" where
  "solo k env w (J_done out) st = Inr (Some (out, st))"
| "solo 0 env w j st = Inr None"
| "solo (Suc k) env w j st = c_then (job_step env w j st) (\<lambda>r. case r of
     None \<Rightarrow> Inr None | Some (j', st') \<Rightarrow> solo k env w j' st')"

lemma solo_run:
  "solo 2 env w (J_run path nin nout) st = c_then (serv_run env w path nin nout (sv_files st)) (\<lambda>v. case v of
     None \<Rightarrow> Inr None
   | Some verdict \<Rightarrow> Inr (Some (answer_with env verdict True,
       st\<lparr>sv_files := remove_feed nout (remove_feed nin (lang_remove_binary path (sv_files st)))\<rparr>)))"
  by (cases "serv_run env w path nin nout (sv_files st)") (auto simp: numeral_2_eq_2 split: option.split)

lemma solo_judging: "solo 5 env w (J_input req) st = serv_judging env w req st"
proof -
  have "solo (Suc (Suc (Suc k))) env w (J_input req) st = serv_judging env w req st"
    if "\<And>path nin nout st. solo k env w (J_run path nin nout) st = solo 2 env w (J_run path nin nout) st" for k
    using that by (simp add: serv_judging_def c_then_def Let_def solo_run split: sum.split option.split prod.split)
  from this [of 2] show ?thesis by simp
qed

text \<open>The steps put together again are the whole handler.\<close>

lemma solo_serv: "solo 6 env w J_begin st = queue_worker_serv env w st"
proof -
  have "solo (Suc k) env w J_begin st = queue_worker_serv env w st"
    if "\<And>req st. solo k env w (J_input req) st = serv_judging env w req st" for k
    using that by (simp add: queue_worker_serv_def c_then_def Let_def split: sum.split option.split prod.split)
  from this [of 5] solo_judging show ?thesis by simp
qed

section \<open>The handlers keep the contract\<close>

text \<open>What a client sends, whether its source compiles, the program the compiler makes of it for a worker and what this
  program prints on the input.\<close>

record client_data =
  sub_input :: string
  sub_output :: string
  sub_source :: string
  sub_compiles :: bool
  sub_program :: "int \<Rightarrow> string"
  sub_prints :: string

text \<open>The outside of a connection on which nothing fails: a request with inline data in any pieces, whose length is not
  a multiple of 1024; for each worker a command that fits its buffer and a compiler that writes its result only; and if
  there is a result, a run of it on the input that the watcher ends with \<open>JS_CORRECT\<close> and whose output has no
  carriage return.\<close>

definition submits :: "nat \<Rightarrow> string \<Rightarrow> Lang \<Rightarrow> serv_env \<Rightarrow> client_data \<Rightarrow> bool" where
  "submits n p l env sub \<longleftrightarrow>
     sends_request env (sub_input sub) (sub_output sub) (sub_source sub) \<and>
     \<not> 1024 dvd length (with_length (request_body (sub_input sub) (sub_output sub) (sub_source sub))) \<and>
     (\<forall>w < n. \<exists>cmd code. c_fmt (cstr (cmd_compile l)) [file_src p l (int w), file_bin p (int w)] = Inr cmd \<and>
        length cmd < length p + 200 \<and>
        compiler_ok (compiler (sv_lang env)) cmd (file_src p l (int w)) (file_bin p (int w)) code \<and>
        code (sub_source sub) = (if sub_compiles sub then Some (sub_program sub (int w)) else None)) \<and>
     (sub_compiles sub \<longrightarrow> (\<forall>w < n. \<exists>bs ps.
        clean_run (sv_run env (Some (sub_program sub (int w))) (Some (sub_input sub))) (int (length (sub_input sub))) bs ps \<and>
        sub_prints sub = concat (pieces bs @ ps))) \<and> CR \<notin> set (sub_prints sub)"

text \<open>A daemon with \<open>n\<close> workers that is ready for the connection.\<close>

definition admits :: "nat \<Rightarrow> string \<Rightarrow> Lang \<Rightarrow> serv_state \<Rightarrow> serv_env \<Rightarrow> client_data \<Rightarrow> bool" where
  "admits n p l st env sub \<longleftrightarrow> n \<le> 24 \<and> submits n p l env sub \<and> daemon_ready env st p l \<and>
     g_ready (sv_int st) (sv_sockopt env)"

text \<open>The two feed files of a worker hold what its client sent.\<close>

definition feeds_hold :: "serv_env \<Rightarrow> string \<Rightarrow> int \<Rightarrow> client_data \<Rightarrow> files \<Rightarrow> bool" where
  "feeds_hold env p w sub fs \<longleftrightarrow> fs (file_in env p w) = Some (sub_input sub) \<and> fs (file_out env p w) = Some (sub_output sub)"

text \<open>And the binary is the program the compiler makes of its source.\<close>

definition run_holds :: "serv_env \<Rightarrow> string \<Rightarrow> int \<Rightarrow> client_data \<Rightarrow> files \<Rightarrow> bool" where
  "run_holds env p w sub fs \<longleftrightarrow> feeds_hold env p w sub fs \<and> fs (file_bin p w) = Some (sub_program sub w)"

definition request_of :: "client_data \<Rightarrow> int_request" where
  "request_of sub = data_request (sub_input sub) (sub_output sub) (sub_source sub)"

text \<open>The reply is the one the worker would give if it were alone from the start.\<close>

definition as_alone :: "serv_env \<Rightarrow> int \<Rightarrow> serv_state \<Rightarrow> serv_out \<Rightarrow> bool" where
  "as_alone env w st0 out \<longleftrightarrow> (\<exists>st. queue_worker_serv env w st0 = Inr (Some (out, st)))"

fun job_inv :: "serv_state \<Rightarrow> serv_env \<Rightarrow> string \<Rightarrow> int \<Rightarrow> client_data \<Rightarrow> job \<Rightarrow> files \<Rightarrow> bool" where
  "job_inv st0 env p w sub J_begin fs = True"
| "job_inv st0 env p w sub (J_input req) fs = (req = request_of sub)"
| "job_inv st0 env p w sub (J_output req nin) fs =
     (req = request_of sub \<and> nin = Some (Some (file_in env p w)) \<and> fs (file_in env p w) = Some (sub_input sub))"
| "job_inv st0 env p w sub (J_compile req nin nout) fs =
     (req = request_of sub \<and> nin = Some (Some (file_in env p w)) \<and> nout = Some (Some (file_out env p w)) \<and>
      feeds_hold env p w sub fs)"
| "job_inv st0 env p w sub (J_run path nin nout) fs =
     (path = file_bin p w \<and> nin = Some (Some (file_in env p w)) \<and> nout = Some (Some (file_out env p w)) \<and>
      run_holds env p w sub fs \<and> sub_compiles sub)"
| "job_inv st0 env p w sub (J_clean path nin nout verdict) fs =
     (path = file_bin p w \<and> nin = Some (Some (file_in env p w)) \<and> nout = Some (Some (file_out env p w)) \<and>
      as_alone env w st0 (answer_with env verdict True))"
| "job_inv st0 env p w sub (J_done out) fs = as_alone env w st0 out"

subsection \<open>Files of different workers\<close>

definition own_files :: "serv_env \<Rightarrow> string \<Rightarrow> Lang \<Rightarrow> int \<Rightarrow> string set" where
  "own_files env p l w = {file_in env p w, file_out env p w, file_src p l w, file_bin p w}"

lemma feed_not_submission:
  "feed_filename (p @ ''/feed-workspace'') w now tag \<noteq> submission_ext (p @ ''/lang-workspace'') w' x"
  "feed_filename (p @ ''/feed-workspace'') w now tag \<noteq> submission_file (p @ ''/lang-workspace'') w'"
  by (simp_all add: feed_filename_def submission_ext_def submission_file_def)

lemma feeds_of_others:
  "w \<noteq> w' \<Longrightarrow> file_in env' p w' \<notin> own_files env p l w" "w \<noteq> w' \<Longrightarrow> file_out env' p w' \<notin> own_files env p l w"
  by (auto simp: own_files_def file_in_def file_out_def file_src_def file_bin_def feed_filename_inject feed_not_submission)

lemma binary_of_others:
  assumes "w \<noteq> w'"
  shows "file_bin p w' \<notin> own_files env p l w"
  using append_Cons_eq_iff [of "CHR ''/''" "dec_int w'" "dec_int w"] assms
  by (auto simp: own_files_def file_in_def file_out_def file_src_def file_bin_def submission_file_def
      submission_ext_def feed_filename_def dec_int_inject)

lemma job_inv_frame:
  assumes "job_inv st0 env' p w' sub j fs" "w \<noteq> w'" "\<And>q. q \<notin> own_files env p l w \<Longrightarrow> fs' q = fs q"
  shows "job_inv st0 env' p w' sub j fs'"
  using assms(1) assms(3) [OF feeds_of_others(1) [OF assms(2)], of env'] assms(3) [OF feeds_of_others(2) [OF assms(2)], of env']
    assms(3) [OF binary_of_others [OF assms(2)]]
  by (cases j) (simp_all add: feeds_hold_def run_holds_def)

subsection \<open>The steps of one worker\<close>

lemma admits_int:
  assumes "admits n p l st0 env sub"
  shows "message env st (sub_input sub) (sub_output sub) (sub_source sub) \<longleftrightarrow> g_ready (sv_int st) (sv_sockopt env)"
  using assms by (simp add: admits_def submits_def message_def)

lemma admits_compiler:
  assumes "admits n p l st0 env sub" "w < n"
  obtains cmd code where "c_fmt (cstr (cmd_compile l)) [file_src p l (int w), file_bin p (int w)] = Inr cmd"
    "length cmd < length p + 200"
    "compiler_ok (compiler (sv_lang env)) cmd (file_src p l (int w)) (file_bin p (int w)) code"
    "code (sub_source sub) = (if sub_compiles sub then Some (sub_program sub (int w)) else None)"
  using assms unfolding admits_def submits_def by blast

lemma admits_run:
  assumes "admits n p l st0 env sub" "w < n" "sub_compiles sub"
  obtains bs ps where
    "clean_run (sv_run env (Some (sub_program sub (int w))) (Some (sub_input sub))) (int (length (sub_input sub))) bs ps"
    "sub_prints sub = concat (pieces bs @ ps)" "CR \<notin> set (concat (pieces bs @ ps))"
proof -
  have "\<exists>bs ps. clean_run (sv_run env (Some (sub_program sub (int w))) (Some (sub_input sub))) (int (length (sub_input sub))) bs ps \<and>
      sub_prints sub = concat (pieces bs @ ps)" "CR \<notin> set (sub_prints sub)"
    using assms unfolding admits_def submits_def by blast+
  then show thesis using that by metis
qed

lemma admits_length: "admits n p l st0 env sub \<Longrightarrow> length (sub_input sub) < 30000000 \<and> length (sub_source sub) < 30000000"
  using message_length [of env st0 "sub_input sub" "sub_output sub" "sub_source sub"]
  by (simp add: admits_def submits_def message_def)

lemma serv_run_feeds:
  "run_holds env p w sub fs \<Longrightarrow> run_holds env p w sub fs' \<Longrightarrow>
     serv_run env w (file_bin p w) (Some (Some (file_in env p w))) (Some (Some (file_out env p w))) fs =
     serv_run env w (file_bin p w) (Some (Some (file_in env p w))) (Some (Some (file_out env p w))) fs'"
  by (simp add: serv_run_def open_feed_def run_holds_def feeds_hold_def)

text \<open>What the worker would do alone, from the compilation on.\<close>

lemma alone:
  assumes ok: "admits n p l st0 env sub" and w: "w < n" "w' = int w"
    and run: "sub_compiles sub \<Longrightarrow> run_holds env p w' sub fs \<and> serv_run env w' (file_bin p w')
      (Some (Some (file_in env p w'))) (Some (Some (file_out env p w'))) fs = Inr (Some v)"
  shows "as_alone env w' st0 (answer_with env (if sub_compiles sub then v else VERDICT_COMPILE_ERROR) True)"
proof -
  have ready: "daemon_ready env st0 p l" and lim: "0 \<le> w'" "w' < 24" using ok w by (auto simp: admits_def)
  have msg: "message env st0 (sub_input sub) (sub_output sub) (sub_source sub)"
    using ok admits_int [OF ok] by (simp add: admits_def)
  obtain g where g: "queue_worker_serv env w' st0 = serv_judging env w' (request_of sub) (st0\<lparr>sv_int := g\<rparr>)"
    using serv_request [OF daemon_ready_mem [OF ready] msg] ok by (auto simp: admits_def submits_def request_of_def)
  obtain cmd code where cmd: "c_fmt (cstr (cmd_compile l)) [file_src p l w', file_bin p w'] = Inr cmd"
      "length cmd < length p + 200" "compiler_ok (compiler (sv_lang env)) cmd (file_src p l w') (file_bin p w') code"
      "code (sub_source sub) = (if sub_compiles sub then Some (sub_program sub w') else None)"
    using admits_compiler [OF ok w(1)] w(2) by blast
  let ?st = "st0\<lparr>sv_int := g\<rparr>"
  define fs2 where "fs2 = (sv_files ?st)(file_in env p w' \<mapsto> sub_input sub, file_out env p w' \<mapsto> sub_output sub)"
  define fs3 where "fs3 = compiler (sv_lang env) cmd (fs2(file_src p l w' \<mapsto> sub_source sub, file_bin p w' := None))"
  have made: "fs3 (file_bin p w') = (if sub_compiles sub then Some (sub_program sub w') else None)"
    using compiler_okD [OF cmd(3) files_distinct(6)] cmd(4) by (simp add: fs3_def)
  have "fs3 q = (fs2(file_src p l w' \<mapsto> sub_source sub)) q" if "q \<noteq> file_bin p w'" for q
    using cmd(3) that by (simp add: fs3_def compiler_ok_def)
  then have "sub_compiles sub \<Longrightarrow> run_holds env p w' sub (fs3(file_src p l w' := None))"
    using made by (simp add: run_holds_def feeds_hold_def fs2_def files_distinct files_distinct(6) [symmetric])
  then have same: "sub_compiles sub \<Longrightarrow> serv_run env w' (file_bin p w') (Some (Some (file_in env p w')))
      (Some (Some (file_out env p w'))) (fs3(file_src p l w' := None)) = Inr (Some v)"
    using run serv_run_feeds by metis
  have "daemon_ready env ?st p l" using ready by simp
  then obtain langs where "serv_judging env w' (request_of sub) ?st =
      (if fs3 (file_bin p w') = None
       then Inr (Some (answer_with env VERDICT_COMPILE_ERROR True, ?st\<lparr>sv_langs := langs, sv_files := fs3\<rparr>))
       else c_then (serv_run env w' (file_bin p w') (Some (Some (file_in env p w'))) (Some (Some (file_out env p w')))
         (fs3(file_src p l w' := None))) (\<lambda>v. case v of
       None \<Rightarrow> Inr None
     | Some verdict \<Rightarrow> Inr (Some (answer_with env verdict True, ?st\<lparr>sv_langs := langs,
         sv_files := (fs3(file_src p l w' := None, file_bin p w' := None, file_in env p w' := None,
           file_out env p w' := None))\<rparr>))))"
    using serv_judging_data [OF _ lim _ cmd(1,2) fs2_def fs3_def] admits_length [OF ok] unfolding request_of_def by blast
  then show ?thesis using g made same by (auto simp: as_alone_def)
qed

text \<open>What a step may change of the tables all workers share: a flag of the worker, and the size of the receive buffer.\<close>

definition tables_kept :: "serv_env \<Rightarrow> serv_state \<Rightarrow> serv_state \<Rightarrow> bool" where
  "tables_kept env st st' \<longleftrightarrow>
     (\<exists>flags. sv_langs st' = (sv_langs st)\<lparr>lang_workspace_inited := flags\<rparr> \<and>
        length flags = length (lang_workspace_inited (sv_langs st))) \<and>
     (sv_int st' = sv_int st \<or> sv_int st' = snd (receive_size (sv_int st) (sv_sockopt env)))"

lemma tables_kept_ready:
  assumes "tables_kept env st st'" "g_ready (sv_int st) (sv_sockopt env)"
  shows "daemon_ready env' st p l \<Longrightarrow> daemon_ready env' st' p l"
    "g_ready (sv_int st) answer \<Longrightarrow> g_ready (sv_int st') answer"
  using assms
  by (auto simp: tables_kept_def daemon_ready_def lang_get_def g_ready_def receive_size_def Let_def split: option.splits if_splits)

lemma receive_state: "jug_int_receive mem answer g s = Inr (b, r, g') \<Longrightarrow> g' = snd (receive_size g answer)"
  by (auto simp: jug_int_receive_def c_then_Inr split: prod.splits if_splits option.splits)

text \<open>The files a job has made so far and will remove, if the source compiles.\<close>

fun job_area :: "serv_env \<Rightarrow> string \<Rightarrow> int \<Rightarrow> job \<Rightarrow> string set" where
  "job_area env p w (J_output req nin) = {file_in env p w}"
| "job_area env p w (J_compile req nin nout) = {file_in env p w, file_out env p w}"
| "job_area env p w (J_run path nin nout) = {file_in env p w, file_out env p w, file_bin p w}"
| "job_area env p w (J_clean path nin nout v) = {file_in env p w, file_out env p w, file_bin p w}"
| "job_area env p w _ = {}"

lemma job_area_own: "job_area env p w j \<subseteq> own_files env p l w"
  by (cases j) (auto simp: own_files_def)

text \<open>A step of a worker in a daemon that is ready: it succeeds, comes closer to the end, changes no file of another
  worker, and what was known about the worker's own files is known again; if the source compiles, a file it makes is
  one of the job's.\<close>

definition good_step ::
  "serv_state \<Rightarrow> serv_env \<Rightarrow> string \<Rightarrow> Lang \<Rightarrow> int \<Rightarrow> client_data \<Rightarrow> job \<Rightarrow> serv_state \<Rightarrow> job \<Rightarrow> serv_state \<Rightarrow> bool" where
  "good_step st0 env p l w sub j st j' st' \<longleftrightarrow> job_step env w j st = Inr (Some (j', st')) \<and>
     job_inv st0 env p w sub j' (sv_files st') \<and> job_togo j' < job_togo j \<and> tables_kept env st st' \<and>
     (\<forall>q. q \<notin> own_files env p l w \<longrightarrow> sv_files st' q = sv_files st q) \<and>
     (sub_compiles sub \<longrightarrow> (\<forall>q \<in> own_files env p l w. q \<in> job_area env p w j' \<or> sv_files st' q = None \<or>
        q \<notin> job_area env p w j \<and> sv_files st' q = sv_files st q))"

lemma tables_kept_same [simp]:
  "tables_kept env st (st\<lparr>sv_files := fs\<rparr>)" "tables_kept env st st"
  by (auto simp: tables_kept_def intro!: exI [of _ "lang_workspace_inited (sv_langs st)"])

lemma good_begin:
  assumes ok: "admits n p l st0 env sub" and st: "daemon_ready env st p l" "g_ready (sv_int st) (sv_sockopt env)"
  shows "\<exists>j' st'. good_step st0 env p l w sub J_begin st j' st'"
proof -
  have msg: "message env st (sub_input sub) (sub_output sub) (sub_source sub)" using st(2) admits_int [OF ok] by simp
  have len: "\<not> 1024 dvd length (with_length (request_body (sub_input sub) (sub_output sub) (sub_source sub)))"
    using ok by (simp add: admits_def submits_def)
  obtain b rest g where "jug_int_receive (sv_mem env) (sv_sockopt env) (sv_int st) (sv_sock env) = Inr (Some b, rest, g)"
      "jug_int_decode (sv_mem env) b blank_request = Inr (0, request_of sub)"
    using message_arrives [OF daemon_ready_mem [OF st(1)] msg len] unfolding request_of_def .
  moreover have "tables_kept env st (st\<lparr>sv_int := g\<rparr>)"
    using receive_state [OF calculation(1)]
    by (auto simp: tables_kept_def intro!: exI [of _ "lang_workspace_inited (sv_langs st)"])
  ultimately show ?thesis
    by (auto simp: good_step_def request_of_def data_request_def intro!: exI [of _ "J_input (request_of sub)"]
      exI [of _ "st\<lparr>sv_int := g\<rparr>"])
qed

lemma good_feeds:
  assumes st: "daemon_ready env st p l" and w: "0 \<le> w" "w < 24" and j: "job_inv st0 env p w sub j (sv_files st)"
    and "j = J_input req \<or> j = J_output req nin"
  shows "\<exists>j' st'. good_step st0 env p l w sub j st j' st'"
  using assms(5) j ready_feeds [OF st w]
  by (auto simp: good_step_def request_of_def data_request_def own_files_def feeds_hold_def files_distinct)

lemma good_compile:
  assumes ok: "admits n p l st0 env sub" and st: "daemon_ready env st p l" and w: "w < n" "w' = int w"
    and j: "job_inv st0 env p w' sub (J_compile req nin nout) (sv_files st)"
  shows "\<exists>j' st'. good_step st0 env p l w' sub (J_compile req nin nout) st j' st'"
proof -
  have lim: "0 \<le> w'" "w' < 24" using ok w by (auto simp: admits_def)
  have mem: "can_alloc (sv_mem env) k" if "k \<le> 40000000" for k using st that by (simp add: daemon_ready_def ampleD)
  obtain cmd code where cmd: "c_fmt (cstr (cmd_compile l)) [file_src p l w', file_bin p w'] = Inr cmd"
      "length cmd < length p + 200" "compiler_ok (compiler (sv_lang env)) cmd (file_src p l w') (file_bin p w') code"
      "code (sub_source sub) = (if sub_compiles sub then Some (sub_program sub w') else None)"
    using admits_compiler [OF ok w(1)] w(2) by blast
  define fs where "fs = compiler (sv_lang env) cmd ((sv_files st)(file_src p l w' \<mapsto> sub_source sub, file_bin p w' := None))"
  have made: "fs (file_bin p w') = (if sub_compiles sub then Some (sub_program sub w') else None)"
    using compiler_okD [OF cmd(3) files_distinct(6)] cmd(4) by (simp add: fs_def)
  have other: "fs q = ((sv_files st)(file_src p l w' \<mapsto> sub_source sub)) q" if "q \<noteq> file_bin p w'" for q
    using cmd(3) that by (simp add: fs_def compiler_ok_def)
  have feeds: "sub_compiles sub \<Longrightarrow> run_holds env p w' sub (fs(file_src p l w' := None))"
    using j made by (simp add: run_holds_def feeds_hold_def other files_distinct files_distinct(6) [symmetric])
  let ?flags = "(lang_workspace_inited (sv_langs st))[nat w' := True]"
  let ?st = "\<lambda>fs. st\<lparr>sv_langs := (sv_langs st)\<lparr>lang_workspace_inited := ?flags\<rparr>, sv_files := fs\<rparr>"
  have tables: "tables_kept env st (?st fs')" for fs'
    by (auto simp: tables_kept_def intro!: exI [of _ ?flags])
  note lang = ready_lang_process [OF st lim cmd(1,2) fs_def refl]
  show ?thesis
  proof (cases "sub_compiles sub")
    case True
    then show ?thesis
      using j lang made mem admits_length [OF ok] feeds tables other
      by (intro exI [of _ "J_run (file_bin p w') nin nout"] exI [of _ "?st (fs(file_src p l w' := None))"])
        (simp add: good_step_def request_of_def data_request_def blank_request_def blank_bin_def
          lang_free_BinaryInformation_def jug_int_free_request_def own_files_def)
  next
    case False
    then show ?thesis
      using j lang made mem admits_length [OF ok] tables other alone [OF ok w]
      by (intro exI [of _ "J_done (answer_with env VERDICT_COMPILE_ERROR True)"] exI [of _ "?st fs"])
        (simp add: good_step_def request_of_def data_request_def blank_request_def blank_bin_def
          lang_free_BinaryInformation_def jug_int_free_request_def own_files_def)
  qed
qed

lemma good_run:
  assumes ok: "admits n p l st0 env sub" and st: "daemon_ready env st p l" and w: "w < n" "w' = int w"
    and j: "job_inv st0 env p w' sub (J_run path nin nout) (sv_files st)"
  shows "\<exists>j' st'. good_step st0 env p l w' sub (J_run path nin nout) st j' st'"
proof -
  have lim: "0 \<le> w'" "w' < 24" using ok w by (auto simp: admits_def)
  have feeds: "run_holds env p w' sub (sv_files st)" "sub_compiles sub" using j by simp_all
  obtain bs ps where run: "clean_run (sv_run env (Some (sub_program sub w')) (Some (sub_input sub)))
      (int (length (sub_input sub))) bs ps" "CR \<notin> set (concat (pieces bs @ ps))"
    using admits_run [OF ok w(1) feeds(2)] w(2) by metis
  obtain v where v: "serv_run env w' (file_bin p w') (Some (Some (file_in env p w'))) (Some (Some (file_out env p w')))
      (sv_files st) = Inr (Some v)"
    using serv_run_decides [OF st lim _ _ _ _ run] feeds(1) admits_length [OF ok]
    by (auto simp: run_holds_def feeds_hold_def)
  have "as_alone env w' st0 (answer_with env v True)" using alone [OF ok w] feeds v by simp
  then show ?thesis
    using j v by (intro exI [of _ "J_clean path nin nout v"] exI [of _ st]) (auto simp: good_step_def)
qed

lemma good_clean:
  assumes "job_inv st0 env p w sub (J_clean path nin nout v) (sv_files st)"
  shows "\<exists>j' st'. good_step st0 env p l w sub (J_clean path nin nout v) st j' st'"
  using assms by (auto simp: good_step_def remove_feed_def jug_feed_remove_by_name_def lang_remove_binary_def own_files_def)

lemma good_steps:
  assumes ok: "admits n p l st0 env sub" and st: "daemon_ready env st p l" "g_ready (sv_int st) (sv_sockopt env)"
    and w: "w < n" and j: "job_inv st0 env p (int w) sub j (sv_files st)" "job_outcome j = None"
  shows "\<exists>j' st'. good_step st0 env p l (int w) sub j st j' st'"
proof -
  have lim: "0 \<le> int w" "int w < 24" using ok w by (auto simp: admits_def)
  show ?thesis
    using good_begin [OF ok st] good_feeds [OF st(1) lim] good_compile [OF ok st(1) w refl] good_run [OF ok st(1) w refl]
      good_clean j by (cases j) auto
qed

subsection \<open>All workers\<close>

definition serve :: "('c \<Rightarrow> serv_env) \<Rightarrow> 'c \<Rightarrow> nat \<Rightarrow> job \<Rightarrow> serv_state \<Rightarrow> (job \<times> serv_state) option c_result" where
  "serve env c w = job_step (env c) (int w)"

definition ready_for ::
  "nat \<Rightarrow> string \<Rightarrow> Lang \<Rightarrow> serv_state \<Rightarrow> ('c \<Rightarrow> serv_env) \<Rightarrow> ('c \<Rightarrow> client_data) \<Rightarrow> serv_state \<Rightarrow> bool" where
  "ready_for n p l st0 env sub st \<longleftrightarrow> (\<forall>c. admits n p l st0 (env c) (sub c) \<longrightarrow>
     daemon_ready (env c) st p l \<and> g_ready (sv_int st) (sv_sockopt (env c)))"

lemma ready_for_start: "ready_for n p l st0 env sub st0"
  by (simp add: ready_for_def admits_def)

lemma good_serve:
  assumes ok: "admits n p l st0 (env c) (sub c)" and w: "w < n" and st: "ready_for n p l st0 env sub st"
    and j: "job_inv st0 (env c) p (int w) (sub c) j (sv_files st)" "job_outcome j = None"
  obtains j' st' where "good_step st0 (env c) p l (int w) (sub c) j st j' st'" "ready_for n p l st0 env sub st'"
proof -
  have ready: "daemon_ready (env c) st p l" "g_ready (sv_int st) (sv_sockopt (env c))"
    using st ok by (simp_all add: ready_for_def)
  obtain j' st' where step: "good_step st0 (env c) p l (int w) (sub c) j st j' st'"
    using good_steps [OF ok ready w j] by blast
  then have "tables_kept (env c) st st'" by (simp add: good_step_def)
  then have "ready_for n p l st0 env sub st'"
    using st tables_kept_ready [OF _ ready(2)] unfolding ready_for_def by blast
  with step show thesis by (rule that)
qed

interpretation serving: handlers n "serve env" job_outcome J_begin "\<lambda>c. admits n p l st0 (env c) (sub c)"
    "ready_for n p l st0 env sub" "\<lambda>c w j st. job_inv st0 (env c) p (int w) (sub c) j (sv_files st)" job_togo
  for n env p l st0 sub
proof
  show "job_inv st0 (env c) p (int w) (sub c) J_begin (sv_files st)" for c w st by simp
next
  fix c w st j
  assume "admits n p l st0 (env c) (sub c)" "w < n" "ready_for n p l st0 env sub st"
    "job_inv st0 (env c) p (int w) (sub c) j (sv_files st)" "job_outcome j = None"
  then obtain j' st' where "good_step st0 (env c) p l (int w) (sub c) j st j' st'" "ready_for n p l st0 env sub st'"
    by (rule good_serve [where env = env and sub = sub])
  then show "\<exists>j' st'. serve env c w j st = Inr (Some (j', st')) \<and> ready_for n p l st0 env sub st' \<and>
      job_inv st0 (env c) p (int w) (sub c) j' (sv_files st') \<and> job_togo j' < job_togo j"
    by (auto simp: serve_def good_step_def)
next
  fix c w st j j' st' w' c' i
  assume *: "admits n p l st0 (env c) (sub c)" "w < n" "ready_for n p l st0 env sub st"
    "job_inv st0 (env c) p (int w) (sub c) j (sv_files st)"
    and step: "serve env c w j st = Inr (Some (j', st'))" and other: "w' \<noteq> w"
    "job_inv st0 (env c') p (int w') (sub c') i (sv_files st)"
  have "job_outcome j = None" using step by (cases j) (simp_all add: serve_def)
  then obtain j1 st1 where "good_step st0 (env c) p l (int w) (sub c) j st j1 st1"
    using good_serve [where env = env and sub = sub, OF *] by blast
  then have "sv_files st' q = sv_files st q" if "q \<notin> own_files (env c) p l (int w)" for q
    using step that by (simp add: good_step_def serve_def)
  then show "job_inv st0 (env c') p (int w') (sub c') i (sv_files st')"
    using job_inv_frame [OF other(2), of "int w" "env c" l "sv_files st'"] other(1) by auto
qed

text \<open>What a worker answers when it is alone.\<close>

lemma alone_verdict:
  assumes ok: "admits n p l st0 env sub" and w: "w < n" and out: "as_alone env (int w) st0 out"
  shows "\<exists>v. out = \<lparr>reply = with_length (jug_int_verdict_to_string v), reply_closed = True\<rparr> \<and>
    (v = VERDICT_ACCEPTED \<longleftrightarrow>
       sub_compiles sub \<and> strip_LF (sub_prints sub) = strip_LF (filter (\<lambda>c. c \<noteq> CR) (sub_output sub)))"
proof -
  have ready: "daemon_ready env st0 p l" and lim: "0 \<le> int w" "int w < 24" using ok w by (auto simp: admits_def)
  show ?thesis
  proof (cases "sub_compiles sub")
    case False
    then have "as_alone env (int w) st0 (answer_with env VERDICT_COMPILE_ERROR True)" using alone [OF ok w refl] by simp
    then have "out = answer_with env VERDICT_COMPILE_ERROR True" using out by (auto simp: as_alone_def)
    with False show ?thesis
      by (intro exI [of _ VERDICT_COMPILE_ERROR]) (simp add: daemon_ready_answer [OF ready])
  next
    case True
    obtain bs ps where run: "clean_run (sv_run env (Some (sub_program sub (int w))) (Some (sub_input sub)))
        (int (length (sub_input sub))) bs ps" "CR \<notin> set (concat (pieces bs @ ps))"
        and prints: "sub_prints sub = concat (pieces bs @ ps)"
      using admits_run [OF ok w True] by metis
    define fs where "fs = [file_in env p (int w) \<mapsto> sub_input sub, file_out env p (int w) \<mapsto> sub_output sub,
      file_bin p (int w) \<mapsto> sub_program sub (int w)]"
    have holds: "run_holds env p (int w) sub fs" by (simp add: run_holds_def feeds_hold_def fs_def files_distinct)
    then obtain v where v: "serv_run env (int w) (file_bin p (int w)) (Some (Some (file_in env p (int w))))
        (Some (Some (file_out env p (int w)))) fs = Inr (Some v)"
        "v = VERDICT_ACCEPTED \<longleftrightarrow> strip_LF (sub_prints sub) = strip_LF (filter (\<lambda>c. c \<noteq> CR) (sub_output sub))"
      using serv_run_decides [OF ready lim _ _ _ _ run] admits_length [OF ok] prints
      by (auto simp: run_holds_def feeds_hold_def)
    have "as_alone env (int w) st0 (answer_with env v True)" using alone [OF ok w refl] holds v(1) True by simp
    then have "out = answer_with env v True" using out by (auto simp: as_alone_def)
    with True v(2) show ?thesis by (intro exI [of _ v]) (simp add: daemon_ready_answer [OF ready])
  qed
qed

lemma reach_workers:
  "(worker_step n work outcome begin_job)\<^sup>*\<^sup>* s s' \<Longrightarrow> daemon_reach n work outcome begin_job st s \<Longrightarrow>
     daemon_reach n work outcome begin_job st s'"
  by (induction rule: rtranclp_induct) (auto intro: reach_step by_worker)

lemma answered_alone:
  assumes "serving.keeps n p l st0 env sub s" "(c, w, out) \<in> set (answered s)"
  shows "c \<in> set (arrived s) \<and> w < n \<and> admits n p l st0 (env c) (sub c) \<and> as_alone (env c) (int w) st0 out"
  using serving.keeps_answered(2) [OF assms] by (auto simp: job_outcome_iff)

section \<open>Properties\<close>

text \<open>C4: However the main thread and the workers are interleaved, the daemon does not crash, no connection is answered
  twice, and every reply is the one its client would get from a worker that is alone in a daemon that has just started. It
  is \<open>ACCEPTED\<close> exactly if the source compiles and what the compiled program prints on the input is the expected
  output, up to line ends at the end and the carriage returns of the expected output. This is so under the
  conditions of \<open>admits\<close>, for every connection that has arrived: it is a judging request with inline data (one with a
  reference crashes the daemon), without NUL bytes and with a non-empty source, shorter than 30 MB and not a multiple
  of 1024 bytes long (such a one is always told \<open>ACCEPTED\<close>); the compiler's command line fits its buffer, and the
  compiler writes no file but its result; the watcher of the run, if there is one, ends with \<open>JS_CORRECT\<close>, within all limits, and the output
  contains no carriage return and, whatever \<open>output_size_limit_mb\<close> says, may have any size; no execution root file system is used, the output is not shown, and no call of the
  worker or the runner fails. There are at most 24 workers, and the operations of the queue do not overlap.\<close>

theorem every_client_gets_its_own_verdict:
  assumes "daemon_reach n (serve env) job_outcome J_begin st0 s"
    and "\<forall>c \<in> set (arrived s). admits n p l st0 (env c) (sub c)"
  shows "\<not> crashed s \<and> distinct (map fst (answered s)) \<and> (\<forall>(c, w, out) \<in> set (answered s).
    c \<in> set (arrived s) \<and> (\<exists>st. queue_worker_serv (env c) (int w) st0 = Inr (Some (out, st))) \<and>
    (\<exists>v. out = \<lparr>reply = with_length (jug_int_verdict_to_string v), reply_closed = True\<rparr> \<and>
      (v = VERDICT_ACCEPTED \<longleftrightarrow> sub_compiles (sub c) \<and>
         strip_LF (sub_prints (sub c)) = strip_LF (filter (\<lambda>x. x \<noteq> CR) (sub_output (sub c))))))"
proof -
  have keeps: "serving.keeps n p l st0 env sub s"
    by (rule serving.reach_keeps [OF assms(1) ready_for_start assms(2)])
  note answered_alone [OF keeps]
  moreover have "\<not> crashed s" using keeps by (simp add: serving.keeps_def)
  moreover note serving.keeps_answered(1) [OF keeps]
  ultimately show ?thesis using alone_verdict unfolding as_alone_def [symmetric] by blast
qed

text \<open>Two workers and two clients that send the same; the program of the first prints \<open>2\<close>, that of the second \<open>3\<close>.
  The compiler copies, for each of a list of commands, the file it names to the other.\<close>

definition toolbox :: "(string \<times> string \<times> string) list \<Rightarrow> string \<Rightarrow> files \<Rightarrow> files" where
  "toolbox ts cmd fs = (case map_of ts cmd of None \<Rightarrow> fs | Some (s, t) \<Rightarrow> fs(t := fs s))"

lemma toolbox_ok: "map_of ts cmd = Some (s, t) \<Longrightarrow> compiler_ok (toolbox ts) cmd s t Some"
  by (simp add: compiler_ok_def toolbox_def)

definition sample_src :: "int \<Rightarrow> string" where
  "sample_src w = file_src ''/r/m'' (hd (g_languages sample_langs)) w"

definition pair_job :: "int \<Rightarrow> string \<times> string \<times> string" where
  "pair_job w = (''cc '' @ sample_src w @ '' '' @ file_bin ''/r/m'' w, sample_src w, file_bin ''/r/m'' w)"

definition pair_env :: "nat \<Rightarrow> serv_env" where
  "pair_env c = (sample_serv (if c = 1 then ''2'' else ''3''))\<lparr>sv_lang := \<lparr>le_mkdir = Made, le_open = True, le_puts = True,
     compiler = toolbox [pair_job 0, pair_job 1]\<rparr>\<rparr>"

definition pair_sub :: "nat \<Rightarrow> client_data" where
  "pair_sub c = \<lparr>sub_input = ''1'', sub_output = ''2'', sub_source = ''m'', sub_compiles = True, sub_program = (\<lambda>_. ''m''),
     sub_prints = (if c = 1 then ''2'' else ''3'')\<rparr>"

lemma sample_names:
  "sample_src 0 = ''/r/m/lang-workspace/0/Submission.c''" "file_bin ''/r/m'' 0 = ''/r/m/lang-workspace/0/Submission''"
  "sample_src 1 = ''/r/m/lang-workspace/1/Submission.c''" "file_bin ''/r/m'' 1 = ''/r/m/lang-workspace/1/Submission''"
proof -
  have "dec_int 0 = ''0''" "dec_int 1 = ''1''" by code_simp+
  then show "sample_src 0 = ''/r/m/lang-workspace/0/Submission.c''" "file_bin ''/r/m'' 0 = ''/r/m/lang-workspace/0/Submission''"
      "sample_src 1 = ''/r/m/lang-workspace/1/Submission.c''" "file_bin ''/r/m'' 1 = ''/r/m/lang-workspace/1/Submission''"
    by (simp_all add: sample_src_def file_src_def file_bin_def submission_ext_def submission_file_def sample_lang)
qed

lemma pair_admits: "admits 2 ''/r/m'' (hd (g_languages sample_langs)) sample_serv_state (pair_env c) (pair_sub c)"
proof -
  let ?l = "hd (g_languages sample_langs)" and ?p = "''/r/m''" and ?e = "sample_serv (sub_prints (pair_sub c))"
  have e: "sv_sock (pair_env c) = sv_sock ?e" "sv_sockopt (pair_env c) = sv_sockopt ?e" "sv_run (pair_env c) = sv_run ?e"
    by (simp_all add: pair_env_def pair_sub_def)
  have ready: "daemon_ready (pair_env c) sample_serv_state ?p ?l"
    using sample_daemon_ready [of "sub_prints (pair_sub c)"] by (simp add: daemon_ready_def pair_env_def pair_sub_def)
  have msg: "message (pair_env c) sample_serv_state ''1'' ''2'' ''m''"
    using sample_message [of "sub_prints (pair_sub c)"] by (simp add: message_defs e)
  have len: "\<not> 1024 dvd length (with_length (request_body ''1'' ''2'' ''m''))"
    by (auto simp: small_message_text small_request dest: dvd_imp_le)
  have run: "clean_run (sv_run (pair_env c) (Some ''m'') (Some ''1'')) (int (length ''1'')) [Read_again] [sub_prints (pair_sub c)]"
    using sample_run_clean [of "sub_prints (pair_sub c)"] by (simp add: e pair_sub_def)
  have "\<exists>cmd code. c_fmt (cstr (cmd_compile ?l)) [file_src ?p ?l (int w), file_bin ?p (int w)] = Inr cmd \<and>
      length cmd < length ?p + 200 \<and>
      compiler_ok (compiler (sv_lang (pair_env c))) cmd (file_src ?p ?l (int w)) (file_bin ?p (int w)) code \<and>
      code ''m'' = Some ''m''" if "w < 2" for w
  proof -
    let ?cmd = "''cc '' @ sample_src (int w) @ '' '' @ file_bin ?p (int w)"
    have w: "w = 0 \<or> w = 1" using that by auto
    then have "length ?cmd < length ?p + 200" by (elim disjE; simp add: sample_names)
    moreover have "map_of [pair_job 0, pair_job 1] ?cmd = Some (sample_src (int w), file_bin ?p (int w))"
      using w by (elim disjE; simp add: pair_job_def sample_names)
    from toolbox_ok [OF this]
    have "compiler_ok (compiler (sv_lang (pair_env c))) ?cmd (sample_src (int w)) (file_bin ?p (int w)) Some"
      by (simp add: pair_env_def)
    ultimately show ?thesis by (intro exI [of _ ?cmd] exI [of _ Some]) (simp add: sample_command sample_src_def)
  qed
  then show ?thesis
    using ready msg len run
    by (auto simp: admits_def submits_def message_def pair_sub_def pieces_def intro!: exI [of _ "[Read_again]"])
qed

lemma pair_arrived:
  fixes st :: 's and begin_job :: 'j and outcome :: "'j \<Rightarrow> 'o option"
  obtains s where "daemon_reach n work outcome begin_job st s" "arrived s = [1, 2 :: nat]"
proof -
  let ?s0 = "system_start st :: (nat, 'j, 's, 'o) system"
  have fresh: "\<exists>a. heap q a = None" if "queue_holds q xs" for q :: "nat jug_queue" and xs
    using that ex_new_if_finite [of "dom (heap q)"] by (auto simp: queue_holds_def)
  obtain q1 where q1: "queue_push_connection 0 1 (sq ?s0) = Inr q1" "queue_holds q1 ([] @ [1 :: nat])"
    using push_conn_at [of "sq ?s0" "[]" 0 "1 :: nat"] empty_queue_holds by (auto simp: system_start_def empty_queue_def)
  let ?s1 = "?s0\<lparr>sq := q1, arrived := arrived ?s0 @ [1]\<rparr>"
  have "daemon_step n work outcome begin_job ?s0 ?s1"
    by (rule arrive [of _ 0]) (use q1(1) in \<open>simp_all add: system_start_def empty_queue_def\<close>)
  then have r1: "daemon_reach n work outcome begin_job st ?s1" by (rule reach_step [OF reach_start])
  obtain a where a: "heap q1 a = None" using fresh [OF q1(2)] ..
  obtain q2 where q2: "queue_push_connection a 2 q1 = Inr q2" using push_conn_at [OF q1(2) a] by blast
  have "daemon_step n work outcome begin_job ?s1 (?s1\<lparr>sq := q2, arrived := arrived ?s1 @ [2]\<rparr>)"
    by (rule arrive [of _ a]) (use q2 a in \<open>simp_all add: system_start_def\<close>)
  from that [OF reach_step [OF r1 this]] show thesis by (simp add: system_start_def)
qed

lemma pair_answered:
  "\<exists>s. daemon_reach 2 (serve pair_env) job_outcome J_begin sample_serv_state s \<and> set (map fst (answered s)) = {1, 2}"
proof -
  obtain s where s: "daemon_reach 2 (serve pair_env) job_outcome J_begin sample_serv_state s" "arrived s = [1, 2]"
    by (rule pair_arrived)
  let ?l = "hd (g_languages sample_langs)"
  have "serving.keeps 2 ''/r/m'' ?l sample_serv_state pair_env pair_sub s"
    by (rule serving.reach_keeps [OF s(1) ready_for_start]) (simp add: pair_admits)
  then obtain s' where s': "(worker_step 2 (serve pair_env) job_outcome J_begin)\<^sup>*\<^sup>* s s'"
      "mset (map fst (answered s')) = mset [1, 2]"
    using serving.workers_drain s(2) by force
  show ?thesis using reach_workers [OF s'(1) s(1)] mset_eq_setD [OF s'(2)] by (intro exI conjI) simp_all
qed

theorem every_client_gets_its_own_verdict_witness:
  "\<exists>s w out v. daemon_reach 2 (serve pair_env) job_outcome J_begin sample_serv_state s \<and>
     (2, w, out) \<in> set (answered s) \<and> v \<noteq> VERDICT_ACCEPTED \<and> reply out = with_length (jug_int_verdict_to_string v)"
proof -
  obtain s where s: "daemon_reach 2 (serve pair_env) job_outcome J_begin sample_serv_state s"
      "set (map fst (answered s)) = {1, 2}"
    using pair_answered by blast
  then have "2 \<in> fst ` set (answered s)" by auto
  then obtain w out where a: "(2, w, out) \<in> set (answered s)" by force
  have "\<forall>c \<in> set (arrived s). admits 2 ''/r/m'' (hd (g_languages sample_langs)) sample_serv_state (pair_env c) (pair_sub c)"
    by (simp add: pair_admits)
  from every_client_gets_its_own_verdict [OF s(1) this] a
  obtain v where "out = \<lparr>reply = with_length (jug_int_verdict_to_string v), reply_closed = True\<rparr>"
      "v = VERDICT_ACCEPTED \<longleftrightarrow> strip_LF ''3'' = strip_LF (filter (\<lambda>x. x \<noteq> CR) ''2'')"
    by (fastforce simp: pair_sub_def)
  then show ?thesis using s(1) a by (intro exI [of _ s] exI [of _ w] exI [of _ out] exI [of _ v]) (simp add: strip_LF_def)
qed

text \<open>C10: The daemon does not get stuck, as long as every connection that has arrived meets the conditions of \<open>admits\<close>: a
  judging request with inline data, without NUL bytes, with a non-empty source, shorter than 30 MB and not a multiple of
  1024 bytes long; a compiler whose command line fits and that writes only its result; a run, if the source compiles, that
  ends, with \<open>JS_CORRECT\<close> and without carriage returns in its output; no execution root file system, no showing of the output, and
  no call that fails; at most 24 workers. Then, left to themselves and with queue operations that do not overlap, the
  workers end after no more than seven steps for every connection in service and eight for every one in the
  queue, in whatever order they take them, and only when everything has been answered.\<close>

theorem every_connection_answered:
  assumes "daemon_reach n (serve env) job_outcome J_begin st0 s" "0 < n"
    and "\<forall>c \<in> set (arrived s). admits n p l st0 (env c) (sub c)"
  shows "(\<exists>s'. (worker_step n (serve env) job_outcome J_begin)\<^sup>*\<^sup>* s s' \<and>
      mset (map fst (answered s')) = mset (arrived s)) \<and>
    (\<forall>k s'. (worker_step n (serve env) job_outcome J_begin ^^ k) s s' \<longrightarrow> k \<le> steps_left n job_togo 6 s \<and>
      ((\<nexists>t. worker_step n (serve env) job_outcome J_begin s' t) \<longrightarrow> mset (map fst (answered s')) = mset (arrived s)))"
proof -
  have keeps: "serving.keeps n p l st0 env sub s"
    by (rule serving.reach_keeps [OF assms(1) ready_for_start assms(3)])
  have "k \<le> steps_left n job_togo 6 s \<and>
      ((\<nexists>t. worker_step n (serve env) job_outcome J_begin s' t) \<longrightarrow> mset (map fst (answered s')) = mset (arrived s))"
    if "(worker_step n (serve env) job_outcome J_begin ^^ k) s s'" for k s'
    using serving.workers_bounded [OF that keeps] serving.stuck_answered [OF _ assms(2)] by fastforce
  then show ?thesis using serving.workers_drain [OF keeps assms(2)] by blast
qed

theorem every_connection_answered_witness:
  "\<exists>s s'. daemon_reach 2 (serve pair_env) job_outcome J_begin sample_serv_state s \<and> arrived s = [1, 2] \<and>
     (worker_step 2 (serve pair_env) job_outcome J_begin)\<^sup>*\<^sup>* s s' \<and> mset (map fst (answered s')) = {#1, 2#}"
proof -
  obtain s where s: "daemon_reach 2 (serve pair_env) job_outcome J_begin sample_serv_state s" "arrived s = [1, 2]"
    by (rule pair_arrived)
  have "\<forall>c \<in> set (arrived s). admits 2 ''/r/m'' (hd (g_languages sample_langs)) sample_serv_state (pair_env c) (pair_sub c)"
    by (simp add: pair_admits)
  from every_connection_answered [OF s(1) _ this] s show ?thesis by auto
qed

end
