(* ===== verification/Service.thy ===== *)
theory Service
  imports Serving
begin

text \<open>
  What the daemon is from outside: connections come, and every one is told its verdict, in some order. The threads of
  \<open>Serving\<close> implement this service: every step of them is a step of the service or none at all. And they are
  tidy: whatever they make on the way is gone when nothing is in service any more.
\<close>

section \<open>The service\<close>

record 'c service =
  pending :: "'c set"
  told :: "('c \<times> string) list"

definition service_start :: "'c service" where
  "service_start = \<lparr>pending = {}, told = []\<rparr>"

text \<open>\<open>right c reply\<close>: the reply is one the connection may get.\<close>

inductive service_step :: "('c \<Rightarrow> string \<Rightarrow> bool) \<Rightarrow> 'c service \<Rightarrow> 'c service \<Rightarrow> bool" for right where
  submit: "c \<notin> pending v \<Longrightarrow> c \<notin> fst ` set (told v) \<Longrightarrow> service_step right v (v\<lparr>pending := insert c (pending v)\<rparr>)"
| tell: "c \<in> pending v \<Longrightarrow> right c r \<Longrightarrow>
    service_step right v (v\<lparr>pending := pending v - {c}, told := told v @ [(c, r)]\<rparr>)"

text \<open>What an observer sees of the threads, when \<open>show\<close> gives the bytes of an outcome.\<close>

definition service_of :: "('o \<Rightarrow> string) \<Rightarrow> ('c, 'j, 's, 'o) system \<Rightarrow> 'c service" where
  "service_of show s = \<lparr>pending = set (arrived s) - fst ` set (answered s),
     told = map (\<lambda>(c, w, out). (c, show out)) (answered s)\<rparr>"

lemma service_of_start [simp]: "service_of show (system_start st) = service_start"
  by (simp add: service_of_def system_start_def service_start_def)

lemma told_of [simp]: "fst ` set (told (service_of show s)) = fst ` set (answered s)"
  by (force simp: service_of_def)

lemma count_once:
  assumes "mset xs = A + B + mset ys" "distinct xs" "c \<in># B"
  shows "c \<in> set xs \<and> c \<notin> set ys"
proof -
  have "c \<in># mset xs" unfolding assms(1) using assms(3) by simp
  moreover have "count (mset xs) c \<le> 1" using assms(2) by (simp add: distinct_count_atmost_1)
  then have "count B c + count (mset ys) c \<le> 1" unfolding assms(1) by simp
  moreover have "1 \<le> count B c" using assms(3) by simp
  ultimately have "c \<in># mset xs" "count (mset ys) c = 0" by linarith+
  then show ?thesis by (simp add: count_mset_0_iff)
qed

context handlers
begin

lemma job_in_service: "w < n \<Longrightarrow> jobs s w = Some (c, j) \<Longrightarrow> c \<in># in_service n s"
  by (simp add: in_service_def sum.remove [of _ w])

lemma job_pending:
  assumes "keeps s" "jobs s w = Some (c, j)"
  shows "c \<in> set (arrived s) \<and> c \<notin> fst ` set (answered s)"
proof -
  have "w < n" using assms by (auto simp: keeps_def)
  then have "c \<in># in_service n s" using assms(2) by (rule job_in_service)
  moreover obtain ws where "mset (arrived s) = mset ws + in_service n s + mset (map fst (answered s))" "distinct (arrived s)"
    using assms(1) by (auto simp: keeps_def)
  ultimately have "c \<in> set (arrived s) \<and> c \<notin> set (map fst (answered s))" by (intro count_once)
  then show ?thesis by simp
qed

lemma step_refines:
  assumes "keeps s" "daemon_step n work outcome begin_job s s'" "\<forall>c \<in> set (arrived s'). good c"
    and right: "\<And>c w j st out. good c \<Longrightarrow> w < n \<Longrightarrow> fine st \<Longrightarrow> owns c w j st \<Longrightarrow> outcome j = Some out \<Longrightarrow> right c (show out)"
  shows "service_of show s' = service_of show s \<or> service_step right (service_of show s) (service_of show s')"
  using assms(2)
proof cases
  case (arrive a c q)
  have sub: "fst ` set (answered s) \<subseteq> set (arrived s)" using keeps_answered(2) [OF assms(1)] by force
  have eq: "service_of show s' = (service_of show s)\<lparr>pending := insert c (pending (service_of show s))\<rparr>"
    using arrive sub by (auto simp: service_of_def)
  show ?thesis unfolding eq
    by (rule disjI2, rule service_step.submit) (use arrive(4) sub in \<open>auto simp: service_of_def\<close>)
next
  case (arrive_fault a c e)
  obtain ws where "queue_holds (sq s) ws" using assms(1) by (auto simp: keeps_def)
  then show ?thesis using push_conn_at [of "sq s" ws a c] arrive_fault(3,5) by auto
next
  case by_worker
  then show ?thesis
  proof cases
    case (reply_job w c j out)
    have own: "w < n" "good c" "fine (shared s)" "owns c w j (shared s)" using assms(1) reply_job(4) by (auto simp: keeps_def)
    have "c \<in> pending (service_of show s)" using job_pending [OF assms(1) reply_job(4)] by (simp add: service_of_def)
    moreover have "right c (show out)" using right own reply_job(5) by blast
    moreover have "service_of show s' = (service_of show s)\<lparr>pending := pending (service_of show s) - {c},
        told := told (service_of show s) @ [(c, show out)]\<rparr>"
      using reply_job(1) by (auto simp: service_of_def)
    ultimately show ?thesis using service_step.tell by metis
  qed (auto simp: service_of_def)
qed

end

section \<open>Tidiness\<close>

text \<open>A contract on top of the other: \<open>differs\<close> is where the shared state is not what it was at the start, \<open>area\<close> what a
  handler answers for.\<close>

locale tidy_handlers = handlers n work outcome begin_job good fine owns togo
  for n :: nat
    and work :: "'c \<Rightarrow> nat \<Rightarrow> 'j \<Rightarrow> 's \<Rightarrow> ('j \<times> 's) option c_result"
    and outcome :: "'j \<Rightarrow> 'o option"
    and begin_job :: 'j
    and good :: "'c \<Rightarrow> bool"
    and fine :: "'s \<Rightarrow> bool"
    and owns :: "'c \<Rightarrow> nat \<Rightarrow> 'j \<Rightarrow> 's \<Rightarrow> bool"
    and togo :: "'j \<Rightarrow> nat" +
  fixes differs :: "'s \<Rightarrow> 'x set"
    and area :: "'c \<Rightarrow> nat \<Rightarrow> 'j \<Rightarrow> 'x set"
  assumes area_law: "outcome j = Some out \<Longrightarrow> area c w j = {}"
    and tidy_law: "good c \<Longrightarrow> w < n \<Longrightarrow> fine st \<Longrightarrow> owns c w j st \<Longrightarrow> work c w j st = Inr (Some (j', st')) \<Longrightarrow>
      differs st' \<subseteq> (differs st - area c w j) \<union> area c w j'"
begin

definition tidy :: "('c, 'j, 's, 'o) system \<Rightarrow> bool" where
  "tidy s \<longleftrightarrow> (\<forall>x \<in> differs (shared s). \<exists>w c j. jobs s w = Some (c, j) \<and> x \<in> area c w j)"

lemma tidy_same:
  assumes "tidy s" "shared s' = shared s"
    and "\<And>v c j x. jobs s v = Some (c, j) \<Longrightarrow> x \<in> area c v j \<Longrightarrow> jobs s' v = Some (c, j)"
  shows "tidy s'"
  using assms unfolding tidy_def by metis

lemma tidy_worker:
  assumes "worker_step n work outcome begin_job s s'" "keeps s" "tidy s"
  shows "tidy s'"
  using assms(1)
proof cases
  case (take_job w c q)
  then show ?thesis by (intro tidy_same [OF assms(3)]) auto
next
  case (work_job w c j j' st)
  have own: "w < n" "good c" "fine (shared s)" "owns c w j (shared s)" using assms(2) work_job(4) by (auto simp: keeps_def)
  have "\<exists>v c i. jobs s' v = Some (c, i) \<and> x \<in> area c v i" if "x \<in> differs st" for x
  proof (cases "x \<in> area c w j'")
    case True
    then show ?thesis using work_job(1) by auto
  next
    case False
    then have "x \<in> differs (shared s)" "x \<notin> area c w j" using tidy_law [OF own(2,1,3,4) work_job(6)] that by auto
    then obtain v c' i where "jobs s v = Some (c', i)" "x \<in> area c' v i" "v \<noteq> w"
      using assms(3) work_job(4) unfolding tidy_def by force
    then show ?thesis using work_job(1) by auto
  qed
  then show ?thesis using work_job(1) by (simp add: tidy_def)
next
  case (reply_job w c j out)
  then show ?thesis using area_law [OF reply_job(5)] by (intro tidy_same [OF assms(3)]) (auto split: if_splits)
qed (use assms(3) in \<open>auto simp: tidy_def\<close>)

lemma reach_tidy:
  "daemon_reach n work outcome begin_job st s \<Longrightarrow> fine st \<Longrightarrow> differs st = {} \<Longrightarrow> \<forall>c \<in> set (arrived s). good c \<Longrightarrow> tidy s"
proof (induction rule: daemon_reach.induct)
  case reach_start
  then show ?case by (simp add: tidy_def system_start_def)
next
  case (reach_step s s')
  have "set (arrived s) \<subseteq> set (arrived s')"
    using reach_step.hyps(2) by (auto elim!: daemon_stepE worker_stepE)
  then have "\<forall>c \<in> set (arrived s). good c" using reach_step.prems(3) by blast
  then have "tidy s" "keeps s"
    using reach_step.IH reach_step.prems reach_keeps [OF reach_step.hyps(1)] by auto
  with reach_step.hyps(2) show ?case
  proof cases
    case by_worker
    then show ?thesis by (rule tidy_worker) fact+
  qed (auto intro: tidy_same [OF \<open>tidy s\<close>])
qed

text \<open>When everything has been answered, nothing is left.\<close>

lemma answered_clean:
  assumes "keeps s" "tidy s" "mset (map fst (answered s)) = mset (arrived s)"
  shows "differs (shared s) = {}"
proof -
  have "jobs s w = None" for w
  proof (rule ccontr)
    assume "jobs s w \<noteq> None"
    then obtain c j where "jobs s w = Some (c, j)" by auto
    then show False using job_pending [OF assms(1)] mset_eq_setD [OF assms(3)] by auto
  qed
  then show ?thesis using assms(2) by (auto simp: tidy_def)
qed

end

section \<open>The daemon\<close>

text \<open>A reply the client of a connection may get.\<close>

definition right_reply :: "client_data \<Rightarrow> string \<Rightarrow> bool" where
  "right_reply sub r \<longleftrightarrow> (\<exists>v. r = with_length (jug_int_verdict_to_string v) \<and>
     (v = VERDICT_ACCEPTED \<longleftrightarrow> sub_compiles sub \<and>
        strip_LF (sub_prints sub) = strip_LF (filter (\<lambda>x. x \<noteq> CR) (sub_output sub))))"

definition files_changed :: "serv_state \<Rightarrow> serv_state \<Rightarrow> string set" where
  "files_changed st0 st = {q. sv_files st q \<noteq> sv_files st0 q}"

text \<open>Connections whose source compiles and whose files do not exist at the start.\<close>

definition cleanable :: "nat \<Rightarrow> string \<Rightarrow> Lang \<Rightarrow> serv_state \<Rightarrow> serv_env \<Rightarrow> client_data \<Rightarrow> bool" where
  "cleanable n p l st0 env sub \<longleftrightarrow> admits n p l st0 env sub \<and> sub_compiles sub \<and>
     (\<forall>w < n. \<forall>q \<in> own_files env p l (int w). sv_files st0 q = None)"

lemma good_step_tidy:
  assumes "good_step st0 env p l (int w) sub j st j' st'" "cleanable n p l st0 env sub" "w < n"
  shows "files_changed st0 st' \<subseteq> (files_changed st0 st - job_area env p (int w) j) \<union> job_area env p (int w) j'"
proof
  fix q
  assume q: "q \<in> files_changed st0 st'"
  show "q \<in> (files_changed st0 st - job_area env p (int w) j) \<union> job_area env p (int w) j'"
  proof (cases "q \<in> own_files env p l (int w)")
    case True
    then have "sv_files st0 q = None" using assms(2,3) by (auto simp: cleanable_def)
    then show ?thesis using q assms(1,2) True by (auto simp: files_changed_def good_step_def cleanable_def)
  next
    case False
    then show ?thesis
      using q assms(1) job_area_own [of env p "int w" j l] by (auto simp: files_changed_def good_step_def)
  qed
qed

interpretation tidy_serving: tidy_handlers n "serve env" job_outcome J_begin "\<lambda>c. cleanable n p l st0 (env c) (sub c)"
    "ready_for n p l st0 env sub" "\<lambda>c w j st. job_inv st0 (env c) p (int w) (sub c) j (sv_files st)" job_togo
    "files_changed st0" "\<lambda>c w. job_area (env c) p (int w)"
  for n env p l st0 sub
proof
  note ok = cleanable_def
  show "job_inv st0 (env c) p (int w) (sub c) J_begin (sv_files st)" for c w st by simp
  show "\<exists>j' st'. serve env c w j st = Inr (Some (j', st')) \<and> ready_for n p l st0 env sub st' \<and>
      job_inv st0 (env c) p (int w) (sub c) j' (sv_files st') \<and> job_togo j' < job_togo j"
    if "cleanable n p l st0 (env c) (sub c)" "w < n" "ready_for n p l st0 env sub st"
      "job_inv st0 (env c) p (int w) (sub c) j (sv_files st)" "job_outcome j = None" for c w st j
    using serving.work_law [of n p l st0 env c sub w st j] that by (simp add: ok)
  show "job_inv st0 (env c') p (int w') (sub c') i (sv_files st')"
    if "cleanable n p l st0 (env c) (sub c)" "w < n" "ready_for n p l st0 env sub st"
      "job_inv st0 (env c) p (int w) (sub c) j (sv_files st)" "serve env c w j st = Inr (Some (j', st'))" "w' \<noteq> w" "w' < n"
      "cleanable n p l st0 (env c') (sub c')" "job_inv st0 (env c') p (int w') (sub c') i (sv_files st)"
    for c w st j j' st' w' c' i
    using serving.frame_law [of n p l st0 env c sub w st j j' st' w' c' i] that by (simp add: ok)
  show "job_area (env c) p (int w) j = {}" if "job_outcome j = Some out" for j out c w
    using that by (simp add: job_outcome_iff)
  show "files_changed st0 st' \<subseteq> (files_changed st0 st - job_area (env c) p (int w) j) \<union> job_area (env c) p (int w) j'"
    if good: "cleanable n p l st0 (env c) (sub c)" "w < n" "ready_for n p l st0 env sub st"
      "job_inv st0 (env c) p (int w) (sub c) j (sv_files st)" and step: "serve env c w j st = Inr (Some (j', st'))"
    for c w st j j' st'
  proof -
    have "admits n p l st0 (env c) (sub c)" using good(1) by (simp add: ok)
    moreover have "job_outcome j = None" using step by (cases j) (simp_all add: serve_def)
    ultimately obtain j1 st1 where "good_step st0 (env c) p l (int w) (sub c) j st j1 st1"
      using good_serve [where env = env and sub = sub] good(2-4) by metis
    moreover from this have "j1 = j'" "st1 = st'" using step by (simp_all add: good_step_def serve_def)
    ultimately show ?thesis using good_step_tidy good(1,2) by blast
  qed
qed

section \<open>Properties\<close>

text \<open>C3: The daemon implements the service as long as every connection that arrives meets the conditions of \<open>admits\<close>: a
  judging request with inline data (not by reference), without NUL bytes, with a non-empty source, shorter than 30 MB and
  not a multiple of 1024 bytes long; a compiler whose command line fits and that writes only its result; a run, if the
  source compiles, whose watcher ends with \<open>JS_CORRECT\<close> and whose output has no carriage return; no execution root
  file system, no showing of the output, and no call that fails; at most 24 workers. Then in every state the threads can reach, by any
  interleaving of their steps, where a push to the queue and a take from it are one step each, and for every
  step from it, what an outside observer sees of the step is nothing at all, or a connection that comes, or
  one connection that had been waiting and is told, once, a reply that is right for it.\<close>

theorem daemon_refines_service:
  assumes "daemon_reach n (serve env) job_outcome J_begin st0 s" "daemon_step n (serve env) job_outcome J_begin s s'"
    and "\<forall>c \<in> set (arrived s'). admits n p l st0 (env c) (sub c)"
  shows "service_of reply s' = service_of reply s \<or>
    service_step (\<lambda>c. right_reply (sub c)) (service_of reply s) (service_of reply s')"
proof -
  have "set (arrived s) \<subseteq> set (arrived s')" using assms(2) by (auto elim!: daemon_stepE worker_stepE)
  then have "\<forall>c \<in> set (arrived s). admits n p l st0 (env c) (sub c)" using assms(3) by blast
  then have keeps: "serving.keeps n p l st0 env sub s" by (rule serving.reach_keeps [OF assms(1) ready_for_start])
  have "right_reply (sub c) (reply out)"
    if "admits n p l st0 (env c) (sub c)" "w < n" "job_inv st0 (env c) p (int w) (sub c) j (sv_files st)" "job_outcome j = Some out"
    for c w j st out
    using alone_verdict [OF that(1,2)] that(3,4) by (fastforce simp: job_outcome_iff right_reply_def)
  then show ?thesis
    by (intro serving.step_refines [where right = "\<lambda>c. right_reply (sub c)", OF keeps assms(2,3)])
qed

theorem daemon_refines_service_witness:
  "\<exists>s s'. daemon_reach 2 (serve pair_env) job_outcome J_begin sample_serv_state s \<and>
    daemon_step 2 (serve pair_env) job_outcome J_begin s s' \<and>
    (service_of reply s' = service_of reply s \<or>
     service_step (\<lambda>c. right_reply (pair_sub c)) (service_of reply s) (service_of reply s'))"
proof -
  obtain s where s: "daemon_reach 2 (serve pair_env) job_outcome J_begin sample_serv_state s"
      "set (map fst (answered s)) = {1, 2}"
    using pair_answered by blast
  then have "s \<noteq> system_start sample_serv_state" by (auto simp: system_start_def)
  with s(1) obtain s0 where "daemon_reach 2 (serve pair_env) job_outcome J_begin sample_serv_state s0"
      "daemon_step 2 (serve pair_env) job_outcome J_begin s0 s"
    by (auto elim: daemon_reach.cases)
  then show ?thesis using daemon_refines_service pair_admits by blast
qed

text \<open>C11: No file is left behind by connections that are \<open>cleanable\<close>: they meet the conditions of \<open>admits\<close> (a judging request
  with inline data, without NUL bytes, with a non-empty source, shorter than 30 MB and not a multiple of 1024 bytes
  long; a compiler that writes only its result; a run whose watcher ends with \<open>JS_CORRECT\<close> and whose output
  has no carriage return; no execution root file system, no showing of the output, no call that fails, in particular
  no write to a feed file; at most 24 workers), their source compiles, and the files of the workers do not exist at the start. Then, however the
  workers are interleaved, with queue operations that do not overlap, as soon as every connection that has arrived
  is answered, the files are exactly those of the start; and at any time before, a file that is new or changed is one of
  a worker that is serving. A source that does not compile leaves its three files.\<close>

theorem no_file_left_behind:
  assumes "daemon_reach n (serve env) job_outcome J_begin st0 s"
    and "\<forall>c \<in> set (arrived s). cleanable n p l st0 (env c) (sub c)"
  shows "(\<forall>q. sv_files (shared s) q \<noteq> sv_files st0 q \<longrightarrow>
      (\<exists>w < n. \<exists>c j. jobs s w = Some (c, j) \<and> q \<in> own_files (env c) p l (int w))) \<and>
    (mset (map fst (answered s)) = mset (arrived s) \<longrightarrow> sv_files (shared s) = sv_files st0)"
proof -
  have keeps: "tidy_serving.keeps n p l st0 env sub s"
    by (rule tidy_serving.reach_keeps [OF assms(1) ready_for_start assms(2)])
  have tidy: "tidy_serving.tidy st0 env p s"
    by (rule tidy_serving.reach_tidy [OF assms(1) ready_for_start _ assms(2)]) (simp add: files_changed_def)
  have "\<exists>w < n. \<exists>c j. jobs s w = Some (c, j) \<and> q \<in> own_files (env c) p l (int w)"
    if changed: "sv_files (shared s) q \<noteq> sv_files st0 q" for q
  proof -
    obtain w c j where "jobs s w = Some (c, j)" "q \<in> job_area (env c) p (int w) j"
      using tidy changed by (auto simp: tidy_serving.tidy_def files_changed_def)
    moreover from this have "w < n" using keeps by (auto simp: tidy_serving.keeps_def)
    ultimately show ?thesis using job_area_own by blast
  qed
  moreover have "sv_files (shared s) = sv_files st0" if "mset (map fst (answered s)) = mset (arrived s)"
    using tidy_serving.answered_clean [OF keeps tidy that] by (auto simp: files_changed_def)
  ultimately show ?thesis by blast
qed

theorem no_file_left_behind_witness:
  "\<exists>s. daemon_reach 2 (serve pair_env) job_outcome J_begin sample_serv_state s \<and>
    mset (map fst (answered s)) = {#1, 2#} \<and> sv_files (shared s) = Map.empty"
proof -
  let ?l = "hd (g_languages sample_langs)"
  obtain s0 where s0: "daemon_reach 2 (serve pair_env) job_outcome J_begin sample_serv_state s0" "arrived s0 = [1, 2 :: nat]"
    by (rule pair_arrived)
  have "serving.keeps 2 ''/r/m'' ?l sample_serv_state pair_env pair_sub s0"
    by (rule serving.reach_keeps [OF s0(1) ready_for_start]) (simp add: pair_admits)
  then obtain s where s: "(worker_step 2 (serve pair_env) job_outcome J_begin)\<^sup>*\<^sup>* s0 s"
      "mset (map fst (answered s)) = mset (arrived s0)"
    using serving.workers_drain by force
  have r: "daemon_reach 2 (serve pair_env) job_outcome J_begin sample_serv_state s" by (rule reach_workers [OF s(1) s0(1)])
  have "arrived s = arrived s0" using s(1) by (induction rule: rtranclp_induct) (auto elim!: worker_stepE)
  moreover have "\<forall>c \<in> set (arrived s). cleanable 2 ''/r/m'' ?l sample_serv_state (pair_env c) (pair_sub c)"
    by (simp add: cleanable_def pair_admits) (simp add: pair_sub_def sample_serv_state_def)
  ultimately show ?thesis
    using no_file_left_behind [OF r] r s(2) s0(2) by (intro exI [of _ s]) (simp add: sample_serv_state_def)
qed

end
