(* ===== verification/Pmparser.thy ===== *)
theory Pmparser
  imports Prelude_C
begin

text \<open>
  The parser of \<open>/proc/<pid>/maps\<close> (\<open>src/proc_maps_parser/pmparser.c\<close>): splitting a line into its fields, reading the
  file into a linked list, iterating over the list and freeing it. The local arrays of \<open>pmparser_parse\<close> keep
  what the previous line left in them, and the nodes live in a heap of addresses, because both matter
  for lines and files of unusual shape.
\<close>

section \<open>Fields\<close>

text \<open>A loop that copies bytes up to one that satisfies \<open>stop\<close> into an array with \<open>room\<close> bytes left, and terminates it.
  The terminator of the line does not stop it.\<close>

fun take_until :: "(char \<Rightarrow> bool) \<Rightarrow> nat \<Rightarrow> ptr \<Rightarrow> (string \<times> ptr) c_result" where
  "take_until stop room [] = Inl Out_of_bounds"
| "take_until stop 0 (c # p) = Inl Buffer_overflow"
| "take_until stop (Suc room) (c # p) =
     (if stop c then Inr ([], c # p)
      else c_then (take_until stop room p) (\<lambda>(s, q). Inr (c # s, q)))"

definition is_gap :: "char \<Rightarrow> bool" where
  "is_gap c \<longleftrightarrow> c = TAB \<or> c = SPACE"

fun skip_gap :: "ptr \<Rightarrow> ptr c_result" where
  "skip_gap [] = Inl Out_of_bounds"
| "skip_gap (c # p) = (if is_gap c then skip_gap p else Inr (c # p))"

record map_line =
  l_addr1 :: string
  l_addr2 :: string
  l_perm :: string
  l_offset :: string
  l_dev :: string
  l_inode :: string
  l_pathname :: string

text \<open>The arrays have 20, 20, 8, 20, 10, 30 and 600 bytes.\<close>

definition pmparser_split_line :: "ptr \<Rightarrow> map_line c_result" where
  "pmparser_split_line buf =
     c_then (take_until (\<lambda>c. c = CHR ''-'') 20 buf) (\<lambda>(addr1, p).
     c_then (take_until is_gap 20 (tl p)) (\<lambda>(addr2, p).
     c_then (skip_gap p) (\<lambda>p. c_then (take_until is_gap 8 p) (\<lambda>(perm, p).
     c_then (skip_gap p) (\<lambda>p. c_then (take_until is_gap 20 p) (\<lambda>(offset, p).
     c_then (skip_gap p) (\<lambda>p. c_then (take_until is_gap 10 p) (\<lambda>(device, p).
     c_then (skip_gap p) (\<lambda>p. c_then (take_until is_gap 30 p) (\<lambda>(inode, p).
     c_then (skip_gap p) (\<lambda>p. c_then (take_until (\<lambda>c. is_gap c \<or> c = LF) 600 p) (\<lambda>(pathname, p).
       Inr \<lparr>l_addr1 = addr1, l_addr2 = addr2, l_perm = perm, l_offset = offset, l_dev = device,
         l_inode = inode, l_pathname = pathname\<rparr>))))))))))))"

section \<open>Hexadecimal numbers\<close>

definition hex_digit :: "char \<Rightarrow> nat option" where
  "hex_digit c = (let k = of_char c in
     if 48 \<le> k \<and> k \<le> 57 then Some (k - 48)
     else if 97 \<le> k \<and> k \<le> 102 then Some (k - 87)
     else if 65 \<le> k \<and> k \<le> 70 then Some (k - 55) else None)"

fun hex_digits :: "nat \<Rightarrow> string \<Rightarrow> nat" where
  "hex_digits acc [] = acc"
| "hex_digits acc (c # s) = (case hex_digit c of None \<Rightarrow> acc | Some d \<Rightarrow> hex_digits (16 * acc + d) s)"

text \<open>\<open>sscanf(s, "%lx")\<close>: white space, a sign, the prefix \<open>0x\<close>, digits; cut off at the largest \<open>unsigned long\<close>. \<open>None\<close> when
  there is no digit and nothing is stored.\<close>

definition scan_unsigned :: "string \<Rightarrow> size_t option" where
  "scan_unsigned s =
     (let t = (if take 2 s \<in> {''0x'', ''0X''} then drop 2 s else s) in
      if t = [] \<or> hex_digit (hd t) = None then None
      else Some (of_nat (min (2 ^ 64 - 1) (hex_digits 0 t))))"

definition scan_hex :: "string \<Rightarrow> size_t option" where
  "scan_hex s = (case dropWhile is_space s of
       [] \<Rightarrow> None
     | c # t \<Rightarrow> if c = CHR ''-'' then map_option uminus (scan_unsigned t)
         else if c = CHR ''+'' then scan_unsigned t else scan_unsigned (c # t))"

section \<open>The list\<close>

record procmaps_struct =
  addr_start :: size_t
  addr_end :: size_t
  area_length :: size_t
  perm :: string
  is_r :: bool
  is_w :: bool
  is_x :: bool
  is_p :: bool
  area_offset :: "size_t option"
  dev :: string
  inode :: int
  pathname :: string
  next_area :: "nat option"

text \<open>\<open>pm_buf\<close> is \<open>buf[3000]\<close>, \<open>pm_perm\<close> the local \<open>perm[8]\<close>.\<close>

record pm_state =
  pm_buf :: string
  pm_perm :: string
  pm_nodes :: "nat \<rightharpoonup> procmaps_struct"
  pm_head :: "nat option"
  pm_node :: "nat option"
  pm_ind :: nat

text \<open>\<open>fgets(buf+1,259,file)\<close> and \<open>buf[0]=c\<close>. At the end of the file \<open>fgets\<close> leaves the array as it is.\<close>

definition pm_fgets :: "char \<Rightarrow> string \<Rightarrow> string \<Rightarrow> string \<times> string" where
  "pm_fgets c file_rest buf =
     (let t = take 258 file_rest;
          k = (case find_sub [LF] t of Some i \<Rightarrow> i + 1 | None \<Rightarrow> length t) in
      if file_rest = [] then (c # tl buf, [])
      else (c # take k t @ NUL # drop (k + 2) buf, drop k file_rest))"

definition fill_node :: "map_line \<Rightarrow> string \<Rightarrow> procmaps_struct c_result" where
  "fill_node l perm_array = (case (scan_hex (l_addr1 l), scan_hex (l_addr2 l)) of
       (Some a, Some b) \<Rightarrow>
         if length (l_perm l) + 1 > 5 then Inl Buffer_overflow
         else Inr \<lparr>addr_start = a, addr_end = b, area_length = b - a, perm = l_perm l,
           is_r = (perm_array ! 0 = CHR ''r''), is_w = (perm_array ! 1 = CHR ''w''),
           is_x = (perm_array ! 2 = CHR ''x''), is_p = (perm_array ! 3 = CHR ''p''),
           area_offset = scan_hex (l_offset l), dev = l_dev l, inode = atoi_str (l_inode l), pathname = l_pathname l,
           next_area = None\<rparr>
     | _ \<Rightarrow> Inl Uninitialised)"

text \<open>The node is stored at \<open>a\<close>. The first one becomes the head and the current node, and then its own successor; a
  second one corrects this.\<close>

definition attach :: "nat \<Rightarrow> procmaps_struct \<Rightarrow> pm_state \<Rightarrow> pm_state c_result" where
  "attach a n st =
     (let st1 = st\<lparr>pm_nodes := (pm_nodes st)(a \<mapsto> n)\<rparr>;
          st2 = (if pm_ind st1 = 0 then st1\<lparr>pm_head := Some a, pm_node := Some a\<rparr> else st1) in
      case pm_node st2 of
        None \<Rightarrow> Inl Null_deref
      | Some cur \<Rightarrow> (case pm_nodes st2 cur of
          None \<Rightarrow> Inl Use_after_free
        | Some m \<Rightarrow> Inr (st2\<lparr>pm_nodes := (pm_nodes st2)(cur \<mapsto> m\<lparr>next_area := Some a\<rparr>), pm_node := Some a,
            pm_ind := pm_ind st2 + 1\<rparr>)))"

text \<open>The body of the loop for a line that starts with \<open>c\<close>.\<close>

definition pm_line :: "nat option \<Rightarrow> char \<Rightarrow> string \<Rightarrow> pm_state \<Rightarrow> (string \<times> pm_state) c_result" where
  "pm_line addr c rest st = (case pm_fgets c rest (pm_buf st) of (buf, rest') \<Rightarrow>
     c_then (pmparser_split_line buf) (\<lambda>l.
       let perm_array = l_perm l @ NUL # drop (length (l_perm l) + 1) (pm_perm st) in
       case addr of
         None \<Rightarrow> Inl Null_deref
       | Some a \<Rightarrow> c_then (fill_node l perm_array) (\<lambda>n.
           c_then (attach a n (st\<lparr>pm_buf := buf, pm_perm := perm_array\<rparr>)) (\<lambda>st'. Inr (rest', st')))))"

lemma pm_fgets_shorter: "pm_fgets c rest buf = (buf', rest') \<Longrightarrow> length rest' \<le> length rest"
  by (auto simp: pm_fgets_def Let_def split: if_splits option.splits)

lemma pm_line_shorter: "pm_line addr c rest st = Inr (rest', st') \<Longrightarrow> length rest' \<le> length rest"
  by (auto simp: pm_line_def Let_def c_cases dest: pm_fgets_shorter)

text \<open>\<open>addr k\<close> is what the \<open>k\<close>-th \<open>malloc\<close> returns. The byte 255 is taken for the end of the file, since \<open>c\<close> is a \<open>char\<close>.\<close>

function pm_loop :: "(nat \<Rightarrow> nat option) \<Rightarrow> string \<Rightarrow> pm_state \<Rightarrow> pm_state c_result" where
  "pm_loop addr [] st = Inr st"
| "pm_loop addr (c # rest) st =
     (if c = CHR 0xFF then Inr st
      else c_then (pm_line (addr (pm_ind st)) c rest st) (\<lambda>(rest', st'). pm_loop addr rest' st'))"
  by pat_completeness auto
termination
  by (relation "measure (\<lambda>(addr, file, st). length file)") (auto dest: pm_line_shorter)

record pm_globals =
  g_last_head :: "nat option"
  g_current :: "nat option"

text \<open>The file as \<open>fopen\<close> finds it; \<open>buf0\<close> and \<open>perm0\<close> are what the fresh arrays hold.\<close>

definition pmparser_parse ::
  "(nat \<Rightarrow> nat option) \<Rightarrow> string \<Rightarrow> string \<Rightarrow> string option \<Rightarrow> pm_globals \<Rightarrow> (nat \<rightharpoonup> procmaps_struct) \<Rightarrow>
     (nat option \<times> pm_globals \<times> (nat \<rightharpoonup> procmaps_struct)) c_result" where
  "pmparser_parse addr buf0 perm0 file g h = (case file of
       None \<Rightarrow> Inr (None, g, h)
     | Some s \<Rightarrow> c_then (pm_loop addr s \<lparr>pm_buf = buf0, pm_perm = perm0, pm_nodes = h, pm_head = None, pm_node = None, pm_ind = 0\<rparr>)
         (\<lambda>st. Inr (pm_head st, g\<lparr>g_last_head := pm_head st\<rparr>, pm_nodes st)))"

definition pmparser_next :: "(nat \<rightharpoonup> procmaps_struct) \<Rightarrow> pm_globals \<Rightarrow> (nat option \<times> pm_globals) c_result" where
  "pmparser_next h g = (case g_last_head g of
       None \<Rightarrow> Inr (None, g)
     | Some first \<Rightarrow> (case g_current g of
           None \<Rightarrow> Inr (Some first, g\<lparr>g_current := Some first\<rparr>)
         | Some a \<Rightarrow> (case h a of
             None \<Rightarrow> Inl Use_after_free
           | Some n \<Rightarrow> Inr (next_area n, g\<lparr>g_current := next_area n\<rparr>))))"

text \<open>The loop of \<open>pmparser_free\<close>, with one unit of fuel for each node it frees. A node that is freed is no longer in
  the heap.\<close>

fun free_loop :: "nat \<Rightarrow> nat option \<Rightarrow> nat option \<Rightarrow> (nat \<rightharpoonup> procmaps_struct) \<Rightarrow> (nat \<rightharpoonup> procmaps_struct) option c_result" where
  "free_loop fuel None nxt h = Inr (Some h)"
| "free_loop 0 (Some a) nxt h = Inr None"
| "free_loop (Suc fuel) (Some a) nxt h =
     (if h a = None then Inl Use_after_free
      else let h' = h(a := None) in
        (case nxt of
           None \<Rightarrow> free_loop fuel None None h'
         | Some b \<Rightarrow> (case h' b of
             None \<Rightarrow> Inl Use_after_free
           | Some n \<Rightarrow> free_loop fuel (Some b) (next_area n) h')))"

definition pmparser_free :: "nat \<Rightarrow> nat option \<Rightarrow> (nat \<rightharpoonup> procmaps_struct) \<Rightarrow> (nat \<rightharpoonup> procmaps_struct) option c_result" where
  "pmparser_free fuel maps_list h = (case maps_list of
       None \<Rightarrow> Inr (Some h)
     | Some a \<Rightarrow> (case h a of None \<Rightarrow> Inl Use_after_free | Some n \<Rightarrow> free_loop fuel (Some a) (next_area n) h))"

section \<open>Laws\<close>

text \<open>A line as the kernel prints it: the fields, one space after each, and any number of spaces before the path.\<close>

definition print_line :: "nat \<Rightarrow> map_line \<Rightarrow> string" where
  "print_line pad l = l_addr1 l @ ''-'' @ l_addr2 l @ '' '' @ l_perm l @ '' '' @ l_offset l @ '' '' @ l_dev l @ '' '' @
     l_inode l @ '' '' @ replicate pad SPACE @ l_pathname l @ [LF]"

definition plain_field :: "nat \<Rightarrow> string \<Rightarrow> bool" where
  "plain_field n s \<longleftrightarrow> s \<noteq> [] \<and> length s < n \<and> (\<forall>c \<in> set s. \<not> is_gap c)"

definition line_ok :: "map_line \<Rightarrow> bool" where
  "line_ok l \<longleftrightarrow> length (l_addr1 l) < 20 \<and> CHR ''-'' \<notin> set (l_addr1 l) \<and> plain_field 20 (l_addr2 l) \<and>
     plain_field 8 (l_perm l) \<and> plain_field 20 (l_offset l) \<and> plain_field 10 (l_dev l) \<and> plain_field 30 (l_inode l) \<and>
     length (l_pathname l) < 600 \<and> (\<forall>c \<in> set (l_pathname l). \<not> is_gap c \<and> c \<noteq> LF)"

lemma take_until_at:
  "\<forall>c \<in> set s. \<not> stop c \<Longrightarrow> stop d \<Longrightarrow> length s < room \<Longrightarrow> take_until stop room (s @ d # r) = Inr (s, d # r)"
proof (induction s arbitrary: room)
  case Nil
  then show ?case by (cases room) simp_all
next
  case (Cons c s)
  then show ?case by (cases room) simp_all
qed

lemma skip_gap_at: "\<not> is_gap c \<Longrightarrow> skip_gap (replicate n SPACE @ c # r) = Inr (c # r)"
  by (induction n) (simp_all add: is_gap_def)

lemma field_at:
  assumes "plain_field room s"
  shows "c_then (skip_gap (SPACE # s @ SPACE # r)) (\<lambda>p. c_then (take_until is_gap room p) f) = f (s, SPACE # r)"
proof -
  obtain c t where s: "s = c # t" "\<not> is_gap c" using assms by (cases s) (auto simp: plain_field_def)
  then have "skip_gap (SPACE # s @ SPACE # r) = Inr (s @ SPACE # r)"
    using skip_gap_at [of c 1 "t @ SPACE # r"] by simp
  moreover have "take_until is_gap room (s @ SPACE # r) = Inr (s, SPACE # r)"
    by (rule take_until_at) (use assms in \<open>auto simp: plain_field_def is_gap_def\<close>)
  ultimately show ?thesis by simp
qed

lemma path_at:
  assumes "length s < 600" "\<forall>c \<in> set s. \<not> is_gap c \<and> c \<noteq> LF"
  shows "c_then (skip_gap (SPACE # replicate pad SPACE @ s @ LF # r)) (\<lambda>p. c_then (take_until (\<lambda>c. is_gap c \<or> c = LF) 600 p) f) =
    f (s, LF # r)"
proof -
  have gap: "skip_gap (SPACE # replicate pad SPACE @ s @ LF # r) = Inr (s @ LF # r)"
  proof (cases s)
    case Nil
    then show ?thesis using skip_gap_at [of LF "Suc pad" r] by (simp add: is_gap_def)
  next
    case (Cons c t)
    then show ?thesis using skip_gap_at [of c "Suc pad" "t @ LF # r"] assms(2) by simp
  qed
  have "take_until (\<lambda>c. is_gap c \<or> c = LF) 600 (s @ LF # r) = Inr (s, LF # r)"
    by (rule take_until_at) (use assms in auto)
  then show ?thesis using gap by simp
qed

lemma split_line_print:
  assumes "line_ok l"
  shows "pmparser_split_line (print_line pad l @ r) = Inr l"
proof -
  have "take_until (\<lambda>c. c = CHR ''-'') 20 (l_addr1 l @ CHR ''-'' # q) = Inr (l_addr1 l, CHR ''-'' # q)" for q
    by (rule take_until_at) (use assms in \<open>auto simp: line_ok_def\<close>)
  moreover have "take_until is_gap 20 (l_addr2 l @ SPACE # q) = Inr (l_addr2 l, SPACE # q)" for q
    by (rule take_until_at) (use assms in \<open>auto simp: line_ok_def plain_field_def is_gap_def\<close>)
  ultimately show ?thesis
    using assms
    by (cases l) (simp add: pmparser_split_line_def print_line_def line_ok_def field_at path_at del: skip_gap.simps)
qed

text \<open>The node of a line.\<close>

definition node_of :: "map_line \<Rightarrow> procmaps_struct" where
  "node_of l = \<lparr>addr_start = the (scan_hex (l_addr1 l)), addr_end = the (scan_hex (l_addr2 l)),
     area_length = the (scan_hex (l_addr2 l)) - the (scan_hex (l_addr1 l)), perm = l_perm l,
     is_r = (l_perm l ! 0 = CHR ''r''), is_w = (l_perm l ! 1 = CHR ''w''), is_x = (l_perm l ! 2 = CHR ''x''),
     is_p = (l_perm l ! 3 = CHR ''p''), area_offset = scan_hex (l_offset l), dev = l_dev l,
     inode = atoi_str (l_inode l), pathname = l_pathname l, next_area = None\<rparr>"

text \<open>A line of the kernel: four letters of permissions, addresses that are numbers, and no more than the 259 bytes
  the parser reads.\<close>

definition kernel_line :: "nat \<Rightarrow> map_line \<Rightarrow> bool" where
  "kernel_line pad l \<longleftrightarrow> line_ok l \<and> length (l_perm l) = 4 \<and> scan_hex (l_addr1 l) \<noteq> None \<and> scan_hex (l_addr2 l) \<noteq> None \<and>
     l_addr1 l \<noteq> [] \<and> hd (l_addr1 l) \<noteq> CHR 0xFF \<and> LF \<notin> set (tl (butlast (print_line pad l))) \<and> length (print_line pad l) \<le> 259"

lemma fill_node_kernel:
  "kernel_line pad l \<Longrightarrow> fill_node l (l_perm l @ NUL # r) = Inr (node_of l)"
  by (auto simp: kernel_line_def fill_node_def node_of_def nth_append)

lemma fgets_line:
  assumes "kernel_line pad l"
  obtains c t where "print_line pad l = c # t" "c \<noteq> CHR 0xFF"
    "\<exists>junk. pm_fgets c (t @ rest) buf = (print_line pad l @ NUL # junk, rest)"
proof -
  obtain c s where s: "l_addr1 l = c # s" "c \<noteq> CHR 0xFF" using assms by (cases "l_addr1 l") (auto simp: kernel_line_def)
  then obtain u where u: "print_line pad l = c # u @ [LF]" by (simp add: print_line_def)
  then have lf: "LF \<notin> set u" "length u \<le> 257" using assms by (simp_all add: kernel_line_def butlast_append)
  have "take 258 ((u @ [LF]) @ rest) = u @ LF # take (257 - length u) rest" using lf(2) by (simp add: take_Cons')
  then have "pm_fgets c ((u @ [LF]) @ rest) buf = (c # (u @ [LF]) @ NUL # drop (length u + 1 + 2) buf, rest)"
    using find_sub_char [OF lf(1)] by (simp add: pm_fgets_def Let_def)
  then show thesis using that [of c "u @ [LF]"] u s(2) by auto
qed

lemma pm_line_kernel:
  assumes "kernel_line pad l"
  obtains c t buf p where "print_line pad l = c # t" "c \<noteq> CHR 0xFF"
    "pm_line (Some a) c (t @ rest) st =
       c_then (attach a (node_of l) (st\<lparr>pm_buf := buf, pm_perm := p\<rparr>)) (\<lambda>st'. Inr (rest, st'))"
proof -
  obtain c t r where t: "print_line pad l = c # t" "c \<noteq> CHR 0xFF"
      "pm_fgets c (t @ rest) (pm_buf st) = (print_line pad l @ NUL # r, rest)"
    using fgets_line [OF assms] by metis
  have "pmparser_split_line (print_line pad l @ NUL # r) = Inr l"
    using split_line_print [of l] assms by (simp add: kernel_line_def)
  then have "pm_line (Some a) c (t @ rest) st =
      c_then (attach a (node_of l) (st\<lparr>pm_buf := print_line pad l @ NUL # r,
        pm_perm := l_perm l @ NUL # drop (length (l_perm l) + 1) (pm_perm st)\<rparr>)) (\<lambda>st'. Inr (rest, st'))"
    by (simp add: pm_line_def t(3) Let_def fill_node_kernel [OF assms])
  then show thesis by (rule that [OF t(1,2)])
qed

text \<open>The list after \<open>k\<close> lines: each node is linked to the next one; with a single node, to itself.\<close>

definition linked :: "(nat \<Rightarrow> nat) \<Rightarrow> map_line list \<Rightarrow> (nat \<rightharpoonup> procmaps_struct) \<Rightarrow> bool" where
  "linked ad ls h \<longleftrightarrow> (\<forall>i < length ls. h (ad i) = Some ((node_of (ls ! i))\<lparr>next_area :=
     if Suc i < length ls then Some (ad (Suc i)) else if length ls = 1 then Some (ad 0) else None\<rparr>))"

definition pm_inv :: "(nat \<Rightarrow> nat) \<Rightarrow> map_line list \<Rightarrow> pm_state \<Rightarrow> bool" where
  "pm_inv ad ls st \<longleftrightarrow> pm_ind st = length ls \<and> linked ad ls (pm_nodes st) \<and>
     pm_head st = (if ls = [] then None else Some (ad 0)) \<and>
     pm_node st = (if ls = [] then None else Some (ad (length ls - 1)))"

lemma attach_inv:
  assumes "pm_inv ad ls st" "inj ad"
  shows "\<exists>st'. attach (ad (length ls)) (node_of l) st = Inr st' \<and> pm_inv ad (ls @ [l]) st'"
proof (cases "ls = []")
  case True
  then show ?thesis using assms by (simp add: pm_inv_def attach_def linked_def Let_def)
next
  case False
  define k where "k = length ls - 1"
  have k: "length ls = Suc k" using False by (simp add: k_def)
  have ne: "ad i = ad j \<longleftrightarrow> i = j" for i j using assms(2) by (simp add: inj_eq)
  have "pm_nodes st (ad k) = Some ((node_of (ls ! k))\<lparr>next_area := if k = 0 then Some (ad 0) else None\<rparr>)"
    using assms(1) k by (simp add: pm_inv_def linked_def)
  moreover define h where "h = (pm_nodes st)(ad (Suc k) \<mapsto> node_of l, ad k \<mapsto> (node_of (ls ! k))\<lparr>next_area := Some (ad (Suc k))\<rparr>)"
  ultimately have "attach (ad (length ls)) (node_of l) st =
      Inr (st\<lparr>pm_nodes := h, pm_node := Some (ad (Suc k)), pm_ind := Suc (Suc k)\<rparr>)"
    using assms(1) k False by (simp add: pm_inv_def attach_def Let_def ne)
  moreover have "linked ad (ls @ [l]) h"
    unfolding linked_def
  proof (intro allI impI)
    fix i
    assume "i < length (ls @ [l])"
    then consider "i < k" | "i = k" | "i = Suc k" using k by force
    then show "h (ad i) = Some ((node_of ((ls @ [l]) ! i))\<lparr>next_area := if Suc i < length (ls @ [l]) then Some (ad (Suc i))
        else if length (ls @ [l]) = 1 then Some (ad 0) else None\<rparr>)"
      using assms(1) k by cases (simp_all add: h_def ne pm_inv_def linked_def nth_append node_of_def)
  qed
  ultimately show ?thesis using assms(1) k False by (simp add: pm_inv_def)
qed

lemma pm_loop_lines:
  assumes "inj ad"
  shows "pm_inv ad done st \<Longrightarrow> \<forall>(pad, l) \<in> set ls. kernel_line pad l \<Longrightarrow>
    \<exists>st'. pm_loop (\<lambda>k. Some (ad k)) (concat (map (\<lambda>(pad, l). print_line pad l) ls)) st = Inr st' \<and> pm_inv ad (done @ map snd ls) st'"
proof (induction ls arbitrary: "done" st)
  case (Cons pl ls)
  obtain pad l where pl: "pl = (pad, l)" by (cases pl)
  let ?rest = "concat (map (\<lambda>(pad, l). print_line pad l) ls)"
  have "kernel_line pad l" using Cons.prems(2) pl by simp
  then obtain c t buf p where t: "print_line pad l = c # t" "c \<noteq> CHR 0xFF"
      "pm_line (Some (ad (length done))) c (t @ ?rest) st =
         c_then (attach (ad (length done)) (node_of l) (st\<lparr>pm_buf := buf, pm_perm := p\<rparr>)) (\<lambda>st'. Inr (?rest, st'))"
    by (rule pm_line_kernel)
  have "pm_inv ad done (st\<lparr>pm_buf := buf, pm_perm := p\<rparr>)" using Cons.prems(1) by (simp add: pm_inv_def)
  then obtain st1 where st1: "attach (ad (length done)) (node_of l) (st\<lparr>pm_buf := buf, pm_perm := p\<rparr>) = Inr st1"
      "pm_inv ad (done @ [l]) st1"
    using attach_inv assms by blast
  have ind: "pm_ind st = length done" using Cons.prems(1) by (simp add: pm_inv_def)
  obtain st' where "pm_loop (\<lambda>k. Some (ad k)) ?rest st1 = Inr st'" "pm_inv ad ((done @ [l]) @ map snd ls) st'"
    using Cons.IH [OF st1(2)] Cons.prems(2) by auto
  then show ?case using t st1(1) ind pl by auto
qed simp

lemma free_loop_linked:
  assumes "inj ad" "i < n" "1 < n"
    and "\<forall>j. i \<le> j \<and> j < n \<longrightarrow> (\<exists>x. h (ad j) = Some x \<and> next_area x = (if Suc j < n then Some (ad (Suc j)) else None))"
  shows "free_loop (n - i) (Some (ad i)) (if Suc i < n then Some (ad (Suc i)) else None) h =
    Inr (Some (\<lambda>a. if a \<in> ad ` {i..<n} then None else h a))"
  using assms(2,4)
proof (induction "n - i" arbitrary: i h)
  case (Suc m)
  obtain x where x: "h (ad i) = Some x" using Suc.prems by blast
  show ?case
  proof (cases "Suc i < n")
    case False
    then have "n = Suc i" using Suc.prems(1) by simp
    then show ?thesis using x by (auto simp: fun_eq_iff)
  next
    case True
    have ne: "ad j = ad i \<longleftrightarrow> j = i" for j using assms(1) by (simp add: inj_eq)
    let ?h = "h(ad i := None)"
    obtain y where "h (ad (Suc i)) = Some y" "next_area y = (if Suc (Suc i) < n then Some (ad (Suc (Suc i))) else None)"
      using Suc.prems(2) [rule_format, of "Suc i"] True by auto
    then have y: "?h (ad (Suc i)) = Some y" "next_area y = (if Suc (Suc i) < n then Some (ad (Suc (Suc i))) else None)"
      by (simp_all add: ne)
    have "n - i = Suc (n - Suc i)" using True by simp
    then have "free_loop (n - i) (Some (ad i)) (Some (ad (Suc i))) h =
        free_loop (n - Suc i) (Some (ad (Suc i))) (if Suc (Suc i) < n then Some (ad (Suc (Suc i))) else None) ?h"
      using x y by simp
    also have "\<dots> = Inr (Some (\<lambda>a. if a \<in> ad ` {Suc i..<n} then None else ?h a))"
      by (rule Suc.hyps(1)) (use Suc.hyps(2) Suc.prems(2) True ne in auto)
    also have "(\<lambda>a. if a \<in> ad ` {Suc i..<n} then None else ?h a) = (\<lambda>a. if a \<in> ad ` {i..<n} then None else h a)"
    proof -
      have "{i..<n} = insert i {Suc i..<n}" using True by auto
      then show ?thesis by (auto simp: fun_eq_iff)
    qed
    finally show ?thesis using True by simp
  qed
qed simp

lemma parse_lines:
  assumes "inj ad" "\<forall>(pad, l) \<in> set ls. kernel_line pad l"
  obtains h' where "pmparser_parse (\<lambda>k. Some (ad k)) buf0 perm0 (Some (concat (map (\<lambda>(pad, l). print_line pad l) ls))) g h =
      Inr (if ls = [] then None else Some (ad 0), g\<lparr>g_last_head := if ls = [] then None else Some (ad 0)\<rparr>, h')"
    "linked ad (map snd ls) h'"
proof -
  let ?st = "\<lparr>pm_buf = buf0, pm_perm = perm0, pm_nodes = h, pm_head = None, pm_node = None, pm_ind = 0\<rparr>"
  have "pm_inv ad [] ?st" by (simp add: pm_inv_def linked_def)
  then have "\<exists>st'. pm_loop (\<lambda>k. Some (ad k)) (concat (map (\<lambda>(pad, l). print_line pad l) ls)) ?st = Inr st' \<and>
      pm_inv ad ([] @ map snd ls) st'"
    by (rule pm_loop_lines [OF assms(1) _ assms(2)])
  then obtain st' where st': "pm_loop (\<lambda>k. Some (ad k)) (concat (map (\<lambda>(pad, l). print_line pad l) ls)) ?st = Inr st'"
      "pm_inv ad (map snd ls) st'"
    by auto
  then show thesis by (intro that [of "pm_nodes st'"]) (simp_all add: pmparser_parse_def pm_inv_def)
qed

text \<open>The parser stores nothing but the nodes of its lines.\<close>

lemma attach_dom:
  "attach a n st = Inr st' \<Longrightarrow> dom (pm_nodes st') \<subseteq> insert a (dom (pm_nodes st)) \<and> pm_ind st' = Suc (pm_ind st)"
  by (auto simp: attach_def Let_def split: if_splits option.splits)

lemma pm_line_dom:
  "pm_line (Some a) c rest st = Inr (rest', st') \<Longrightarrow>
     dom (pm_nodes st') \<subseteq> insert a (dom (pm_nodes st)) \<and> pm_ind st' = Suc (pm_ind st)"
  by (auto simp: pm_line_def Let_def c_cases dest!: attach_dom split: prod.splits)

lemma pm_loop_dom:
  "pm_loop (\<lambda>k. Some (ad k)) s st = Inr st' \<Longrightarrow>
     dom (pm_nodes st') \<subseteq> dom (pm_nodes st) \<union> ad ` {pm_ind st..<pm_ind st'} \<and> pm_ind st \<le> pm_ind st'"
proof (induction "\<lambda>k. Some (ad k)" s st rule: pm_loop.induct)
  case (2 c rest st)
  show ?case
  proof (cases "c = CHR 0xFF")
    case False
    then obtain rest' st1 where 1: "pm_line (Some (ad (pm_ind st))) c rest st = Inr (rest', st1)"
        "pm_loop (\<lambda>k. Some (ad k)) rest' st1 = Inr st'"
      using 2(2) by (auto simp: c_cases)
    have ind: "pm_ind st1 = Suc (pm_ind st)" "dom (pm_nodes st1) \<subseteq> insert (ad (pm_ind st)) (dom (pm_nodes st))"
      using pm_line_dom [OF 1(1)] by simp_all
    have rest: "dom (pm_nodes st') \<subseteq> dom (pm_nodes st1) \<union> ad ` {pm_ind st1..<pm_ind st'}" "pm_ind st1 \<le> pm_ind st'"
      using 2(1) [OF False 1(1) refl 1(2)] by simp_all
    then have "{pm_ind st..<pm_ind st'} = insert (pm_ind st) {pm_ind st1..<pm_ind st'}" using ind(1) by auto
    then have "ad ` {pm_ind st..<pm_ind st'} = insert (ad (pm_ind st)) (ad ` {pm_ind st1..<pm_ind st'})" by simp
    moreover have "dom (pm_nodes st') \<subseteq> insert (ad (pm_ind st)) (dom (pm_nodes st)) \<union> ad ` {pm_ind st1..<pm_ind st'}"
      by (rule order_trans [OF rest(1) Un_mono [OF ind(2) order_refl]])
    ultimately show ?thesis using ind(1) rest(2) by simp
  qed (use 2(2) in simp)
qed simp

lemma parse_lines_dom:
  assumes "inj ad" "\<forall>(pad, l) \<in> set ls. kernel_line pad l"
    and "pmparser_parse (\<lambda>k. Some (ad k)) buf0 perm0 (Some (concat (map (\<lambda>(pad, l). print_line pad l) ls))) g h = Inr (r, g', h')"
  shows "dom h' \<subseteq> dom h \<union> ad ` {0..<length ls}"
proof -
  let ?st = "\<lparr>pm_buf = buf0, pm_perm = perm0, pm_nodes = h, pm_head = None, pm_node = None, pm_ind = 0\<rparr>"
  have "pm_inv ad [] ?st" by (simp add: pm_inv_def linked_def)
  from pm_loop_lines [OF assms(1) this assms(2)] obtain st' where st':
      "pm_loop (\<lambda>k. Some (ad k)) (concat (map (\<lambda>(pad, l). print_line pad l) ls)) ?st = Inr st'"
      "pm_inv ad (map snd ls) st'"
    by auto
  then have "h' = pm_nodes st'" "pm_ind st' = length ls" using assms(3) by (simp_all add: pmparser_parse_def pm_inv_def)
  then show ?thesis using pm_loop_dom [OF st'(1)] by simp
qed

section \<open>Properties\<close>

text \<open>Two or more lines as the kernel prints them, none longer than 259 bytes and without spaces in a path, become the
  list of their areas in the order of the file, and freeing the list frees exactly its nodes, in as many
  rounds as there are nodes.\<close>

theorem maps_parsed_and_freed:
  assumes "inj ad" "\<forall>(pad, l) \<in> set ls. kernel_line pad l" "1 < length ls"
  shows "\<exists>h'. pmparser_parse (\<lambda>k. Some (ad k)) buf0 perm0 (Some (concat (map (\<lambda>(pad, l). print_line pad l) ls))) g h =
      Inr (Some (ad 0), g\<lparr>g_last_head := Some (ad 0)\<rparr>, h') \<and>
    (\<forall>i < length ls. h' (ad i) = Some ((node_of (snd (ls ! i)))\<lparr>next_area := if Suc i < length ls then Some (ad (Suc i)) else None\<rparr>)) \<and>
    pmparser_free (length ls) (Some (ad 0)) h' = Inr (Some (\<lambda>a. if a \<in> ad ` {0..<length ls} then None else h' a))"
proof -
  obtain h' where h': "pmparser_parse (\<lambda>k. Some (ad k)) buf0 perm0 (Some (concat (map (\<lambda>(pad, l). print_line pad l) ls))) g h =
      Inr (if ls = [] then None else Some (ad 0), g\<lparr>g_last_head := if ls = [] then None else Some (ad 0)\<rparr>, h')"
      "linked ad (map snd ls) h'"
    using parse_lines [OF assms(1,2)] .
  then have nodes: "\<forall>i < length ls. h' (ad i) =
      Some ((node_of (snd (ls ! i)))\<lparr>next_area := if Suc i < length ls then Some (ad (Suc i)) else None\<rparr>)"
    using assms(3) by (simp add: linked_def)
  have "free_loop (length ls - 0) (Some (ad 0)) (if Suc 0 < length ls then Some (ad (Suc 0)) else None) h' =
      Inr (Some (\<lambda>a. if a \<in> ad ` {0..<length ls} then None else h' a))"
    by (rule free_loop_linked [OF assms(1)]) (use nodes assms(3) in auto)
  moreover have "ls \<noteq> []" using assms(3) by auto
  ultimately show ?thesis using h'(1) nodes assms(3) by (auto simp: pmparser_free_def)
qed

definition sample_line :: "string \<Rightarrow> map_line" where
  "sample_line path = \<lparr>l_addr1 = ''00400000'', l_addr2 = ''0040b000'', l_perm = ''r-xp'', l_offset = ''00000000'',
     l_dev = ''08:01'', l_inode = ''1234'', l_pathname = path\<rparr>"

lemma sample_kernel_line: "kernel_line 1 (sample_line ''/bin/cat'')" "kernel_line 0 (sample_line [])"
  by (simp_all add: kernel_line_def line_ok_def sample_line_def plain_field_def print_line_def is_gap_def scan_hex_def
      scan_unsigned_def hex_digit_def is_space_def)

theorem maps_parsed_and_freed_witness:
  "\<exists>h'. pmparser_parse (\<lambda>k. Some k) [] [] (Some (print_line 1 (sample_line ''/bin/cat'') @ print_line 0 (sample_line [])))
      \<lparr>g_last_head = None, g_current = None\<rparr> Map.empty = Inr (Some 0, \<lparr>g_last_head = Some 0, g_current = None\<rparr>, h') \<and>
    pmparser_free 2 (Some 0) h' = Inr (Some (\<lambda>a. if a < 2 then None else h' a))"
proof -
  have "inj (\<lambda>k :: nat. k)" by (rule injI)
  moreover have "\<forall>(pad, l) \<in> set [(1, sample_line ''/bin/cat''), (0, sample_line [])]. kernel_line pad l"
    using sample_kernel_line by simp
  ultimately show ?thesis
    using maps_parsed_and_freed [of "\<lambda>k. k" "[(1, sample_line ''/bin/cat''), (0, sample_line [])]" "[]" "[]"
      "\<lparr>g_last_head = None, g_current = None\<rparr>" Map.empty]
    by (auto simp: numeral_2_eq_2)
qed

text \<open>A file of one line becomes a list whose only node is its own successor: \<open>pmparser_next\<close> delivers it again and
  again, and \<open>pmparser_free\<close> uses it after it has been freed.\<close>

theorem single_mapping_loops:
  assumes "inj ad" "kernel_line pad l"
  shows "\<exists>g' h'. pmparser_parse (\<lambda>k. Some (ad k)) buf0 perm0 (Some (print_line pad l)) g h = Inr (Some (ad 0), g', h') \<and>
    pmparser_next h' (g'\<lparr>g_current := Some (ad 0)\<rparr>) = Inr (Some (ad 0), g'\<lparr>g_current := Some (ad 0)\<rparr>) \<and>
    pmparser_free (Suc n) (Some (ad 0)) h' = Inl Use_after_free"
proof -
  obtain h' where h': "pmparser_parse (\<lambda>k. Some (ad k)) buf0 perm0 (Some (print_line pad l)) g h =
      Inr (Some (ad 0), g\<lparr>g_last_head := Some (ad 0)\<rparr>, h')" "linked ad [l] h'"
    using parse_lines [OF assms(1), of "[(pad, l)]" buf0 perm0 g h] assms(2) by auto
  then show ?thesis by (simp add: linked_def pmparser_next_def pmparser_free_def)
qed

theorem single_mapping_loops_witness:
  "\<exists>g' h'. pmparser_parse (\<lambda>k. Some k) [] [] (Some (print_line 0 (sample_line [])))
      \<lparr>g_last_head = None, g_current = None\<rparr> Map.empty = Inr (Some 0, g', h') \<and>
    pmparser_free 1 (Some 0) h' = Inl Use_after_free"
  using single_mapping_loops [of "\<lambda>k. k" 0 "sample_line []" "[]" "[]" "\<lparr>g_last_head = None, g_current = None\<rparr>" Map.empty 0]
    sample_kernel_line(2)
  by (auto simp: inj_def)

end
