(* ===== verification/Thread_Debug.thy ===== *)
theory Thread_Debug
  imports Conn_Queue Log
begin

text \<open>
  The record of what the threads do (\<open>src/queue.c\<close> under \<open>DEBUG_THREADING\<close>, which \<open>src/queue.h\<close> sets to 0): snapshots
  of states are kept in a table of bounded size and printed through \<open>debugt\<close>. The table is the list of its used
  entries, its counter the length of the list.
\<close>

section \<open>Operations\<close>

datatype thread_state =
  THREAD_CREATED | THREAD_STARTED | THREAD_WORKING | THREAD_WAITING | THREAD_WAKED_UP | THREAD_FINISH

definition MAX_DEBUG_THREAD_STATES_COUNT :: nat where
  "MAX_DEBUG_THREAD_STATES_COUNT = 10000"

record thread_debug_state =
  td_thread_id :: int
  td_state :: thread_state
  td_time :: int
  td_msg :: string

definition thread_debug_push :: "thread_debug_state \<Rightarrow> thread_debug_state list \<Rightarrow> thread_debug_state list" where
  "thread_debug_push s states = (if length states < MAX_DEBUG_THREAD_STATES_COUNT then states @ [s] else states)"

text \<open>\<open>formatted\<close> is what \<open>vsprintf\<close> makes of the format, in a buffer of the length of the format plus 200; it is then copied
  into the 300 bytes of the entry.\<close>

definition thread_debug_snapshot ::
  "allocator \<Rightarrow> 't list \<Rightarrow> 't \<Rightarrow> int \<Rightarrow> thread_state \<Rightarrow> string \<Rightarrow> string \<Rightarrow> thread_debug_state list \<Rightarrow>
     thread_debug_state list c_result" where
  "thread_debug_snapshot mem g_workers current now state format formatted states =
     (if \<not> can_alloc mem (length format + 200) then Inl Null_deref
      else if length formatted + 1 > length format + 200 \<or> length formatted + 1 > 300 then Inl Buffer_overflow
      else Inr (thread_debug_push \<lparr>td_thread_id = queue_worker_id g_workers current, td_state = state, td_time = now,
        td_msg = formatted\<rparr> states))"

fun thread_state_str :: "thread_state \<Rightarrow> string" where
  "thread_state_str THREAD_CREATED = ''THREAD_CREATED''"
| "thread_state_str THREAD_STARTED = ''THREAD_STARTED''"
| "thread_state_str THREAD_WORKING = ''THREAD_WORKING_NEW_WORK''"
| "thread_state_str THREAD_WAITING = ''THREAD_WAITING_NO_WORK''"
| "thread_state_str THREAD_WAKED_UP = ''THREAD_WAKED_UP''"
| "thread_state_str THREAD_FINISH = ''THREAD_FINISH_WORK_DONE''"

text \<open>The line of an entry; \<open>localtime\<close> gives hour, minute and second.\<close>

definition TAB :: char where
  "TAB = char_of (9 :: nat)"

definition state_line :: "(int \<Rightarrow> int \<times> int \<times> int) \<Rightarrow> thread_debug_state \<Rightarrow> string" where
  "state_line localtime s = (let (h, m, sec) = localtime (td_time s) in
     dec_int h @ '':'' @ dec_int m @ '':'' @ dec_int sec @ [TAB] @ ''ID_'' @ dec_int (td_thread_id s) @ [TAB] @
     thread_state_str (td_state s) @ [TAB] @ td_msg s)"

fun print_states :: "allocator \<Rightarrow> log_state \<Rightarrow> (int \<Rightarrow> int \<times> int \<times> int) \<Rightarrow> thread_debug_state list \<Rightarrow> string c_result" where
  "print_states mem log localtime [] = Inr []"
| "print_states mem log localtime (s # ss) =
     c_then (debugt mem log ''thread-debug'' (''%d:%d:%d'' @ [TAB] @ ''ID_%d'' @ [TAB] @ ''%s'' @ [TAB] @ ''%s'')
         (state_line localtime s)) (\<lambda>line.
       c_then (print_states mem log localtime ss) (\<lambda>rest.
         Inr ((case line of None \<Rightarrow> [] | Some l \<Rightarrow> l) @ rest)))"

definition thread_debug_print ::
  "allocator \<Rightarrow> log_state \<Rightarrow> (int \<Rightarrow> int \<times> int \<times> int) \<Rightarrow> thread_debug_state list \<Rightarrow>
     (string \<times> thread_debug_state list) c_result" where
  "thread_debug_print mem log localtime states =
     c_then (debugt mem log ''thread-debug'' ''num_saved_states = %d'' (''num_saved_states = '' @ dec_int (int (length states))))
       (\<lambda>line. c_then (print_states mem log localtime states) (\<lambda>rest.
         Inr ((case line of None \<Rightarrow> [] | Some l \<Rightarrow> l) @ rest, [])))"

section \<open>Laws\<close>

text \<open>Any number of snapshots of any threads: the table stays within its bounds and holds the first of them, in order.\<close>

lemma push_all:
  "length states \<le> MAX_DEBUG_THREAD_STATES_COUNT \<Longrightarrow>
   foldl (\<lambda>ss s. thread_debug_push s ss) states new =
     states @ take (MAX_DEBUG_THREAD_STATES_COUNT - length states) new"
proof (induction new arbitrary: states)
  case (Cons s new)
  show ?case
  proof (cases "length states < MAX_DEBUG_THREAD_STATES_COUNT")
    case True
    then have "MAX_DEBUG_THREAD_STATES_COUNT - length states = Suc (MAX_DEBUG_THREAD_STATES_COUNT - length (states @ [s]))"
      by simp
    then show ?thesis using Cons.IH [of "states @ [s]"] True by (simp add: thread_debug_push_def)
  next
    case False
    then show ?thesis using Cons.IH [of states] Cons.prems by (simp add: thread_debug_push_def)
  qed
qed simp

theorem first_snapshots_kept:
  "foldl (\<lambda>ss s. thread_debug_push s ss) [] new = take MAX_DEBUG_THREAD_STATES_COUNT new"
  using push_all [of "[]" new] by simp

text \<open>Entries whose line fits into the buffer of \<open>debugt\<close>, which does not count with the message of the entry, are printed
  one line each, and the table is empty afterwards.\<close>

lemma print_states_lines:
  assumes "\<not> is_focus_tags log" "\<And>n. can_alloc mem n"
  shows "\<forall>s \<in> set ss. length (state_line localtime s) < 152 \<Longrightarrow>
    print_states mem log localtime ss = Inr (concat (map (\<lambda>s. ''+ thread-debug: '' @ state_line localtime s @ [LF]) ss))"
  using assms by (induction ss) (simp_all add: debugt_def)

theorem snapshots_printed:
  assumes "\<not> is_focus_tags log" "\<And>n. can_alloc mem n" "\<forall>s \<in> set ss. length (state_line localtime s) < 152"
    and "length ss \<le> MAX_DEBUG_THREAD_STATES_COUNT"
  shows "thread_debug_print mem log localtime ss =
    Inr (''+ thread-debug: num_saved_states = '' @ dec_int (int (length ss)) @ [LF] @
      concat (map (\<lambda>s. ''+ thread-debug: '' @ state_line localtime s @ [LF]) ss), [])"
proof -
  have "length (dec_int (int (length ss))) \<le> 5"
    using assms(4) length_dec_nat_5 [of "length ss"] by (simp add: dec_int_def MAX_DEBUG_THREAD_STATES_COUNT_def)
  then show ?thesis
    using assms(1,2) print_states_lines [OF assms(1,2,3)] by (simp add: thread_debug_print_def debugt_def)
qed

text \<open>A message that fits into an entry can be too long for the line.\<close>

theorem long_snapshot_overruns:
  assumes "\<not> is_focus_tags log" "\<And>n. can_alloc mem n" "152 \<le> length (td_msg s)"
  shows "print_states mem log localtime (s # ss) = Inl Buffer_overflow"
  using assms by (simp add: debugt_def state_line_def Let_def split: prod.split)

end
