(* ===== verification/Buffer_Test.thy ===== *)
theory Buffer_Test
  imports Buffer
begin

text \<open>
  The test program that comes with the buffer (\<open>src/buffer/test.c\<close>), one definition per test and
  \<open>test_main\<close> for \<open>main\<close>. Each test is run on the model of the buffer operations, for every content
  that fresh memory may have; the theorem says that all of them pass, so that the model does what
  the authors of the code expect of it. A test stops the program by a fault of the code under test,
  by a failing \<open>assert\<close> or by the \<open>exit(1)\<close> of \<open>equal\<close>.
\<close>

section \<open>Outcomes\<close>

datatype test_stop = Fault c_fault | Assertion_failed | Exit_status int

type_synonym 'a outcome = "test_stop + 'a"

definition test_then :: "'a outcome \<Rightarrow> ('a \<Rightarrow> 'b outcome) \<Rightarrow> 'b outcome" where
  "test_then m f = (case m of Inl e \<Rightarrow> Inl e | Inr x \<Rightarrow> f x)"

text \<open>A call of the code under test, a pointer that is dereferenced, \<open>assert\<close>, and a string literal.\<close>

definition call :: "'a c_result \<Rightarrow> 'a outcome" where
  "call m = (case m of Inl e \<Rightarrow> Inl (Fault e) | Inr x \<Rightarrow> Inr x)"

definition deref :: "'a option \<Rightarrow> 'a outcome" where
  "deref m = (case m of None \<Rightarrow> Inl (Fault Null_deref) | Some x \<Rightarrow> Inr x)"

definition assert_that :: "bool \<Rightarrow> unit outcome" where
  "assert_that b = (if b then Inr () else Inl Assertion_failed)"

definition lit :: "string \<Rightarrow> ptr" where
  "lit s = s @ [NUL]"

text \<open>\<open>equal(a, buffer_string(buf))\<close>: \<open>strcmp\<close>, and \<open>exit(1)\<close> when the strings differ.\<close>

definition equal_str :: "string \<Rightarrow> buffer_t \<Rightarrow> unit outcome" where
  "equal_str a buf = test_then (call (data_ptr buf)) (\<lambda>p.
     if NUL \<notin> set p then Inl (Fault Out_of_bounds)
     else if cstr p \<noteq> a then Inl (Exit_status 1) else Inr ())"

text \<open>\<open>assert(0 == op)\<close>, with the buffer the operation leaves; and an operation whose result is dropped.\<close>

definition returns_0 :: "(int \<times> buffer_t) c_result \<Rightarrow> buffer_t outcome" where
  "returns_0 m = test_then (call m) (\<lambda>(r, buf). test_then (assert_that (0 = r)) (\<lambda>_. Inr buf))"

definition ignored :: "(int \<times> buffer_t) c_result \<Rightarrow> buffer_t outcome" where
  "ignored m = test_then (call m) (\<lambda>(r, buf). Inr buf)"

definition has_length :: "nat \<Rightarrow> buffer_t \<Rightarrow> unit outcome" where
  "has_length n buf = test_then (call (buffer_length buf)) (\<lambda>k. assert_that (n = k))"

definition copy_of :: "allocator \<Rightarrow> string \<Rightarrow> buffer_t outcome" where
  "copy_of mem s = test_then (call (buffer_new_with_copy mem (lit s))) deref"

definition slice_of :: "allocator \<Rightarrow> buffer_t \<Rightarrow> size_t \<Rightarrow> size_t \<Rightarrow> buffer_t outcome" where
  "slice_of mem buf a b = test_then (call (buffer_slice mem buf a b)) deref"

text \<open>\<open>%08X\<close>.\<close>

definition hex_upper :: "nat \<Rightarrow> char" where
  "hex_upper d = (if d < 10 then digit_char d else char_of (55 + d))"

definition print_08X :: "nat \<Rightarrow> string" where
  "print_08X n = map (\<lambda>k. hex_upper (n div 16 ^ k mod 16)) [7, 6, 5, 4, 3, 2, 1, 0]"

section \<open>The tests\<close>

definition test_buffer_new :: "allocator \<Rightarrow> unit outcome" where
  "test_buffer_new mem = test_then (deref (buffer_new mem)) (\<lambda>buf.
     test_then (assert_that (BUFFER_DEFAULT_SIZE = buffer_size buf)) (\<lambda>_. has_length 0 buf))"

definition test_buffer_new_with_size :: "allocator \<Rightarrow> unit outcome" where
  "test_buffer_new_with_size mem = test_then (deref (buffer_new_with_size mem 1024)) (\<lambda>buf.
     test_then (assert_that (1024 = buffer_size buf)) (\<lambda>_. has_length 0 buf))"

definition test_buffer_append :: "allocator \<Rightarrow> unit outcome" where
  "test_buffer_append mem = test_then (deref (buffer_new mem)) (\<lambda>buf.
     test_then (returns_0 (buffer_append mem buf (lit ''Hello''))) (\<lambda>buf.
     test_then (returns_0 (buffer_append mem buf (lit '' World''))) (\<lambda>buf.
     test_then (has_length (length ''Hello World'') buf) (\<lambda>_.
     equal_str ''Hello World'' buf))))"

definition test_buffer_append_n :: "allocator \<Rightarrow> unit outcome" where
  "test_buffer_append_n mem = test_then (deref (buffer_new mem)) (\<lambda>buf.
     test_then (returns_0 (buffer_append_n mem buf (lit ''subway'') 3)) (\<lambda>buf.
     test_then (returns_0 (buffer_append_n mem buf (lit ''marines'') 6)) (\<lambda>buf.
     test_then (has_length (length ''submarine'') buf) (\<lambda>_.
     equal_str ''submarine'' buf))))"

definition test_buffer_append__grow :: "allocator \<Rightarrow> unit outcome" where
  "test_buffer_append__grow mem = test_then (deref (buffer_new_with_size mem 10)) (\<lambda>buf.
     test_then (returns_0 (buffer_append mem buf (lit ''Hello''))) (\<lambda>buf.
     test_then (returns_0 (buffer_append mem buf (lit '' tobi''))) (\<lambda>buf.
     test_then (returns_0 (buffer_append mem buf (lit '' was''))) (\<lambda>buf.
     test_then (returns_0 (buffer_append mem buf (lit '' here''))) (\<lambda>buf.
     test_then (equal_str ''Hello tobi was here'' buf) (\<lambda>_.
     test_then (assert_that (1024 = buffer_size buf)) (\<lambda>_.
     has_length (length ''Hello tobi was here'') buf)))))))"

definition test_buffer_prepend :: "allocator \<Rightarrow> unit outcome" where
  "test_buffer_prepend mem = test_then (deref (buffer_new mem)) (\<lambda>buf.
     test_then (returns_0 (buffer_append mem buf (lit '' World''))) (\<lambda>buf.
     test_then (returns_0 (buffer_prepend mem buf (lit ''Hello''))) (\<lambda>buf.
     test_then (has_length (length ''Hello World'') buf) (\<lambda>_.
     equal_str ''Hello World'' buf))))"

definition test_buffer_slice :: "allocator \<Rightarrow> unit outcome" where
  "test_buffer_slice mem = test_then (deref (buffer_new mem)) (\<lambda>buf.
     test_then (ignored (buffer_append mem buf (lit ''Tobi Ferret''))) (\<lambda>buf.
     test_then (slice_of mem buf 2 8) (\<lambda>a.
     test_then (equal_str ''Tobi Ferret'' buf) (\<lambda>_. equal_str ''bi Fer'' a))))"

definition test_buffer_slice__range_error :: "allocator \<Rightarrow> unit outcome" where
  "test_buffer_slice__range_error mem = test_then (copy_of mem ''Tobi Ferret'') (\<lambda>buf.
     test_then (call (buffer_slice mem buf 10 2)) (\<lambda>a. assert_that (a = None)))"

definition test_buffer_slice__end :: "allocator \<Rightarrow> unit outcome" where
  "test_buffer_slice__end mem = test_then (copy_of mem ''Tobi Ferret'') (\<lambda>buf.
     test_then (slice_of mem buf 5 (-1)) (\<lambda>a.
     test_then (equal_str ''Tobi Ferret'' buf) (\<lambda>_.
     test_then (equal_str ''Ferret'' a) (\<lambda>_.
     test_then (slice_of mem buf 5 (-3)) (\<lambda>b.
     test_then (equal_str ''Ferr'' b) (\<lambda>_.
     test_then (slice_of mem buf 8 (-1)) (\<lambda>c. equal_str ''ret'' c)))))))"

definition test_buffer_slice__end_overflow :: "allocator \<Rightarrow> unit outcome" where
  "test_buffer_slice__end_overflow mem = test_then (copy_of mem ''Tobi Ferret'') (\<lambda>buf.
     test_then (slice_of mem buf 5 1000) (\<lambda>a.
     test_then (equal_str ''Tobi Ferret'' buf) (\<lambda>_. equal_str ''Ferret'' a)))"

definition test_buffer_equals :: "allocator \<Rightarrow> unit outcome" where
  "test_buffer_equals mem = test_then (copy_of mem ''Hello'') (\<lambda>a.
     test_then (copy_of mem ''Hello'') (\<lambda>b.
     test_then (call (buffer_equals a b)) (\<lambda>e.
     test_then (assert_that e) (\<lambda>_.
     test_then (ignored (buffer_append mem b (lit '' World''))) (\<lambda>b.
     test_then (call (buffer_equals a b)) (\<lambda>e. assert_that (\<not> e)))))))"

definition test_buffer_formatting :: "allocator \<Rightarrow> unit outcome" where
  "test_buffer_formatting mem = test_then (deref (buffer_new mem)) (\<lambda>buf.
     test_then (returns_0 (buffer_appendf mem buf (dec_int 3 @ '' '' @ ''cow''))) (\<lambda>buf.
     test_then (equal_str ''3 cow'' buf) (\<lambda>_.
     test_then (returns_0 (buffer_appendf mem buf ('' - 0x'' @ print_08X 0xdeadbeef))) (\<lambda>buf.
     equal_str ''3 cow - 0xDEADBEEF'' buf))))"

definition test_buffer_indexof :: "allocator \<Rightarrow> unit outcome" where
  "test_buffer_indexof mem = test_then (copy_of mem ''Tobi is a ferret'') (\<lambda>buf.
     test_then (call (buffer_indexof buf ''is'')) (\<lambda>i.
     test_then (assert_that (5 = i)) (\<lambda>_.
     test_then (call (buffer_indexof buf ''a'')) (\<lambda>i.
     test_then (assert_that (8 = i)) (\<lambda>_.
     test_then (call (buffer_indexof buf ''something'')) (\<lambda>i. assert_that (-1 = i)))))))"

definition test_buffer_fill :: "allocator \<Rightarrow> unit outcome" where
  "test_buffer_fill mem = test_then (copy_of mem ''Hello'') (\<lambda>buf.
     test_then (has_length 5 buf) (\<lambda>_.
     test_then (call (buffer_fill buf NUL)) (\<lambda>buf. has_length 0 buf)))"

definition test_buffer_clear :: "allocator \<Rightarrow> unit outcome" where
  "test_buffer_clear mem = test_then (copy_of mem ''Hello'') (\<lambda>buf.
     test_then (has_length 5 buf) (\<lambda>_.
     test_then (call (buffer_clear buf)) (\<lambda>buf. has_length 0 buf)))"

definition test_buffer_trim :: "allocator \<Rightarrow> unit outcome" where
  "test_buffer_trim mem = (let s = ''  Hello'' @ [LF, LF, SPACE] in
     test_then (copy_of mem s) (\<lambda>buf.
     test_then (call (buffer_trim buf)) (\<lambda>buf.
     test_then (equal_str ''Hello'' buf) (\<lambda>_.
     test_then (copy_of mem s) (\<lambda>buf.
     test_then (call (buffer_trim_left buf)) (\<lambda>buf.
     test_then (equal_str (''Hello'' @ [LF, LF, SPACE]) buf) (\<lambda>_.
     test_then (copy_of mem s) (\<lambda>buf.
     test_then (call (buffer_trim_right buf)) (\<lambda>buf.
     equal_str ''  Hello'' buf)))))))))"

definition test_buffer_compact :: "allocator \<Rightarrow> unit outcome" where
  "test_buffer_compact mem = test_then (copy_of mem (''  Hello'' @ [LF, LF, SPACE])) (\<lambda>buf.
     test_then (call (buffer_trim buf)) (\<lambda>buf.
     test_then (has_length 5 buf) (\<lambda>_.
     test_then (assert_that (10 = buffer_size buf)) (\<lambda>_.
     test_then (call (buffer_compact mem buf)) (\<lambda>(removed, buf).
     test_then (assert_that (5 = removed)) (\<lambda>_.
     test_then (has_length 5 buf) (\<lambda>_.
     test_then (assert_that (5 = buffer_size buf)) (\<lambda>_.
     equal_str ''Hello'' buf))))))))"

text \<open>\<open>main\<close>: the tests in the order of the code, and the exit status.\<close>

definition buffer_tests :: "(allocator \<Rightarrow> unit outcome) list" where
  "buffer_tests = [test_buffer_new, test_buffer_new_with_size, test_buffer_append,
     test_buffer_append__grow, test_buffer_append_n, test_buffer_prepend, test_buffer_slice,
     test_buffer_slice__range_error, test_buffer_slice__end, test_buffer_slice__end_overflow,
     test_buffer_equals, test_buffer_formatting, test_buffer_indexof, test_buffer_fill,
     test_buffer_clear, test_buffer_trim, test_buffer_compact]"

definition test_main :: "allocator \<Rightarrow> int outcome" where
  "test_main mem = foldr (\<lambda>t rest. test_then (t mem) (\<lambda>_. rest)) buffer_tests (Inr 0)"

section \<open>All tests pass\<close>

lemma test_then_simps [simp]: "test_then (Inr x) f = f x" "test_then (Inl e) f = Inl e"
  by (simp_all add: test_then_def)

text \<open>The tests in which a buffer grows are run on the laws of the buffer: what the new part of the
  allocation holds does not matter.\<close>

lemma equal_str_ok: "buffer_inv b \<Longrightarrow> buffer_abs b = a \<Longrightarrow> equal_str a b = Inr ()"
  by (auto elim!: buffer_invE simp: equal_str_def call_def)

lemma has_length_ok: "buffer_inv b \<Longrightarrow> length (buffer_abs b) = n \<Longrightarrow> has_length n b = Inr ()"
  by (auto elim!: buffer_invE simp: has_length_def call_def assert_that_def buffer_length_def c_strlen_cstr)

lemma append_step:
  assumes "buffer_inv b" "NUL \<notin> set s" "length (buffer_abs b) + length s \<le> 1000"
  obtains b' where "buffer_append (generous j) b (lit s) = Inr (0, b')" "buffer_inv b'"
    "buffer_abs b' = buffer_abs b @ s"
    "buf_len b' = (if unat (buf_len b) > length (buffer_abs b) + length s then buf_len b
       else of_nat ((length (buffer_abs b) + length s + 1023) div 1024 * 1024))"
proof -
  obtain b' where b': "buffer_append (generous j) b (s @ [NUL]) = Inr (0, b')" "buffer_inv b'"
    "buffer_abs b' = buffer_abs b @ s" "unat (buf_len b') =
      (if unat (buf_len b) > length (buffer_abs b) + length s then unat (buf_len b)
       else (length (buffer_abs b) + length s + 1023) div 1024 * 1024)"
    using buffer_append_ok [OF generous_ample assms(1,2)] assms(3) by auto
  from b'(4) have "buf_len b' = (if unat (buf_len b) > length (buffer_abs b) + length s then buf_len b
      else of_nat ((length (buffer_abs b) + length s + 1023) div 1024 * 1024))"
    by (metis of_nat_unat ucast_id)
  with b'(1-3) show thesis by (intro that [of b']) (simp_all add: lit_def)
qed

lemma test_of_grow: "test_buffer_append__grow (generous j) = Inr ()"
proof -
  let ?b = "\<lparr>buf_len = 10, buf_alloc = Some (replicate 11 NUL), buf_data = 0\<rparr> :: buffer_t"
  have b: "buffer_new_with_size (generous j) 10 = Some ?b"
    using buffer_new_with_size_ok [OF generous_ample, of 10] by simp
  have "buffer_inv ?b" "buffer_abs ?b = []" by (simp_all add: cstr_def)
  moreover obtain b1 where 1: "buffer_append (generous j) ?b (lit ''Hello'') = Inr (0, b1)"
      "buffer_inv b1" "buffer_abs b1 = ''Hello''" "buf_len b1 = 10"
    by (rule append_step [of ?b "''Hello''"]) (simp_all add: cstr_def)
  moreover obtain b2 where 2: "buffer_append (generous j) b1 (lit '' tobi'') = Inr (0, b2)"
      "buffer_inv b2" "buffer_abs b2 = ''Hello tobi''" "buf_len b2 = 1024"
    by (rule append_step [of b1 "'' tobi''"]) (simp_all add: 1)
  moreover obtain b3 where 3: "buffer_append (generous j) b2 (lit '' was'') = Inr (0, b3)"
      "buffer_inv b3" "buffer_abs b3 = ''Hello tobi was''" "buf_len b3 = 1024"
    by (rule append_step [of b2 "'' was''"]) (simp_all add: 2)
  moreover obtain b4 where 4: "buffer_append (generous j) b3 (lit '' here'') = Inr (0, b4)"
      "buffer_inv b4" "buffer_abs b4 = ''Hello tobi was here''" "buf_len b4 = 1024"
    by (rule append_step [of b3 "'' here''"]) (simp_all add: 3)
  ultimately show ?thesis
    using equal_str_ok [OF 4(2,3)] has_length_ok [OF 4(2)]
    by (simp add: test_buffer_append__grow_def b deref_def returns_0_def call_def assert_that_def
        buffer_size_def)
qed

lemma test_of_equals: "test_buffer_equals (generous j) = Inr ()"
proof -
  let ?b = "\<lparr>buf_len = 5, buf_alloc = Some (''Hello'' @ [NUL]), buf_data = 0\<rparr> :: buffer_t"
  have b: "copy_of (generous j) ''Hello'' = Inr ?b" by code_simp
  obtain c where c: "buffer_append (generous j) ?b (lit '' World'') = Inr (0, c)" "buffer_inv c"
      "buffer_abs c = ''Hello World''"
    by (rule append_step [of ?b "'' World''"]) (simp_all add: cstr_def)
  have "buffer_equals ?b ?b = Inr True" by (simp add: buffer_equals_def)
  moreover have "buffer_equals ?b c = Inr False"
    using c(2,3) by (auto elim!: buffer_invE simp: buffer_equals_def cstr_def)
  ultimately show ?thesis
    using c(1) by (simp add: test_buffer_equals_def b ignored_def call_def assert_that_def)
qed

lemma test_of_formatting: "test_buffer_formatting (generous j) = Inr ()"
proof -
  obtain b where b: "buffer_new (generous j) = Some b" "buffer_inv b" "buffer_abs b = []"
    using buffer_new_ok [OF generous_ample] by blast
  have t: "dec_int 3 @ '' '' @ ''cow'' = ''3 cow''" "'' - 0x'' @ print_08X 0xdeadbeef = '' - 0xDEADBEEF''"
    by (simp_all add: dec_int_def digit_char_def print_08X_def hex_upper_def char_of_def bit_0)
  obtain c where c: "buffer_appendf (generous j) b ''3 cow'' = Inr (0, c)" "buffer_inv c"
      "buffer_abs c = ''3 cow''"
    using buffer_appendf_ok [OF generous_ample b(2), of "''3 cow''" j] b(3) by auto
  obtain d where d: "buffer_appendf (generous j) c '' - 0xDEADBEEF'' = Inr (0, d)" "buffer_inv d"
      "buffer_abs d = ''3 cow - 0xDEADBEEF''"
    using buffer_appendf_ok [OF generous_ample c(2), of "'' - 0xDEADBEEF''" j] c(3) by auto
  show ?thesis
    unfolding test_buffer_formatting_def t
    using equal_str_ok [OF c(2,3)] equal_str_ok [OF d(2,3)]
    by (simp add: b(1) c(1) d(1) deref_def returns_0_def call_def assert_that_def)
qed

text \<open>The other tests are evaluated.\<close>

lemma tests_of_append:
  "test_buffer_new (generous j) = Inr ()"
  "test_buffer_new_with_size (generous j) = Inr ()"
  "test_buffer_append (generous j) = Inr ()"
  "test_buffer_append_n (generous j) = Inr ()"
  "test_buffer_prepend (generous j) = Inr ()"
  by code_simp+

lemma tests_of_slice:
  "test_buffer_slice (generous j) = Inr ()"
  "test_buffer_slice__range_error (generous j) = Inr ()"
  "test_buffer_slice__end (generous j) = Inr ()"
  "test_buffer_slice__end_overflow (generous j) = Inr ()"
  by code_simp+

lemma tests_of_contents:
  "test_buffer_indexof (generous j) = Inr ()"
  "test_buffer_fill (generous j) = Inr ()"
  "test_buffer_clear (generous j) = Inr ()"
  "test_buffer_trim (generous j) = Inr ()"
  "test_buffer_compact (generous j) = Inr ()"
  by code_simp+

text \<open>the buffer operations pass every test of the program that comes with them, whatever bytes fresh
  memory holds: \<open>main\<close> reaches its \<open>return 0\<close> without a fault, a failing assertion or an unequal string.\<close>

theorem buffer_tests_pass: "test_main (generous j) = Inr 0"
  by (simp add: test_main_def buffer_tests_def tests_of_append tests_of_slice tests_of_contents
      test_of_grow test_of_equals test_of_formatting)

end
