(* ===== verification/Old_Sandbox.thy ===== *)
theory Old_Sandbox
  imports Runner Sandbox
begin

unbundle bit_operations_syntax

text \<open>
  The first version of the sandbox (\<open>src/sandbox.old.c\<close>), which the repository keeps beside the present
  \<open>sandbox.c\<close> and \<open>runner.c\<close> and no longer builds: one structure for the configuration of both, a run that
  clones its own watcher (\<open>jug_sandbox_run\<close>), a run through the template process (\<open>jug_sandbox_run_tpl\<close>),
  and a watcher (\<open>jug_sandbox_child\<close>) that waits for the submission instead of polling it. Steps that the two
  versions share statement by statement are those of the theories \<open>Runner\<close> and \<open>Sandbox\<close>; the field
  \<open>sigusr2_sent\<close> counts the signals sent to the watcher, which here are \<open>SIGUSR1\<close>. The theorems compare the two versions: where they agree,
  and which answers of the system calls the old version gets wrong.
\<close>

section \<open>Configuration\<close>

record old_sandbox = sandbox +
  sb_output_limit_mb :: int
  sb_stack_size_mb :: int
  sb_kill_on_compout :: int
  sb_show_output :: int
  sb_nbr_instances :: int
  sb_count_submissions :: int
  sb_count_submissions_success :: int

text \<open>The settings up to the directory, which is copied before the last two are read.\<close>

definition old_keys :: "string list" where
  "old_keys = [''mem_limit_mb'', ''walltime_limit_ms'', ''time_limit_ms'', ''output_size_limit_mb'',
     ''stack_size_mb'', ''use_cgroups'', ''use_setrlimit'', ''use_ERFS'', ''chroot_dir_path'']"

definition old_keys_2 :: "string list" where
  "old_keys_2 = [''kill_on_compout'', ''show_submission_output'']"

text \<open>\<open>jug_sandbox_init\<close>; \<open>present\<close>: the caller's allocation of the structure succeeded.\<close>

definition old_sandbox_init ::
  "config_env \<Rightarrow> bool \<Rightarrow> bool \<Rightarrow> config_state \<Rightarrow> (int \<times> old_sandbox option \<times> config_state) c_result" where
  "old_sandbox_init env present tmp_exists st =
     c_then (read_settings (jug_get_config env ''Executer'') present old_keys st) (\<lambda>(vs, st1). case vs of
       Some [mem, wall, tim, out, stack, cgr, rl, erfs, dir] \<Rightarrow>
         if \<not> can_alloc (conf_mem env) (length dir + 5) then Inl Null_deref
         else c_then (read_settings (jug_get_config env ''Executer'') present old_keys_2 st1)
           (\<lambda>(vs, st2). case vs of
             Some [kill, show] \<Rightarrow>
               if \<not> tmp_exists then Inr (-10, None, st2)
               else Inr (0, Some \<lparr>use_ERFS = atoi_str erfs, chroot_dir = dir, use_cgroups = atoi_str cgr,
                 use_setrlimit = atoi_str rl, mem_limit_mb_default = atoi_str mem,
                 time_limit_ms_default = atoi_str tim, walltime_limit_ms_default = atoi_str wall,
                 sb_output_limit_mb = atoi_str out, sb_stack_size_mb = atoi_str stack,
                 sb_kill_on_compout = atoi_str kill, sb_show_output = atoi_str show,
                 sb_nbr_instances = 0, sb_count_submissions = 0, sb_count_submissions_success = 0\<rparr>, st2)
           | _ \<Rightarrow> Inr (-1, None, st2))
     | _ \<Rightarrow> Inr (-1, None, st1))"

text \<open>\<open>jug_sandbox_template_init\<close>: the return value and \<open>template_pid\<close>. The mutex is not checked.\<close>

definition old_template_init :: "template_env \<Rightarrow> int \<Rightarrow> (int \<times> int) c_result" where
  "old_template_init w threads_max =
     (let n = nat threads_max in
      if threads_max > THREADS_MAX then Inr (-5, -1)
      else if \<exists>k < 2 * n. \<not> pipe_ok w k then Inr (-4, -1)
      else if \<not> pipe_ok w (2 * n) then Inr (-3, -1)
      else if \<not> pipe_ok w (2 * n + 1) then Inr (-3, -1)
      else if \<not> shmget_ok w then Inr (-1, -1)
      else if \<not> shmat_ok w then Inl Buffer_overflow
      else if \<not> stack_ok w then Inr (-1, -1)
      else if clone_pid w = -1 then Inr (-2, -1)
      else Inr (0, clone_pid w))"

definition old_template_term :: "int \<Rightarrow> int \<times> bool" where
  "old_template_term template_pid = (-1, template_pid > 0)"

text \<open>\<open>jug_sandbox_start\<close>: a code, or the sandbox and the process id of the template; and \<open>jug_sandbox_stop\<close>.\<close>

definition old_sandbox_start ::
  "config_env \<Rightarrow> bool \<Rightarrow> bool \<Rightarrow> template_env \<Rightarrow> int \<Rightarrow> config_state \<Rightarrow>
     ((int + (old_sandbox \<times> int)) \<times> config_state) c_result" where
  "old_sandbox_start env present tmp_exists w workers st =
     c_then (old_sandbox_init env present tmp_exists st) (\<lambda>(e, sandbox, st1). case sandbox of
       None \<Rightarrow> Inr (Inl (-1), st1)
     | Some b \<Rightarrow> c_then (old_template_init w workers) (\<lambda>(e, pid).
         Inr (if e \<noteq> 0 then Inl (-2) else Inr (b, pid), st1)))"

definition old_sandbox_stop :: "int \<Rightarrow> int \<times> bool" where
  "old_sandbox_stop template_pid = (0, snd (old_template_term template_pid))"

section \<open>Running a submission directly\<close>

definition O_WRONLY :: "32 word" where "O_WRONLY = 1"
definition FD_CLOEXEC :: "32 word" where "FD_CLOEXEC = 1"

text \<open>The checks of \<open>fd_datasource\<close> from the two answers of \<open>fcntl\<close>: the code of the error, if there is one.\<close>

definition old_check_datasource :: "bool \<Rightarrow> 32 word \<Rightarrow> 32 word \<Rightarrow> int option" where
  "old_check_datasource dir getfd getfl =
     (if sint getfd < 0 then Some (-4)
      else if getfd AND FD_CLOEXEC \<noteq> 0 then Some (-5)
      else if getfl AND O_RDWR = 0 then
        (if \<not> dir \<and> getfl AND O_RDONLY = 0 then Some (-6)
         else if dir \<and> getfl AND O_WRONLY = 0 then Some (-7)
         else None)
      else None)"

text \<open>What a run meets. \<open>ow_dir\<close>: the field \<open>fd_datasource_dir\<close>.\<close>

record old_world =
  ow_dir :: bool
  ow_getfd :: "32 word"
  ow_getfl :: "32 word"
  ow_out_pipe :: bool
  ow_in_pipe :: bool
  ow_dup2 :: bool
  ow_alloc :: bool
  ow_stack :: bool
  ow_clone_pid :: int
  ow_waits :: "wait_event list"
  ow_reads :: "read_event list"

text \<open>An iteration of the loop of \<open>jug_sandbox_run\<close>: the watcher, then the output. This version shows the output with
  \<open>write\<close> on its own standard output, which has no effect on the run, so that the step is \<open>check_output\<close>.\<close>

definition old_iteration ::
  "('f \<Rightarrow> string \<Rightarrow> int \<Rightarrow> int \<times> 'f) \<Rightarrow> run_conf \<Rightarrow> 'f run_state \<Rightarrow> ('f run_state \<times> bool) option" where
  "old_iteration cmp cf st = (case pull_watcher st of None \<Rightarrow> None | Some st1 \<Rightarrow> check_output cmp cf st1)"

lemma old_iteration_shorter:
  "old_iteration cmp cf st = Some (st', False) \<Longrightarrow> events_left st' < events_left st"
  by (auto simp: old_iteration_def events_left_def split: option.splits
      dest!: pull_watcher_shape check_output_shape split: if_splits)

function old_loop ::
  "('f \<Rightarrow> string \<Rightarrow> int \<Rightarrow> int \<times> 'f) \<Rightarrow> run_conf \<Rightarrow> 'f run_state \<Rightarrow> 'f run_state option" where
  "old_loop cmp cf st =
     (if were_done st then Some st
      else case old_iteration cmp cf st of
        None \<Rightarrow> None
      | Some (st', brk) \<Rightarrow> if brk then Some st' else old_loop cmp cf st')"
  by pat_completeness auto
termination
  by (relation "measure (\<lambda>(cmp, cf, st). events_left st)") (auto dest: old_iteration_shorter)

declare old_loop.simps [simp del]

text \<open>The result after the loop: a run whose watcher could not start the submission leaves it unset.\<close>

definition old_result :: "'f run_state \<Rightarrow> int c_result" where
  "old_result st =
     (if spawn_succeeded st then
        (case watcher_result st of
           None \<Rightarrow> Inl Uninitialised
         | Some w \<Rightarrow> if w = result_int JS_CORRECT then
               (case comp_result st of None \<Rightarrow> Inl Uninitialised | Some c \<Rightarrow> Inr (result_int c))
             else Inr w)
      else Inl Uninitialised)"

text \<open>What the loops look at; nothing is shown through \<open>debugt\<close>.\<close>

definition old_conf :: "old_sandbox \<Rightarrow> run_conf" where
  "old_conf sb = \<lparr>cnfg_kill_on_compout = (sb_kill_on_compout sb mod 2 ^ 16 \<noteq> 0),
     output_limit_mb = sb_output_limit_mb sb, datasource_size = 0, show_output = False, run_log = log_start,
     run_mem = granting\<rparr>"

text \<open>\<open>jug_sandbox_run\<close>: the return value and the parameters with the result; \<open>None\<close> while running.\<close>

definition old_sandbox_run ::
  "('f \<Rightarrow> string \<Rightarrow> int \<Rightarrow> int \<times> 'f) \<Rightarrow> old_sandbox \<Rightarrow> old_world \<Rightarrow> 'f \<Rightarrow> run_params \<Rightarrow>
     (int \<times> run_params) option c_result" where
  "old_sandbox_run cmp sb w f rp =
     (let rp1 = with_limits (mem_limit_mb_default sb) (time_limit_ms_default sb) rp in
      case old_check_datasource (ow_dir w) (ow_getfd w) (ow_getfl w) of
        Some code \<Rightarrow> Inr (Some (code, rp1))
      | None \<Rightarrow>
        if \<not> ow_out_pipe w then Inr (Some (-3, rp1))
        else if \<not> ow_in_pipe w then Inr (Some (-8, rp1))
        else if ow_dir w \<and> \<not> ow_dup2 w then Inr (Some (-9, rp1))
        else if \<not> ow_alloc w then Inl Null_deref
        else if \<not> ow_stack w then Inr (Some (-1, rp1))
        else if ow_clone_pid w = -1 then Inr (Some (-2, rp1))
        else case old_loop cmp (old_conf sb) (run_start (ow_waits w) [] (ow_reads w) f) of
          None \<Rightarrow> Inr None
        | Some st \<Rightarrow> c_then (old_result st) (\<lambda>r.
            Inr (Some (0, rp1\<lparr>watcher_pid := ow_clone_pid w, result := Some r\<rparr>))))"

section \<open>Running a submission through the template\<close>

text \<open>\<open>write to the watcher\<close>: \<open>sendfile\<close> is called in every iteration, and what was sent is not counted. The
  test \<open>ds_sent!=EAGAIN\<close> compares the return value \<open>-1\<close>, not \<open>errno\<close>: a full pipe is taken for an error.\<close>

definition old_feed :: "run_conf \<Rightarrow> 'f run_state \<Rightarrow> 'f run_state option" where
  "old_feed cf st = (case sends st of
       [] \<Rightarrow> None
     | Sent n # ss \<Rightarrow> Some (st\<lparr>sends := ss\<rparr>)
     | _ # ss \<Rightarrow> Some (kill_if (cnfg_kill_on_compout cf)
         (st\<lparr>sends := ss, comp_result := Some JS_PIPE_ERROR, compout_detected := True\<rparr>)))"

text \<open>The read that follows, whatever \<open>sendfile\<close> answered.\<close>

definition old_read ::
  "('f \<Rightarrow> string \<Rightarrow> int \<Rightarrow> int \<times> 'f) \<Rightarrow> run_conf \<Rightarrow> 'f run_state \<Rightarrow> 'f run_state option" where
  "old_read cmp cf st = (case reads st of
       [] \<Rightarrow> None
     | e # es \<Rightarrow> Some (let st1 = st\<lparr>reads := es\<rparr> in case e of
           Got d \<Rightarrow> (if d = [] then check_end cmp (st1\<lparr>endoffile := True\<rparr>) else check_piece cmp cf d st1)
         | Eof \<Rightarrow> check_end cmp (st1\<lparr>endoffile := True\<rparr>)
         | Read_again \<Rightarrow> (if \<not> watcher_alive st1 then check_end cmp (st1\<lparr>were_done := True\<rparr>) else st1)
         | Read_error \<Rightarrow> kill_if (cnfg_kill_on_compout cf)
             (st1\<lparr>comp_result := Some JS_PIPE_ERROR, compout_detected := True\<rparr>)))"

definition old_tpl_iteration ::
  "('f \<Rightarrow> string \<Rightarrow> int \<Rightarrow> int \<times> 'f) \<Rightarrow> run_conf \<Rightarrow> 'f run_state \<Rightarrow> ('f run_state \<times> bool) option" where
  "old_tpl_iteration cmp cf st = (case pull_watcher st of
       None \<Rightarrow> None
     | Some st1 \<Rightarrow>
         if endoffile st1 \<or> compout_detected st1 then Some (st1, \<not> watcher_alive st1)
         else (case old_feed cf st1 of
             None \<Rightarrow> None
           | Some st2 \<Rightarrow> map_option (\<lambda>st3. (st3, False)) (old_read cmp cf st2)))"

lemma old_feed_shape:
  "old_feed cf st = Some st1 \<Longrightarrow> reads st1 = reads st \<and> waits st1 = waits st \<and>
     watcher_alive st1 = watcher_alive st \<and> endoffile st1 = endoffile st"
  by (auto simp: old_feed_def split: list.splits send_event.splits)

lemma old_read_shape:
  "old_read cmp cf st = Some st1 \<Longrightarrow> waits st1 = waits st \<and> length (reads st1) < length (reads st)"
  by (auto simp: old_read_def check_end_def check_piece_def kill_if_def Let_def
      split: list.splits read_event.splits if_splits prod.splits)

lemma old_tpl_iteration_shorter:
  "old_tpl_iteration cmp cf st = Some (st', False) \<Longrightarrow> events_left st' < events_left st"
  by (auto simp: old_tpl_iteration_def events_left_def split: option.splits if_splits
      dest!: pull_watcher_shape old_feed_shape old_read_shape)

function old_tpl_loop ::
  "('f \<Rightarrow> string \<Rightarrow> int \<Rightarrow> int \<times> 'f) \<Rightarrow> run_conf \<Rightarrow> 'f run_state \<Rightarrow> 'f run_state option" where
  "old_tpl_loop cmp cf st =
     (if were_done st then Some st
      else case old_tpl_iteration cmp cf st of
        None \<Rightarrow> None
      | Some (st', brk) \<Rightarrow> if brk then Some st' else old_tpl_loop cmp cf st')"
  by pat_completeness auto
termination
  by (relation "measure (\<lambda>(cmp, cf, st). events_left st)") (auto dest: old_tpl_iteration_shorter)

declare old_tpl_loop.simps [simp del]

text \<open>\<open>jug_sandbox_run_tpl\<close>. The answers for the two flushing loops of the present version are not used: the
  pipes are not emptied after a run.\<close>

definition old_sandbox_run_tpl ::
  "('f \<Rightarrow> string \<Rightarrow> int \<Rightarrow> int \<times> 'f) \<Rightarrow> old_sandbox \<Rightarrow> run_world \<Rightarrow> 'f \<Rightarrow> int \<Rightarrow> run_params \<Rightarrow>
     (int \<times> run_params) option c_result" where
  "old_sandbox_run_tpl cmp sb w f thread_order rp =
     (let rp1 = with_limits (mem_limit_mb_default sb) (time_limit_ms_default sb) rp;
          rp2 = rp1\<lparr>watcher_pid := rw_pid w\<rparr> in
      if thread_order < 0 \<or> thread_order \<ge> THREADS_MAX then Inl Out_of_bounds
      else if \<not> rw_alloc w then Inl Null_deref
      else if rw_pid w = -1 then Inr (Some (-2, rp2))
      else if \<not> rw_in_pipe_ok w then Inr (Some (-3, rp2))
      else if \<not> rw_datasource_ok w then Inr (Some (-3, rp2))
      else case old_tpl_loop cmp (old_conf sb) (run_start (rw_waits w) (rw_sends w) (rw_reads w) f) of
        None \<Rightarrow> Inr None
      | Some st \<Rightarrow> c_then (final_result st) (\<lambda>r. Inr (Some (0, rp2\<lparr>result := Some r\<rparr>))))"

text \<open>\<open>jug_sandbox_judge\<close>. The local \<open>result\<close> is tested before anything is stored in it, but only to choose
  whether a line is logged.\<close>

definition old_sandbox_judge ::
  "('f \<Rightarrow> string \<Rightarrow> int \<Rightarrow> int \<times> 'f) \<Rightarrow> old_sandbox \<Rightarrow> run_world \<Rightarrow> bool \<Rightarrow> bool \<Rightarrow> 'f \<Rightarrow>
     jug_submission \<Rightarrow> jug_verdict_enum option c_result" where
  "old_sandbox_judge cmp sb w in_ok right_ok f sub =
     (if \<not> in_ok \<or> \<not> right_ok then Inr (Some VERDICT_INTERNAL)
      else if use_ERFS sb = 1 then Inr (Some VERDICT_INTERNAL)
      else if \<not> rw_alloc w then Inl Null_deref
      else if length (bin_path sub) + 1 > 99 then Inl Buffer_overflow
      else c_then (old_sandbox_run_tpl cmp sb w f (thread_id sub)
          \<lparr>mem_limit_mb = -1, time_limit_ms = -1, rp_datasource_size = input_size sub, watcher_pid = 0,
           result = None\<rparr>) (\<lambda>r. case r of
            None \<Rightarrow> Inr None
          | Some (ret, rp) \<Rightarrow>
              if ret \<noteq> 0 then Inr (Some VERDICT_INTERNAL)
              else case result rp of None \<Rightarrow> Inl Uninitialised | Some z \<Rightarrow> Inr (Some (verdict_of_result z))))"

section \<open>The watcher\<close>

text \<open>The preparation of \<open>jug_sandbox_child\<close>: the code it exits with, or \<open>None\<close>. The answers for calls that only
  the present version makes are not looked at.\<close>

definition old_watcher_setup :: "old_sandbox \<Rightarrow> setup_env \<Rightarrow> int option" where
  "old_watcher_setup sb e =
     (if \<not> se_chdir e then Some (-2)
      else if use_ERFS sb \<noteq> 0 \<and> \<not> se_chroot e then Some (-3)
      else if se_umount_proc e \<noteq> Ok \<and> se_umount_proc e \<noteq> Err_EINVAL then Some (-4)
      else if \<not> se_mount_proc e then Some (-4)
      else if se_umount_tmp e \<noteq> Ok \<and> se_umount_tmp e \<noteq> Err_EINVAL then Some (-9)
      else if \<not> se_mount_tmp e then Some (-9)
      else if \<not> se_bind_tmp e then Some (-9)
      else if se_dup_out e \<noteq> Ok \<and> se_dup_out e \<noteq> Err_EINTR then Some (-5)
      else if se_fork e < 0 then Some (-6)
      else if \<not> se_setoptions e then Some (-21)
      else None)"

text \<open>\<open>watcher_sig_handler\<close>; the watcher installs it for \<open>SIGALRM\<close> only.\<close>

datatype old_signal = Old_SIGALRM | Old_SIGUSR1 | Old_other

definition old_sig_handler :: "old_signal \<times> bool \<Rightarrow> watch_state \<Rightarrow> watch_state" where
  "old_sig_handler = (\<lambda>(sig, kill_ok) st. case sig of
       Old_SIGALRM \<Rightarrow> (if kill_ok then st\<lparr>binary_state := JS_BIN_WALLTIMEOUT, kills_sent := Suc (kills_sent st)\<rparr>
                       else st)
     | Old_SIGUSR1 \<Rightarrow> (if kill_ok then st\<lparr>binary_state := JS_BIN_COMPOUT, kills_sent := Suc (kills_sent st)\<rparr>
                       else st)
     | Old_other \<Rightarrow> st)"

definition old_installed :: "old_signal \<Rightarrow> bool" where
  "old_installed sig \<longleftrightarrow> sig = Old_SIGALRM"

definition old_deliver :: "(old_signal \<times> bool) list \<Rightarrow> watch_state \<Rightarrow> watch_state" where
  "old_deliver sigs = fold old_sig_handler (filter (\<lambda>(sig, ok). old_installed sig) sigs)"

text \<open>A stopped submission. The memory it uses is an \<open>unsigned long\<close>, and so is the limit it is compared with.\<close>

definition old_handle_stop :: "int \<Rightarrow> 64 word \<Rightarrow> 32 word \<Rightarrow> watch_state \<Rightarrow> watch_state" where
  "old_handle_stop mem_limit mem status st =
     (let stop_sig = WSTOPSIG status;
          st1 = (if stop_sig = SIGTRAP \<and> status AND push_bit 8 PTRACE_EVENT_EXIT \<noteq> 0 \<and>
                   mem > 0 \<and> mem div 1000000 > of_int mem_limit
                 then st\<lparr>mem_limit_exceeded := True\<rparr> else st);
          st2 = (if event_stop status PTRACE_EVENT_FORK \<or> event_stop status PTRACE_EVENT_CLONE \<or>
                   event_stop status PTRACE_EVENT_VFORK
                 then st1\<lparr>bin_killed := True, kills_sent := kills_sent st1 + 2\<rparr> else st1);
          st3 = (if event_stop status PTRACE_EVENT_EXEC
                 then st2\<lparr>bin_killed := True, kills_sent := Suc (kills_sent st2)\<rparr> else st2);
          st4 = (if stop_sig = SIGXCPU \<and> \<not> sigxcpu_received st3 then st3\<lparr>sigxcpu_received := True\<rparr> else st3) in
      if stop_sig = SIGSEGV
      then st4\<lparr>sigsegv_received := True,
             mem_limit_exceeded := (mem_limit_exceeded st4 \<or> mem \<ge> 0 \<and> mem div 1000000 \<ge> of_int mem_limit),
             kills_sent := Suc (kills_sent st4)\<rparr>
      else st4)"

text \<open>An iteration waits for the submission, without a limit; \<open>None\<close>: \<open>waitpid\<close> fails, and \<open>estatus\<close> keeps the status of
  the iteration before. The signals are those that arrive before \<open>waitpid\<close> returns.\<close>

record old_watch_input =
  oi_signals :: "(old_signal \<times> bool) list"
  oi_wait :: "32 word option"
  oi_mem :: "64 word"

definition old_watch_iteration ::
  "int \<Rightarrow> old_watch_input \<Rightarrow> 32 word \<times> watch_state \<Rightarrow> (32 word \<times> watch_state) \<times> bool" where
  "old_watch_iteration mem_limit i = (\<lambda>(estatus0, st0).
     let st = old_deliver (oi_signals i) st0;
         estatus = (case oi_wait i of None \<Rightarrow> estatus0 | Some s \<Rightarrow> s) in
     if WIFSTOPPED estatus then ((estatus, old_handle_stop mem_limit (oi_mem i) estatus st), False)
     else if WIFEXITED estatus then ((estatus, st), True)
     else if WIFSIGNALED estatus then ((estatus, st\<lparr>bin_killed := True\<rparr>), True)
     else ((estatus, st), True))"

fun old_watch_loop ::
  "int \<Rightarrow> old_watch_input list \<Rightarrow> 32 word \<times> watch_state \<Rightarrow> watch_state option" where
  "old_watch_loop mem_limit [] x = None"
| "old_watch_loop mem_limit (i # is) x =
     (case old_watch_iteration mem_limit i x of
        (x', True) \<Rightarrow> Some (snd x')
      | (x', False) \<Rightarrow> old_watch_loop mem_limit is x')"

text \<open>The result the watcher exits with.\<close>

definition old_watch_result :: "watch_state \<Rightarrow> jug_sandbox_result" where
  "old_watch_result st =
     (if sigxcpu_received st then JS_TIMELIMIT
      else if mem_limit_exceeded st then JS_MEMLIMIT
      else if binary_state st = JS_BIN_WALLTIMEOUT then JS_WALL_TIMELIMIT
      else if binary_state st = JS_BIN_COMPOUT then JS_CORRECT
      else if sigsegv_received st \<or> bin_killed st then
        (if mem_limit_exceeded st then JS_MEMLIMIT else JS_RUNTIME)
      else JS_CORRECT)"

text \<open>The watcher as a whole: its exit code, \<open>None\<close> while it is running; \<open>first\<close> is the status the \<open>wait\<close> before the loop
  stores.\<close>

definition old_sandbox_child ::
  "old_sandbox \<Rightarrow> int \<Rightarrow> setup_env \<Rightarrow> 32 word \<Rightarrow> old_watch_input list \<Rightarrow> int option" where
  "old_sandbox_child sb mem_limit e first inputs =
     (case old_watcher_setup sb e of
        Some code \<Rightarrow> Some code
      | None \<Rightarrow> (case old_watch_loop mem_limit inputs (first, watch_start) of
          None \<Rightarrow> None
        | Some st \<Rightarrow> Some (result_int (old_watch_result st))))"

text \<open>The process that becomes the submission, after the fork in \<open>jug_sandbox_child\<close>. It gives up its groups and
  its user one by one and checks each.\<close>

record old_binary_env = binary_env +
  be_setgid :: bool
  be_setgroups :: bool
  be_setuid :: bool

definition old_binary :: "old_binary_env \<Rightarrow> int option c_result" where
  "old_binary e =
     (if \<not> be_traceme e then Inl Uninitialised
      else if \<not> be_cpu_rlimit e then Inr (Some 100)
      else if \<not> be_as_rlimit e then Inr (Some 101)
      else if \<not> be_nobody e then Inl Null_deref
      else if \<not> be_setgid e then Inr (Some 110)
      else if \<not> be_setgroups e then Inr (Some 111)
      else if \<not> be_setuid e then Inr (Some 112)
      else if be_setuid0 e then Inr (Some 113)
      else if \<not> be_exec e then Inr (Some (-999))
      else Inr None)"

section \<open>Serialisation, names and usage\<close>

text \<open>The sizes of the two structures are those of the version of \<open>sandbox.h\<close> the file was written for.\<close>

definition old_template_unserialize :: "nat \<Rightarrow> nat \<Rightarrow> ptr \<Rightarrow> clone_child_params c_result" where
  "old_template_unserialize sizeof_run_params sizeof_sandbox serial =
     c_then (take_bytes sizeof_run_params serial) (\<lambda>(rp, p1).
     c_then (take_bytes sizeof_sandbox p1) (\<lambda>(sb, p2).
     c_then (take_string p2) (\<lambda>(path, p3).
     c_then (take_bytes 4 p3) (\<lambda>(n, p4).
     let argc = bytes_int n in
     if argc < 0 then Inl Buffer_overflow
     else c_then (take_argv (nat argc) p4) (\<lambda>as.
       Inr \<lparr>run_params_bytes = rp, sandbox_bytes = sb, binary_path = path, child_argv = as\<rparr>)))))"

text \<open>The size is computed first, then the parts are copied one after the other into \<open>malloc(sz)\<close>.\<close>

definition old_serial_size :: "clone_child_params \<Rightarrow> nat" where
  "old_serial_size ccp = length (run_params_bytes ccp) + length (sandbox_bytes ccp) +
     (length (binary_path ccp) + 1) + sum_list (map (\<lambda>a. length a + 1) (child_argv ccp)) + 4"

fun copy_parts :: "ptr \<Rightarrow> nat \<Rightarrow> string list \<Rightarrow> ptr c_result" where
  "copy_parts serial index [] = Inr serial"
| "copy_parts serial index (x # xs) =
     c_then (c_memcpy (drop index serial) x (length x)) (\<lambda>q.
       copy_parts (take index serial @ q) (index + length x) xs)"

definition old_template_serialize :: "allocator \<Rightarrow> clone_child_params \<Rightarrow> (ptr \<times> nat) c_result" where
  "old_template_serialize mem ccp =
     (let sz = old_serial_size ccp in
      if \<not> can_alloc mem sz then Inl Null_deref
      else c_then (copy_parts (map (junk mem) [0..<sz]) 0
          ([run_params_bytes ccp, sandbox_bytes ccp, binary_path ccp @ [NUL],
            int_bytes (int (length (child_argv ccp)))] @ map (\<lambda>a. a @ [NUL]) (child_argv ccp)))
        (\<lambda>serial. Inr (serial, sz)))"

text \<open>\<open>jug_sandbox_result_str\<close> indexes a table of twelve pointers, the last two of them null.\<close>

definition old_result_strings :: "string option list" where
  "old_result_strings = map Some [''CORRECT ANSWER'', ''WRONG ANSWER'', ''TIME LIMIT EXCEEDED'',
     ''WALL TIME LIMIT EXCEEDED'', ''MEMORY LIMIT EXCEEDED'', ''OUTPUT SIZE LIMIT EXCEEDED'',
     ''RUNTIME ERROR'', ''PIPE ERROR'', ''COMPARING FUNCTION ERROR'', ''UNKNOWN ERROR''] @ [None, None]"

definition old_result_str :: "int \<Rightarrow> string option c_result" where
  "old_result_str r = (if 0 \<le> r \<and> r < 12 then Inr (old_result_strings ! nat r) else Inl Out_of_bounds)"

text \<open>The memory in use; the codes of the two errors become the largest values of \<open>unsigned long\<close>.\<close>

definition old_memory_usage :: "int \<Rightarrow> string option option \<Rightarrow> 64 word c_result" where
  "old_memory_usage page_size statm = (case statm of
       None \<Rightarrow> Inr (-1)
     | Some None \<Rightarrow> Inr (-2)
     | Some (Some text) \<Rightarrow>
         if length (take 200 text) \<ge> 200 then Inl Buffer_overflow
         else (case scan_number (cstr (text @ [NUL])) of
             None \<Rightarrow> Inl Uninitialised
           | Some vmsize \<Rightarrow> Inr (word_of_int (vmsize * page_size))))"

text \<open>A missing file ends in \<open>return ;\<close>, which gives the caller no value.\<close>

definition old_cputime_usage :: "int \<Rightarrow> string option \<Rightarrow> 64 word c_result" where
  "old_cputime_usage clk_tck stat = (case stat of
       None \<Rightarrow> Inl Uninitialised
     | Some text \<Rightarrow> (let ws = words_of [] text in
         if \<exists>w \<in> set (take 13 ws). length w \<ge> 200 then Inl Buffer_overflow
         else if length ws < 15 \<or> \<not> number_word (ws ! 13) \<or> scan_number (ws ! 14) = None then Inl Uninitialised
         else Inr (word_of_int (c_quot (int32 (1000 * (atoi_str (ws ! 13) + atoi_str (ws ! 14)))) clk_tck))))"

text \<open>\<open>jug_hash\<close>: \<open>char\<close> is signed, the arithmetic is that of \<open>unsigned int\<close>, and so is the comparison with \<open>len\<close>.\<close>

definition signed_char :: "char \<Rightarrow> 32 word" where
  "signed_char c = of_int (sint (of_char c :: 8 word))"

definition jug_hash :: "ptr \<Rightarrow> int \<Rightarrow> 32 word c_result" where
  "jug_hash key len =
     (let n = unat (of_int len :: 32 word) in
      if n > length key then Inl Out_of_bounds
      else Inr (fold (\<lambda>c hash. 5381 * hash + signed_char c) (take n key) 5381 mod 999999))"

section \<open>The test program\<close>

text \<open>\<open>main\<close> of \<open>src/tests/test_sandbox.c\<close>, for a program with \<open>argc\<close> arguments: the exit code and the text of the result;
  \<open>None\<close> while the run goes on. The return value of \<open>jug_sandbox_run\<close> is not looked at.\<close>

definition test_sandbox_main ::
  "('f \<Rightarrow> string \<Rightarrow> int \<Rightarrow> int \<times> 'f) \<Rightarrow> config_env \<Rightarrow> bool \<Rightarrow> old_world \<Rightarrow> 'f \<Rightarrow> nat \<Rightarrow> config_state \<Rightarrow>
     (int \<times> string option) option c_result" where
  "test_sandbox_main cmp env tmp_exists w f argc st =
     (if argc < 2 then Inr (Some (475, None))
      else c_then (old_sandbox_init env True tmp_exists st) (\<lambda>(ret, sandbox, st1). case sandbox of
        None \<Rightarrow> Inr (Some (1, None))
      | Some sb \<Rightarrow>
          c_then (old_sandbox_run cmp sb (w\<lparr>ow_dir := False\<rparr>) f
            \<lparr>mem_limit_mb = -1, time_limit_ms = -1, rp_datasource_size = 0, watcher_pid = 0, result = None\<rparr>) (\<lambda>r.
          case r of
            None \<Rightarrow> Inr None
          | Some (ret, rp) \<Rightarrow> (case result rp of
              None \<Rightarrow> Inl Uninitialised
            | Some z \<Rightarrow> c_then (old_result_str z) (\<lambda>t. Inr (Some (0, t)))))))"

section \<open>Laws: loops that feed the submission\<close>

text \<open>A run without what concerns the input: the loop of \<open>jug_sandbox_run\<close> does not feed the submission.\<close>

definition run_view :: "'f run_state \<Rightarrow> 'f run_state" where
  "run_view st = st\<lparr>sends := [], ds_sent_acc := 0\<rparr>"

lemma run_view_fields [simp]:
  "reads (run_view st) = reads st" "waits (run_view st) = waits st" "ref (run_view st) = ref st"
  "endoffile (run_view st) = endoffile st" "were_done (run_view st) = were_done st"
  "compout_detected (run_view st) = compout_detected st" "watcher_alive (run_view st) = watcher_alive st"
  "received_bytes (run_view st) = received_bytes st" "compare_stage (run_view st) = compare_stage st"
  "comp_result (run_view st) = comp_result st" "watcher_result (run_view st) = watcher_result st"
  "spawn_succeeded (run_view st) = spawn_succeeded st" "run_fault (run_view st) = run_fault st"
  "events_left (run_view st) = events_left st"
  by (simp_all add: run_view_def events_left_def)

lemma run_view_updates [simp]:
  "run_view (st\<lparr>reads := rs\<rparr>) = (run_view st)\<lparr>reads := rs\<rparr>"
  "run_view (st\<lparr>waits := ws\<rparr>) = (run_view st)\<lparr>waits := ws\<rparr>"
  "run_view (st\<lparr>endoffile := b\<rparr>) = (run_view st)\<lparr>endoffile := b\<rparr>"
  "run_view (st\<lparr>were_done := b\<rparr>) = (run_view st)\<lparr>were_done := b\<rparr>"
  "run_view (st\<lparr>watcher_alive := b\<rparr>) = (run_view st)\<lparr>watcher_alive := b\<rparr>"
  "run_view (st\<lparr>comp_result := c\<rparr>) = (run_view st)\<lparr>comp_result := c\<rparr>"
  "run_view (st\<lparr>compout_detected := b\<rparr>) = (run_view st)\<lparr>compout_detected := b\<rparr>"
  "run_view (st\<lparr>sends := ss\<rparr>) = run_view st" "run_view (st\<lparr>ds_sent_acc := z\<rparr>) = run_view st"
  by (simp_all add: run_view_def)

lemma kill_if_view [simp]: "run_view (kill_if b st) = kill_if b (run_view st)"
  by (simp add: kill_if_def run_view_def)

lemma kill_if_received [simp]: "received_bytes (kill_if b st) = received_bytes st"
  by (simp add: kill_if_def)

lemma check_piece_view [simp]: "run_view (check_piece cmp cf d st) = check_piece cmp cf d (run_view st)"
  by (simp add: check_piece_def kill_if_def run_view_def Let_def split: prod.split)

lemma check_end_view [simp]: "run_view (check_end cmp st) = check_end cmp (run_view st)"
  by (simp add: check_end_def run_view_def split: prod.split)

lemma pull_watcher_view: "pull_watcher (run_view st) = map_option run_view (pull_watcher st)"
  by (auto simp: pull_watcher_def watcher_event_def run_view_def Let_def
      split: list.split wait_event.split)

lemma check_output_view:
  "check_output cmp cf (run_view st) = map_option (map_prod run_view id) (check_output cmp cf st)"
  by (simp add: check_output_def Let_def split: list.split read_event.split)

lemma check_output_read:
  "\<not> endoffile st \<Longrightarrow> \<not> compout_detected st \<Longrightarrow>
     check_output cmp cf st = map_option (\<lambda>st1. (st1, False)) (old_read cmp cf st)"
  by (simp add: check_output_def old_read_def Let_def split: list.split)

lemma final_result_view [simp]: "final_result (run_view st) = final_result st"
  by (simp add: final_result_def split: option.split)

text \<open>A loop whose iterations do what those of \<open>jug_sandbox_run\<close> do as long as feeding goes well (\<open>calm\<close>) gives what
  that loop gives.\<close>

locale feeding_loop =
  fixes iteration :: "('f \<Rightarrow> string \<Rightarrow> int \<Rightarrow> int \<times> 'f) \<Rightarrow> run_conf \<Rightarrow> 'f run_state \<Rightarrow>
      ('f run_state \<times> bool) option"
    and loop :: "('f \<Rightarrow> string \<Rightarrow> int \<Rightarrow> int \<times> 'f) \<Rightarrow> run_conf \<Rightarrow> 'f run_state \<Rightarrow> 'f run_state option"
    and calm :: "run_conf \<Rightarrow> 'f run_state \<Rightarrow> bool"
  assumes unfold: "loop cmp cf st = (if were_done st then Some st
      else case iteration cmp cf st of
        None \<Rightarrow> None | Some (st', brk) \<Rightarrow> if brk then Some st' else loop cmp cf st')"
    and simulates: "calm cf st \<Longrightarrow>
      old_iteration cmp cf (run_view st) = map_option (map_prod run_view id) (iteration cmp cf st)"
    and keeps: "calm cf st \<Longrightarrow> iteration cmp cf st = Some (st', False) \<Longrightarrow> calm cf st'"
begin

lemma loop_view: "calm cf st \<Longrightarrow> map_option run_view (loop cmp cf st) = old_loop cmp cf (run_view st)"
proof (induction "events_left st" arbitrary: st rule: less_induct)
  case less
  show ?case
  proof (cases "were_done st")
    case True
    then show ?thesis by (simp add: unfold old_loop.simps [of _ _ "run_view st"])
  next
    case False
    note sim = simulates [OF less.prems, of cmp]
    show ?thesis
    proof (cases "iteration cmp cf st")
      case None
      then show ?thesis using sim False by (simp add: unfold old_loop.simps [of _ _ "run_view st"])
    next
      case (Some r)
      obtain st' brk where r: "r = (st', brk)" by (cases r)
      have it: "old_iteration cmp cf (run_view st) = Some (run_view st', brk)" using sim Some r by simp
      have "map_option run_view (loop cmp cf st') = old_loop cmp cf (run_view st')" if "\<not> brk"
        using less.hyps [of st'] keeps [OF less.prems, of cmp st'] old_iteration_shorter [of cmp cf "run_view st"]
          it Some r that by simp
      then show ?thesis
        using False Some r it
        by (cases brk) (simp_all add: unfold [of _ _ st] old_loop.simps [of _ _ "run_view st"])
    qed
  qed
qed

text \<open>So the result of the run does not depend on how the input was cut into pieces.\<close>

lemma same_result:
  assumes "calm cf st"
  shows "map_option final_result (loop cmp cf st) = map_option final_result (old_loop cmp cf (run_view st))"
proof -
  have "map_option final_result (loop cmp cf st) =
      map_option final_result (map_option run_view (loop cmp cf st))"
    by (simp add: option.map_comp comp_def)
  then show ?thesis using loop_view [OF assms] by simp
qed

end

text \<open>Both loops through the template are such loops: the present one as long as \<open>sendfile\<close> reports no error and the
  output, if it is shown, can be shown, the old one as long as it sends something, be it nothing at the end of the input. There is an answer for each iteration.\<close>

definition steady :: "run_conf \<Rightarrow> 'f run_state \<Rightarrow> bool" where
  "steady cf st \<longleftrightarrow> Send_error \<notin> set (sends st) \<and> events_left st < length (sends st) \<and>
     (\<forall>e \<in> set (reads st). show_event cf e = None)"

definition smooth :: "run_conf \<Rightarrow> 'f run_state \<Rightarrow> bool" where
  "smooth cf st \<longleftrightarrow> (\<forall>e \<in> set (sends st). \<exists>n. e = Sent n) \<and> events_left st < length (sends st)"

lemma feed_watcher_steady:
  assumes "Send_error \<notin> set (sends st)" "sends st \<noteq> []"
  obtains st1 where "feed_watcher cf st = Some st1" "run_view st1 = run_view st"
    "Send_error \<notin> set (sends st1)" "length (sends st) \<le> Suc (length (sends st1))"
proof -
  obtain e ss where e: "sends st = e # ss" using assms(2) by (cases "sends st") auto
  have "\<exists>st1. feed_watcher cf st = Some st1 \<and> run_view st1 = run_view st \<and>
      (sends st1 = sends st \<or> sends st1 = ss)"
    using assms(1) e by (cases e) (auto simp: feed_watcher_def)
  with assms(1) e show thesis by (auto intro: that)
qed

lemma pull_watcher_sends: "pull_watcher st = Some st1 \<Longrightarrow> sends st1 = sends st \<and> events_left st1 \<le> events_left st"
  by (auto simp: pull_watcher_def watcher_event_def events_left_def Let_def
      split: list.splits wait_event.splits if_splits)

lemma check_output_sends:
  "check_output cmp cf st = Some (st1, brk) \<Longrightarrow> sends st1 = sends st \<and> set (reads st1) \<subseteq> set (reads st)"
  by (auto simp: check_output_def check_end_def check_piece_def kill_if_def Let_def
      split: list.splits read_event.splits if_splits prod.splits)

lemma old_read_sends: "old_read cmp cf st = Some st1 \<Longrightarrow> sends st1 = sends st"
  by (auto simp: old_read_def check_end_def check_piece_def kill_if_def Let_def
      split: list.splits read_event.splits if_splits prod.splits)

lemma pull_watcher_reads: "pull_watcher st = Some st1 \<Longrightarrow> reads st1 = reads st"
  using pull_watcher_shape by blast

lemma feed_watcher_reads: "feed_watcher cf st = Some st1 \<Longrightarrow> reads st1 = reads st"
  using feed_watcher_shape by blast

text \<open>What a steady iteration of the present loop consists of.\<close>

lemma steady_iteration:
  assumes "steady cf st" "pull_watcher st = Some st1"
  obtains st2 where "feed_watcher cf st1 = Some st2" "run_view st2 = run_view st1"
    "Send_error \<notin> set (sends st2)" "length (sends st) \<le> Suc (length (sends st2))"
    "run_iteration cmp cf st = check_output cmp cf st2" "reads st2 = reads st"
proof -
  have "Send_error \<notin> set (sends st1)" "sends st1 \<noteq> []" "sends st1 = sends st"
    using assms pull_watcher_sends [OF assms(2)] by (auto simp: steady_def)
  then obtain st2 where f: "feed_watcher cf st1 = Some st2" "run_view st2 = run_view st1"
      "Send_error \<notin> set (sends st2)" "length (sends st) \<le> Suc (length (sends st2))"
    by (metis feed_watcher_steady)
  moreover have r: "reads st2 = reads st"
    using feed_watcher_reads [OF f(1)] pull_watcher_reads [OF assms(2)] by simp
  moreover have "take_output cmp cf st2 = check_output cmp cf st2"
    using assms(1) r by (intro take_output_unshown) (metis list.set_intros(1) steady_def)
  ultimately show thesis using assms(2) by (intro that [of st2]) (simp_all add: run_iteration_def)
qed

interpretation new_run: feeding_loop run_iteration run_loop steady
proof (unfold_locales, goal_cases)
  case (1 cmp cf st)
  then show ?case by (rule run_loop.simps)
next
  case (2 cf st cmp)
  show ?case
  proof (cases "pull_watcher st")
    case None
    then show ?thesis by (simp add: old_iteration_def run_iteration_def pull_watcher_view)
  next
    case (Some st1)
    obtain st2 where "run_view st2 = run_view st1" "run_iteration cmp cf st = check_output cmp cf st2"
      using steady_iteration [OF 2 Some] .
    with Some show ?thesis
      by (simp add: old_iteration_def pull_watcher_view flip: check_output_view)
  qed
next
  case (3 cf st cmp st')
  obtain st1 where p: "pull_watcher st = Some st1"
    using 3(2) by (auto simp: run_iteration_def split: option.splits)
  obtain st2 where st2: "Send_error \<notin> set (sends st2)" "length (sends st) \<le> Suc (length (sends st2))"
      "run_iteration cmp cf st = check_output cmp cf st2" "reads st2 = reads st"
    using steady_iteration [OF 3(1) p] .
  have "sends st' = sends st2 \<and> set (reads st') \<subseteq> set (reads st)"
    using 3(2) st2(3,4) check_output_sends by fastforce
  then show ?case
    using 3(1) st2(1,2) run_iteration_shorter [OF 3(2)] by (auto simp: steady_def)
qed

lemma old_feed_smooth:
  assumes "\<forall>e \<in> set (sends st). \<exists>n. e = Sent n" "sends st \<noteq> []"
  shows "old_feed cf st = Some (st\<lparr>sends := tl (sends st)\<rparr>)"
  using assms by (cases "sends st") (auto simp: old_feed_def)

interpretation old_run: feeding_loop old_tpl_iteration old_tpl_loop smooth
proof (unfold_locales, goal_cases)
  case (1 cmp cf st)
  then show ?case by (rule old_tpl_loop.simps)
next
  case (2 cf st cmp)
  show ?case
  proof (cases "pull_watcher st")
    case None
    then show ?thesis by (simp add: old_iteration_def old_tpl_iteration_def pull_watcher_view)
  next
    case (Some st1)
    then have "old_feed cf st1 = Some (st1\<lparr>sends := tl (sends st1)\<rparr>)"
      using 2 pull_watcher_sends [OF Some] by (intro old_feed_smooth) (auto simp: smooth_def)
    moreover have "check_output cmp cf (run_view st1) =
        map_option (map_prod run_view id) (check_output cmp cf (st1\<lparr>sends := tl (sends st1)\<rparr>))"
      using check_output_view [of cmp cf "st1\<lparr>sends := tl (sends st1)\<rparr>"] by simp
    ultimately show ?thesis
      using Some check_output_read [of "st1\<lparr>sends := tl (sends st1)\<rparr>" cmp cf]
      by (auto simp: old_iteration_def old_tpl_iteration_def pull_watcher_view check_output_def)
  qed
next
  case (3 cf st cmp st')
  obtain st1 where p: "pull_watcher st = Some st1"
    using 3(2) by (auto simp: old_tpl_iteration_def split: option.splits)
  then have f: "old_feed cf st1 = Some (st1\<lparr>sends := tl (sends st1)\<rparr>)"
    using 3(1) pull_watcher_sends [OF p] by (intro old_feed_smooth) (auto simp: smooth_def)
  have "sends st' = sends st1 \<or> sends st' = tl (sends st1)"
    using 3(2) p f by (auto simp: old_tpl_iteration_def split: if_splits dest: old_read_sends)
  then have "length (sends st) \<le> Suc (length (sends st'))" "set (sends st') \<subseteq> set (sends st)"
    using pull_watcher_sends [OF p] by (cases "sends st"; auto)+
  then show ?case
    using 3(1) old_tpl_iteration_shorter [OF 3(2)] by (auto simp: smooth_def)
qed

text \<open>Starting the template differs in the mutex alone.\<close>

lemma old_template_init_new: "mutex_ok w \<Longrightarrow> old_template_init w n = jug_runner_template_init w n"
  by (simp only: old_template_init_def jug_runner_template_init_def Let_def not_True_eq_False if_False)

section \<open>Laws: the watcher\<close>

lemma old_deliver_simps [simp]:
  "old_deliver [] st = st"
  "old_deliver ((sig, ok) # sigs) st = old_deliver sigs (if old_installed sig then old_sig_handler (sig, ok) st else st)"
  by (simp_all add: old_deliver_def)

text \<open>The same signals: those that tell a watcher of wrong output (\<open>SIGUSR1\<close> then, \<open>SIGUSR2\<close> now) are not among them.\<close>

definition same_signal :: "old_signal \<times> bool \<Rightarrow> watch_signal \<times> bool \<Rightarrow> bool" where
  "same_signal = (\<lambda>(a, a_ok) (b, b_ok).
     a = Old_SIGALRM \<and> b = SIGALRM \<and> a_ok = b_ok \<or> a = Old_other \<and> b = Other_signal)"

abbreviation same_signals :: "(old_signal \<times> bool) list \<Rightarrow> (watch_signal \<times> bool) list \<Rightarrow> bool" where
  "same_signals \<equiv> list_all2 same_signal"

text \<open>The same events, as a watcher that waits and one that polls get them. The present watcher makes iterations in which
  the submission has nothing to report (\<open>idle\<close>), and there some of the signals reach it that the old one gets
  in its \<open>waitpid\<close>; otherwise (\<open>event\<close>) both get the status and, if they ask for it, the memory in use, which can be read.
  How much of the input the present watcher moves on the way is left open, as long as no call fails; \<open>waiting\<close>: the
  events so far are over.\<close>

inductive same_events :: "old_watch_input list \<Rightarrow> watch_input list \<Rightarrow> bool" where
  waiting: "\<forall>j \<in> set js. wi_poll j = No_event \<and> wi_splice j \<noteq> Splice_error \<Longrightarrow> same_events [] js"
| idle: "wi_poll j = No_event \<Longrightarrow> wi_splice j \<noteq> Splice_error \<Longrightarrow> same_signals sigs (wi_signals j) \<Longrightarrow>
    oi_signals i = sigs @ rest \<Longrightarrow> same_events (i\<lparr>oi_signals := rest\<rparr> # is) js \<Longrightarrow> same_events (i # is) (j # js)"
| event: "wi_poll j = Event s \<Longrightarrow> oi_wait i = Some s \<Longrightarrow> wi_splice j \<noteq> Splice_error \<Longrightarrow>
    same_signals (oi_signals i) (wi_signals j) \<Longrightarrow> 0 \<le> sint (oi_mem i) \<Longrightarrow> wi_mem j = sint (oi_mem i) \<Longrightarrow>
    same_events is js \<Longrightarrow> same_events (i # is) (j # js)"

text \<open>A watcher without what concerns the input: the watcher of the first version does not move it.\<close>

definition watch_view :: "watch_state \<Rightarrow> watch_state" where
  "watch_view st = st\<lparr>splice_size_acc := 0, input_closed := False\<rparr>"

lemma watch_view_fields [simp]:
  "binary_state (watch_view st) = binary_state st" "sigxcpu_received (watch_view st) = sigxcpu_received st"
  "sigsegv_received (watch_view st) = sigsegv_received st" "bin_killed (watch_view st) = bin_killed st"
  "mem_limit_exceeded (watch_view st) = mem_limit_exceeded st" "kills_sent (watch_view st) = kills_sent st"
  by (simp_all add: watch_view_def)

lemma watch_view_killed: "watch_view (st\<lparr>bin_killed := b\<rparr>) = (watch_view st)\<lparr>bin_killed := b\<rparr>"
  by (simp add: watch_view_def)

lemma feed_binary_view [simp]: "watch_view (feed_binary ds a st) = watch_view st"
  by (simp add: feed_binary_def watch_view_def Let_def split: splice_answer.split)

lemma handle_stop_kills:
  "kills_sent (handle_stop ml mem s st) = kills_sent st +
     (if event_stop s PTRACE_EVENT_FORK \<or> event_stop s PTRACE_EVENT_CLONE \<or> event_stop s PTRACE_EVENT_VFORK then 2 else 0) +
     (if event_stop s PTRACE_EVENT_EXEC then 1 else 0) + (if WSTOPSIG s = SIGSEGV then 1 else 0)"
  unfolding handle_stop_def Let_def
  by (cases "WSTOPSIG s = SIGXCPU"; cases "WSTOPSIG s = SIGSEGV") simp_all

lemma handle_stop_view: "watch_view (handle_stop ml mem s st) = handle_stop ml mem s (watch_view st)"
  by (rule watch_state.equality) (simp_all add: handle_stop_kills, simp_all add: watch_view_def)

lemma old_sig_handler_view: "watch_view (old_sig_handler x st) = old_sig_handler x (watch_view st)"
  by (cases x; cases "fst x") (simp_all add: old_sig_handler_def watch_view_def)

lemma old_deliver_view: "watch_view (old_deliver sigs st) = old_deliver sigs (watch_view st)"
proof (induction sigs arbitrary: st)
  case (Cons x sigs)
  then show ?case by (cases x) (simp add: old_sig_handler_view)
qed simp

lemma old_deliver_append: "old_deliver (xs @ ys) st = old_deliver ys (old_deliver xs st)"
  by (simp add: old_deliver_def)

lemma watch_result_view: "watch_result (watch_view st) = watch_result st"
  by (simp add: watch_result_def)

lemma same_signals_deliver:
  "same_signals sigs sigs' \<Longrightarrow> fold watcher_sig_handler sigs' st = old_deliver sigs st"
proof (induction arbitrary: st rule: list_all2_induct)
  case (Cons x xs y ys)
  then have "watcher_sig_handler y st = (if old_installed (fst x) then old_sig_handler x st else st)"
    by (cases x; cases y)
      (auto simp: same_signal_def old_installed_def old_sig_handler_def watcher_sig_handler_def)
  then show ?case using Cons.IH by (cases x) simp
qed simp

text \<open>Unsigned and signed comparison agree as long as the memory in use is below \<open>2\<^sup>63\<close> bytes.\<close>

lemma unsigned_mb:
  assumes "0 \<le> ml" "ml < 2 ^ 31" "0 \<le> sint (mem :: 64 word)"
  shows "mem div 1000000 > of_int ml \<longleftrightarrow> mb_of (sint mem) > ml"
    "mem div 1000000 \<ge> of_int ml \<longleftrightarrow> mb_of (sint mem) \<ge> ml" "mem > 0 \<longleftrightarrow> sint mem > 0"
    "mem \<ge> 0 \<longleftrightarrow> sint mem \<ge> 0"
proof -
  have u: "uint mem = sint mem"
    using assms(3) sint_lt [of mem] by (simp add: uint_sint take_bit_int_eq_self)
  have l: "uint (of_int ml :: 64 word) = ml" using assms(1,2) by (simp add: uint_word_of_int)
  have d: "uint (mem div 1000000) = mb_of (sint mem)"
    using assms(3) by (simp add: uint_div mb_of_def u)
  show "mem div 1000000 > of_int ml \<longleftrightarrow> mb_of (sint mem) > ml"
    "mem div 1000000 \<ge> of_int ml \<longleftrightarrow> mb_of (sint mem) \<ge> ml"
    by (simp_all only: word_less_def word_le_def l d)
  show "mem > 0 \<longleftrightarrow> sint mem > 0" by (simp add: word_less_def u)
  show "mem \<ge> 0 \<longleftrightarrow> sint mem \<ge> 0" using assms(3) by simp
qed

lemma old_handle_stop_new:
  assumes "0 \<le> ml" "ml < 2 ^ 31" "0 \<le> sint mem"
  shows "old_handle_stop ml mem status st = handle_stop ml (sint mem) status st"
  unfolding old_handle_stop_def handle_stop_def unsigned_mb [OF assms] by (rule refl)

text \<open>One iteration that gets a status, and one that gets none.\<close>

lemma watch_iteration_event:
  assumes "0 \<le> ml" "ml < 2 ^ 31" "wi_poll j = Event s" "oi_wait i = Some s" "wi_splice j \<noteq> Splice_error"
    and "same_signals (oi_signals i) (wi_signals j)" "0 \<le> sint (oi_mem i)" "wi_mem j = sint (oi_mem i)"
    and "watch_view st' = watch_view st" "old_watch_iteration ml i (e, st) = ((e1, st1), b)"
  obtains st1' where "watch_iteration ml ds j st' = Inr (st1', b)" "watch_view st1' = watch_view st1"
    "splice_size_acc st' \<le> splice_size_acc st1'"
proof -
  define t where "t = fold watcher_sig_handler (wi_signals j) st'"
  define st2 where "st2 = (if splice_size_acc t < ds then feed_binary ds (wi_splice j) t else t)"
  have t: "t = old_deliver (oi_signals i) st'" by (simp add: t_def same_signals_deliver [OF assms(6)])
  have v: "watch_view st2 = watch_view (old_deliver (oi_signals i) st)"
    using assms(9) by (simp add: st2_def t old_deliver_view)
  have "splice_size_acc t = splice_size_acc st'" by (simp add: t_def)
  then have acc: "splice_size_acc st' \<le> splice_size_acc st2"
    by (simp add: st2_def feed_binary_def Let_def split: splice_answer.split)
  have it: "watch_iteration ml ds j st' = Inr (if WIFSTOPPED s then (handle_stop ml (wi_mem j) s st2, False)
      else (if WIFSIGNALED s then st2\<lparr>bin_killed := True\<rparr> else st2, True))"
    using watch_iteration_cases [of j st2 st' ds ml] assms(3,5)
    by (simp add: failing_def st2_def t_def Let_def)
  have old: "(st1, b) = (if WIFSTOPPED s
      then (handle_stop ml (wi_mem j) s (old_deliver (oi_signals i) st), False)
      else (if WIFSIGNALED s then (old_deliver (oi_signals i) st)\<lparr>bin_killed := True\<rparr>
        else old_deliver (oi_signals i) st, True))"
    using assms(10) old_handle_stop_new [OF assms(1,2,7)]
    by (auto simp: old_watch_iteration_def Let_def assms(4,8) WIFSIGNALED_def split: if_splits)
  show thesis
    by (rule that [of "if WIFSTOPPED s then handle_stop ml (wi_mem j) s st2
        else if WIFSIGNALED s then st2\<lparr>bin_killed := True\<rparr> else st2"])
      (use it old v acc in \<open>auto simp: handle_stop_view watch_view_killed split: if_splits\<close>)
qed

lemma watch_iteration_idle:
  assumes "wi_poll j = No_event" "wi_splice j \<noteq> Splice_error" "same_signals sigs (wi_signals j)"
    and "watch_view st' = watch_view st"
  obtains st1' where "watch_iteration ml ds j st' = Inr (st1', False)"
    "watch_view st1' = watch_view (old_deliver sigs st)" "splice_size_acc st' \<le> splice_size_acc st1'"
proof -
  define t where "t = fold watcher_sig_handler (wi_signals j) st'"
  define st2 where "st2 = (if splice_size_acc t < ds then feed_binary ds (wi_splice j) t else t)"
  have t: "t = old_deliver sigs st'" by (simp add: t_def same_signals_deliver [OF assms(3)])
  have "splice_size_acc t = splice_size_acc st'" by (simp add: t_def)
  then have acc: "splice_size_acc st' \<le> splice_size_acc st2"
    by (simp add: st2_def feed_binary_def Let_def split: splice_answer.split)
  have "watch_iteration ml ds j st' = Inr (st2, False)"
    using watch_iteration_cases [of j st2 st' ds ml] assms(1,2)
    by (simp add: failing_def st2_def t_def Let_def)
  moreover have "watch_view st2 = watch_view (old_deliver sigs st)"
    using assms(4) by (simp add: st2_def t old_deliver_view)
  ultimately show thesis using acc by (rule that)
qed

lemma watch_loop_waiting:
  "\<forall>j \<in> set js. wi_poll j = No_event \<and> wi_splice j \<noteq> Splice_error \<Longrightarrow> watch_loop ml ds js st = None"
  by (induction js arbitrary: st) (simp_all add: watch_iteration_def Let_def)

text \<open>So both loops end at the same event, in the same state but for the input, or both go on.\<close>

lemma same_events_loops:
  assumes "same_events is js" "0 \<le> ml" "ml < 2 ^ 31" "watch_view st' = watch_view st"
  shows "(case old_watch_loop ml is (e, st) of
      None \<Rightarrow> watch_loop ml ds js st' = None
    | Some a \<Rightarrow> \<exists>b. watch_loop ml ds js st' = Some (Inr b) \<and> watch_view b = watch_view a \<and>
        splice_size_acc st' \<le> splice_size_acc b)"
  using assms
proof (induction arbitrary: e st st' rule: same_events.induct)
  case (waiting js)
  then show ?case by (simp add: watch_loop_waiting)
next
  case (idle j sigs i rest "is" js)
  have old: "old_watch_loop ml (i # is) (e, st) =
      old_watch_loop ml (i\<lparr>oi_signals := rest\<rparr> # is) (e, old_deliver sigs st)"
    using idle.hyps(4) by (cases i) (simp add: old_watch_iteration_def old_deliver_append Let_def cong: if_cong)
  obtain st1' where st1': "watch_iteration ml ds j st' = Inr (st1', False)"
      "watch_view st1' = watch_view (old_deliver sigs st)" "splice_size_acc st' \<le> splice_size_acc st1'"
    by (rule watch_iteration_idle [OF idle.hyps(1-3) idle.prems(3)])
  then have "watch_loop ml ds (j # js) st' = watch_loop ml ds js st1'" by simp
  with old idle.IH [OF idle.prems(1,2) st1'(2), of e] st1'(3) show ?case
    by (auto split: option.splits intro: order_trans)
next
  case (event j s i "is" js)
  obtain e1 st1 b where it: "old_watch_iteration ml i (e, st) = ((e1, st1), b)" by (metis surj_pair)
  obtain st1' where st1': "watch_iteration ml ds j st' = Inr (st1', b)" "watch_view st1' = watch_view st1"
      "splice_size_acc st' \<le> splice_size_acc st1'"
    by (rule watch_iteration_event [OF event.prems(1,2) event.hyps(1-6) event.prems(3) it])
  show ?case
  proof (cases b)
    case True
    then show ?thesis using it st1' by simp
  next
    case False
    then show ?thesis
      using it st1' event.IH [OF event.prems(1,2) st1'(2), of e1]
      by (auto split: option.splits intro: order_trans)
  qed
qed

lemma old_watch_result_new: "old_watch_result st = watch_result st"
  by (simp add: old_watch_result_def watch_result_def)

lemma old_no_compout:
  "binary_state st \<noteq> JS_BIN_COMPOUT \<Longrightarrow> binary_state (old_deliver sigs st) \<noteq> JS_BIN_COMPOUT"
proof (induction sigs arbitrary: st)
  case (Cons x sigs)
  then show ?case by (cases x) (auto simp: old_installed_def old_sig_handler_def)
qed simp

lemma old_handle_stop_state [simp]: "binary_state (old_handle_stop ml mem s st) = binary_state st"
  by (simp add: old_handle_stop_def Let_def)

lemma old_iteration_no_compout:
  assumes "old_watch_iteration ml i x = (x', b)" "binary_state (snd x) \<noteq> JS_BIN_COMPOUT"
  shows "binary_state (snd x') \<noteq> JS_BIN_COMPOUT"
proof -
  have "binary_state (snd (fst (old_watch_iteration ml i x))) = binary_state (old_deliver (oi_signals i) (snd x))"
    by (cases x) (simp add: old_watch_iteration_def Let_def)
  then show ?thesis using assms old_no_compout by simp
qed

section \<open>Laws: serialisation\<close>

lemma copy_parts_ok:
  assumes "index + length (concat xs) \<le> length serial"
  shows "copy_parts serial index xs =
    Inr (take index serial @ concat xs @ drop (index + length (concat xs)) serial)"
  using assms
proof (induction xs arbitrary: serial index)
  case (Cons x xs)
  then show ?case by (auto simp: c_memcpy_def ac_simps)
qed simp

lemma old_serialize_new:
  assumes "can_alloc mem (old_serial_size ccp)"
  shows "old_template_serialize mem ccp =
    Inr (jug_runner_template_serialize ccp, length (jug_runner_template_serialize ccp))"
proof -
  have sz: "old_serial_size ccp = length (jug_runner_template_serialize ccp)"
    by (simp add: old_serial_size_def length_serialize)
  let ?xs = "[run_params_bytes ccp, sandbox_bytes ccp, binary_path ccp @ [NUL],
      int_bytes (int (length (child_argv ccp)))] @ map (\<lambda>a. a @ [NUL]) (child_argv ccp)"
  have "concat ?xs = jug_runner_template_serialize ccp"
    by (simp add: jug_runner_template_serialize_def)
  then have "copy_parts (map (junk mem) [0..<old_serial_size ccp]) 0 ?xs = Inr (jug_runner_template_serialize ccp)"
    by (subst copy_parts_ok) (simp_all only: sz length_map length_upt, simp_all)
  then show ?thesis using assms sz by (simp add: old_template_serialize_def Let_def)
qed

section \<open>Properties\<close>

text \<open>C18: The run loop of the first version and the present one give the same result for the same behaviour of the
  watcher and the same output of the submission, for every checker, as long as \<open>sendfile\<close> reports no error to
  the present loop and finds room in the pipe in each iteration of the old one (and answers as often as it is
  asked), and the present loop does not show the output or can show each piece of it (\<open>debugt\<close> has room for 127
  bytes; the old loop shows it with a plain \<open>write\<close>): feeding does not influence the verdict.\<close>

theorem old_and_new_run_agree:
  assumes "Send_error \<notin> set ss" "\<forall>e \<in> set ss'. \<exists>n. e = Sent n"
    and "length ws + length rs < length ss" "length ws + length rs < length ss'"
    and "\<forall>e \<in> set rs. show_event cf e = None"
  shows "map_option final_result (old_tpl_loop cmp cf (run_start ws ss' rs f)) =
    map_option final_result (run_loop cmp cf (run_start ws ss rs f))"
proof -
  have "steady cf (run_start ws ss rs f)" "smooth cf (run_start ws ss' rs f)"
    using assms by (simp_all add: steady_def smooth_def run_start_def events_left_def)
  moreover have "run_view (run_start ws ss' rs f) = run_view (run_start ws ss rs f)"
    by (simp add: run_view_def run_start_def)
  ultimately show ?thesis using old_run.same_result new_run.same_result by metis
qed

theorem old_and_new_run_agree_witness:
  "map_option final_result (old_tpl_loop compare_output \<lparr>cnfg_kill_on_compout = True, output_limit_mb = 5,
       datasource_size = 3, show_output = False, run_log = log_start, run_mem = granting\<rparr> (run_start [Exited 0] [Sent 3, Sent 0, Sent 0] [Eof] (sample_ref ''1''))) =
   map_option final_result (run_loop compare_output \<lparr>cnfg_kill_on_compout = True, output_limit_mb = 5,
       datasource_size = 3, show_output = False, run_log = log_start, run_mem = granting\<rparr> (run_start [Exited 0] [Send_again, Sent 3, Sent 0] [Eof] (sample_ref ''1'')))"
  by (rule old_and_new_run_agree) simp_all

text \<open>Once the checker is done the loop only waits for the watcher.\<close>

lemma old_tpl_waits:
  assumes "compout_detected st" "watcher_alive st" "\<not> were_done st"
    and "waits st = replicate k No_change @ Exited 0 # ws"
  shows "old_tpl_loop cmp cf st = Some (st\<lparr>waits := ws, watcher_result := Some 0, watcher_alive := False\<rparr>)"
  using assms
proof (induction k arbitrary: st)
  case 0
  then show ?case
    by (simp add: old_tpl_loop.simps old_tpl_iteration_def pull_watcher_def watcher_event_def)
next
  case (Suc k)
  let ?st = "st\<lparr>waits := replicate k No_change @ Exited 0 # ws\<rparr>"
  have "old_tpl_loop cmp cf st = old_tpl_loop cmp cf ?st"
    using Suc.prems
    by (simp add: old_tpl_loop.simps [of _ _ st] old_tpl_iteration_def pull_watcher_def watcher_event_def)
  then show ?case using Suc.IH [of ?st] Suc.prems by simp
qed

text \<open>In the first version a full pipe ends the checking: when \<open>sendfile\<close> answers \<open>EAGAIN\<close> in the first iteration
  and the submission has already written a piece, the result of the run is what the checker says of that piece
  alone, whatever the submission writes afterwards. The run of a submission with one correct piece is a
  correct one, although the rest of its output is never read.\<close>

theorem old_full_pipe_ends_checking:
  assumes "cmp f d 0 = (n, f')" "d \<noteq> []" "length d \<le> 255" "0 \<le> output_limit_mb cf"
  shows "\<exists>st. old_tpl_loop cmp cf (run_start (No_change # replicate k No_change @ Exited 0 # ws)
      (Send_again # ss) (Got d # rs) f) = Some st \<and> final_result st = Inr (result_int (classify n))"
proof -
  let ?st0 = "run_start (No_change # replicate k No_change @ Exited 0 # ws) (Send_again # ss) (Got d # rs) f"
  let ?st1 = "kill_if (cnfg_kill_on_compout cf) (?st0\<lparr>waits := replicate k No_change @ Exited 0 # ws,
    sends := ss, comp_result := Some JS_PIPE_ERROR, compout_detected := True\<rparr>)\<lparr>reads := rs\<rparr>"
  define st where "st = check_piece cmp cf d ?st1"
  have it: "old_tpl_iteration cmp cf ?st0 = Some (st, False)"
    using assms(2) by (simp add: st_def run_start_def old_tpl_iteration_def pull_watcher_def watcher_event_def
        old_feed_def old_read_def)
  have c: "cmp (ref ?st1) d (compare_stage ?st1) = (n, f')" using assms(1) by (simp add: run_start_def)
  have st: "compout_detected st" "watcher_alive st" "\<not> were_done st" "spawn_succeeded st"
      "waits st = replicate k No_change @ Exited 0 # ws" "run_fault st = None"
    using check_piece_fields(3,6,7,10,11,14) [OF c st_def] by (simp_all add: run_start_def)
  have "int32 (int (length d)) = int (length d)" using assms(3) by (intro int32_id) simp_all
  then have "comp_result st = Some (classify n)"
    using c assms(3,4) by (simp add: st_def check_piece_def run_start_def c_quot_def Let_def)
  have "old_tpl_loop cmp cf ?st0 = old_tpl_loop cmp cf st"
    using it by (simp add: old_tpl_loop.simps [of _ _ ?st0]) (simp add: run_start_def)
  also have "\<dots> = Some (st\<lparr>waits := ws, watcher_result := Some 0, watcher_alive := False\<rparr>)"
    using st by (intro old_tpl_waits) simp_all
  finally show ?thesis
    using st \<open>comp_result st = Some (classify n)\<close> by (simp add: final_result_def)
qed

theorem old_full_pipe_ends_checking_witness:
  "\<exists>st. old_tpl_loop compare_output \<lparr>cnfg_kill_on_compout = True, output_limit_mb = 5, datasource_size = 3, show_output = False, run_log = log_start, run_mem = granting\<rparr>
      (run_start [No_change, No_change, Exited 0] [Send_again] [Got ''1'', Got ''and more''] (sample_ref ''1'')) =
      Some st \<and> final_result st = Inr (result_int JS_CORRECT)"
proof -
  have c: "compare_output (sample_ref ''1'') ''1'' 0 = (0, sample_ref ''1''\<lparr>offset := 1\<rparr>)" by code_simp
  show ?thesis
    using old_full_pipe_ends_checking [of compare_output "sample_ref ''1''" "''1''", OF c, of "\<lparr>cnfg_kill_on_compout = True, output_limit_mb = 5,
        datasource_size = 3, show_output = False, run_log = log_start, run_mem = granting\<rparr>" 1 "[]" "[]" "[Got ''and more'']"]
    by (simp add: classify_def)
qed

text \<open>C39: The watcher of the first version, which waits for the submission, and the present one, which polls it and moves
  the input to it, exit with the same code for the same events (\<open>same_events\<close>), or both go on watching: whenever the
  preparation succeeds, the memory limit is not negative, the memory in use can be read and fits in a \<open>long\<close>,
  every \<open>waitpid\<close>, \<open>poll\<close> and \<open>splice\<close> is answered without an error, what is left of the input can be emptied
  from the pipe, and no signal tells either of them that the output is wrong (the old one does not handle
  \<open>SIGUSR1\<close>, the present one handles \<open>SIGUSR2\<close>: there they differ). The input may have any size and be
  moved in any pieces, the present watcher may make any number of iterations without an event, and the signals of
  the alarm clock may reach it in any of them; none of this changes the result.\<close>

theorem old_watcher_agrees:
  fixes mem_limit :: int
  assumes "watcher_setup (sandbox.truncate sb) e = None" "0 \<le> mem_limit" "mem_limit < 2 ^ 31"
    and "same_events inputs inputs'" "watch_flush fl 0 input_bytes = Some True"
  shows "old_sandbox_child sb mem_limit e first inputs =
    jug_sandbox_watcher (sandbox.truncate sb) mem_limit input_bytes e inputs' fl"
proof -
  have prep: "old_watcher_setup sb e = None"
    using assms(1) by (auto simp: watcher_setup_def old_watcher_setup_def sandbox.truncate_def split: if_splits)
  show ?thesis
  proof (cases "old_watch_loop mem_limit inputs (first, watch_start)")
    case None
    then show ?thesis
      using same_events_loops [OF assms(4,2,3), of watch_start watch_start input_bytes first]
      by (simp add: old_sandbox_child_def jug_sandbox_watcher_def prep assms(1))
  next
    case (Some a)
    then obtain b where b: "watch_loop mem_limit input_bytes inputs' watch_start = Some (Inr b)"
        "watch_view b = watch_view a" "0 \<le> splice_size_acc b"
      using same_events_loops [OF assms(4,2,3), of watch_start watch_start input_bytes first]
      by (auto simp: watch_start_def)
    have "watch_result b = old_watch_result a"
      using b(2) watch_result_view [of a] watch_result_view [of b] by (simp add: old_watch_result_new)
    then show ?thesis
      using Some b watch_flush_mono [OF assms(5) b(3)]
      by (simp add: old_sandbox_child_def jug_sandbox_watcher_def prep assms(1))
  qed
qed

definition sample_old_sandbox :: old_sandbox where
  "sample_old_sandbox = sandbox.extend sample_sandbox (old_sandbox.fields 5 32 1 0 0 0 0)"

text \<open>A submission that is stopped by \<open>SIGSEGV\<close> and then killed, while the alarm goes off and 4 bytes of input are moved.\<close>

theorem old_watcher_agrees_witness:
  "old_sandbox_child sample_old_sandbox 64 sample_setup 0x057F
      [\<lparr>oi_signals = [(Old_SIGALRM, True), (Old_other, True)], oi_wait = Some 0x0B7F, oi_mem = 3000000\<rparr>,
       \<lparr>oi_signals = [], oi_wait = Some 9, oi_mem = 0\<rparr>] =
   jug_sandbox_watcher sample_sandbox 64 4 sample_setup
      [\<lparr>wi_signals = [(SIGALRM, True)], wi_splice = Spliced 3, wi_poll = No_event, wi_mem = 0\<rparr>,
       \<lparr>wi_signals = [(Other_signal, True)], wi_splice = Splice_again, wi_poll = Event 0x0B7F, wi_mem = 3000000\<rparr>,
       \<lparr>wi_signals = [], wi_splice = Spliced 1, wi_poll = Event 9, wi_mem = 0\<rparr>] [Flushed 4]"
proof -
  have t: "sandbox.truncate sample_old_sandbox = sample_sandbox"
    by (simp add: sample_old_sandbox_def sample_sandbox_def sandbox.defs old_sandbox.defs)
  have m: "sint (3000000 :: 64 word) = 3000000" by (simp add: sint_uint)
  show ?thesis
    unfolding t [symmetric]
    by (rule old_watcher_agrees, simp_all add: t watcher_setup_def sample_setup_def sample_sandbox_def,
        rule same_events.idle [of _ "[(Old_SIGALRM, True)]" _ "[(Old_other, True)]"],
        simp_all add: same_signal_def,
        rule same_events.event, simp_all add: same_signal_def m,
        rule same_events.event, simp_all, rule same_events.waiting, simp)
qed

text \<open>A memory usage that cannot be read is \<open>-1\<close>: the first version compares it as an unsigned number and reports the
  memory limit at the next \<open>SIGTRAP\<close> or \<open>SIGSEGV\<close> stop, the present one disregards it.\<close>

theorem old_unreadable_memory:
  assumes "WSTOPSIG status = SIGTRAP \<or> WSTOPSIG status = SIGSEGV" "0 \<le> mem_limit" "mem_limit < 2 ^ 31"
  shows "mem_limit_exceeded (old_handle_stop mem_limit (-1) status st) \<and>
    mem_limit_exceeded (handle_stop mem_limit (-1) status st) = mem_limit_exceeded st"
proof -
  have l: "uint (of_int mem_limit :: 64 word) = mem_limit" using assms(2,3) by (simp add: uint_word_of_int)
  have m: "uint ((-1 :: 64 word) div 1000000) = 18446744073709"
    by (simp add: uint_div unsigned_minus_1_eq_mask mask_eq_exp_minus_1)
  have "(-1 :: 64 word) div 1000000 > of_int mem_limit" "(-1 :: 64 word) div 1000000 \<ge> of_int mem_limit"
    unfolding word_less_def word_le_def l m using assms(3) by simp_all
  moreover have "(-1 :: 64 word) > 0" by (simp add: word_gt_0)
  ultimately show ?thesis
    using assms(1) sigtrap_looks_like_exit [of status]
    by (auto simp: old_handle_stop_def Let_def stop_signals)
qed

text \<open>The watcher of the first version never learns that the output is wrong: it installs its handler for \<open>SIGALRM\<close>
  only, while the run sends it \<open>SIGUSR1\<close>.\<close>

theorem old_watcher_ignores_compout:
  assumes "old_watch_loop mem_limit inputs (first, watch_start) = Some st"
  shows "binary_state st \<noteq> JS_BIN_COMPOUT"
proof -
  have "old_watch_loop mem_limit inputs x = Some st \<Longrightarrow> binary_state (snd x) \<noteq> JS_BIN_COMPOUT \<Longrightarrow>
      binary_state st \<noteq> JS_BIN_COMPOUT" for x
    by (induction mem_limit inputs x rule: old_watch_loop.induct)
      (auto split: prod.splits bool.splits dest: old_iteration_no_compout)
  from this [OF assms] show ?thesis by (simp add: watch_start_def)
qed

text \<open>The check of a data source to read from accepts only descriptors opened for reading and writing:
  \<open>O_RDONLY\<close> is \<open>0\<close>, so that its bit is never set.\<close>

theorem old_read_only_source_refused:
  "old_check_datasource False getfd getfl = None \<longleftrightarrow>
     0 \<le> sint getfd \<and> getfd AND FD_CLOEXEC = 0 \<and> getfl AND O_RDWR \<noteq> 0"
  by (auto simp: old_check_datasource_def O_RDONLY_def)

text \<open>The test program of the first version uses a result that was never stored when the data source is open for reading
  only.\<close>

theorem test_sandbox_needs_rdwr:
  assumes "old_sandbox_init env True tmp_exists st = Inr (0, Some sb, st1)" "2 \<le> argc"
    and "0 \<le> sint (ow_getfd w)" "ow_getfd w AND FD_CLOEXEC = 0" "ow_getfl w = O_RDONLY"
  shows "test_sandbox_main cmp env tmp_exists w f argc st = Inl Uninitialised"
  using assms
  by (simp add: test_sandbox_main_def old_sandbox_run_def old_check_datasource_def O_RDONLY_def with_limits_def)

text \<open>What is unserialised is what was serialised, for the sizes of any version of the two structures, and the
  serialisation fills its allocation exactly.\<close>

theorem old_serialisation_roundtrip:
  assumes "can_alloc mem (old_serial_size ccp)" "NUL \<notin> set (binary_path ccp)"
    and "\<forall>a \<in> set (child_argv ccp). NUL \<notin> set a" "length (child_argv ccp) < 2 ^ 31"
  shows "\<exists>serial. old_template_serialize mem ccp = Inr (serial, length serial) \<and>
    old_template_unserialize (length (run_params_bytes ccp)) (length (sandbox_bytes ccp)) serial = Inr ccp"
proof -
  have n: "int32 (int (length (child_argv ccp))) = int (length (child_argv ccp))"
    using assms(4) by (intro int32_id) (simp_all add: of_nat_less_numeral_power_cancel_iff)
  have "old_template_unserialize (length (run_params_bytes ccp)) (length (sandbox_bytes ccp))
      (jug_runner_template_serialize ccp) = Inr ccp"
    using assms(2,3) take_argv_at [of "child_argv ccp" "[]"]
      bytes_int_bytes [of "int (length (child_argv ccp))" "[]"]
    by (simp add: old_template_unserialize_def jug_runner_template_serialize_def n Let_def)
  then show ?thesis using old_serialize_new [OF assms(1)] by blast
qed

text \<open>\<open>jug_hash\<close> of a string of the given length is a number below 999999.\<close>

theorem jug_hash_bound:
  assumes "0 \<le> len" "len < 2 ^ 31" "nat len \<le> length key"
  shows "\<exists>h. jug_hash key len = Inr h \<and> unat h < 999999"
proof -
  have "unat (of_int len :: 32 word) = nat len"
    using assms(1,2) by (simp add: unat_eq_nat_uint uint_word_of_int)
  moreover have "unat (x mod 999999 :: 32 word) < 999999" for x by (simp add: unat_mod)
  ultimately show ?thesis using assms(3) by (simp add: jug_hash_def Let_def)
qed

end
