(* ===== verification/Ownership.thy ===== *)
theory Ownership
  imports Prelude_C "HOL-Library.Multiset"
begin

text \<open>
  Who frees what: the destructors of the sources, and the blocks and file descriptors that a served request
  acquires and gives back. The heap is the set of the live resources; freeing or closing one that is not
  live is a fault. \<open>destroy_ini\<close> and \<open>cleanup_readini\<close> are from \<open>src/iniparser/iniparser.c\<close>; the template's
  handler with its \<open>unserialize\<close> and \<open>freeccp\<close>, the run, the judge and \<open>jug_runner_free_submission\<close> are
  from \<open>src/runner.c\<close>; the worker is \<open>queue_worker_serv\<close> of \<open>src/queue.c\<close> with \<open>jug_int_free_request\<close>. The
  definitions follow the calls of \<open>malloc\<close>, \<open>open\<close>, \<open>free\<close> and \<open>close\<close> on every path; what the functions
  compute is in the theories of their components. The theorems give, for every path, the resources that
  are left over.
\<close>

section \<open>Resources\<close>

datatype resource = Block nat | Fd nat

type_synonym heap = "resource set"

text \<open>The allocator picks a number that no live resource has.\<close>

type_synonym picker = "heap \<Rightarrow> nat"

definition fresh_picker :: "picker \<Rightarrow> bool" where
  "fresh_picker pick \<longleftrightarrow> (\<forall>h. finite h \<longrightarrow> Block (pick h) \<notin> h \<and> Fd (pick h) \<notin> h)"

definition new_block :: "picker \<Rightarrow> heap \<Rightarrow> resource \<times> heap" where
  "new_block pick h = (Block (pick h), insert (Block (pick h)) h)"

fun new_blocks :: "picker \<Rightarrow> nat \<Rightarrow> heap \<Rightarrow> resource list \<times> heap" where
  "new_blocks pick 0 h = ([], h)"
| "new_blocks pick (Suc n) h = (case new_block pick h of (b, h1) \<Rightarrow>
     (case new_blocks pick n h1 of (bs, h2) \<Rightarrow> (b # bs, h2)))"

definition new_fd :: "picker \<Rightarrow> bool \<Rightarrow> heap \<Rightarrow> resource option \<times> heap" where
  "new_fd pick ok h = (if ok then (Some (Fd (pick h)), insert (Fd (pick h)) h) else (None, h))"

text \<open>\<open>free\<close> and \<open>close\<close> of a resource.\<close>

definition release :: "resource \<Rightarrow> heap \<Rightarrow> heap c_result" where
  "release r h = (if r \<in> h then Inr (h - {r}) else Inl Use_after_free)"

text \<open>\<open>free\<close> of a pointer: \<open>None\<close> when nothing was ever stored in it, \<open>Some None\<close> for \<open>NULL\<close>.\<close>

definition free_ptr :: "resource option option \<Rightarrow> heap \<Rightarrow> heap c_result" where
  "free_ptr p h = (case p of None \<Rightarrow> Inl Uninitialised | Some None \<Rightarrow> Inr h | Some (Some r) \<Rightarrow> release r h)"

fun release_all :: "resource list \<Rightarrow> heap \<Rightarrow> heap c_result" where
  "release_all [] h = Inr h"
| "release_all (r # rs) h = c_then (release r h) (release_all rs)"

section \<open>The ini structure\<close>

text \<open>A configuration with its key and value; a section with its name (\<open>None\<close>: never set), the array of its
  configurations (\<open>None\<close>: \<open>NULL\<close>) and these; the whole structure.\<close>

record config_node =
  cn_self :: resource
  cn_key :: resource
  cn_value :: resource

record section_node =
  sn_self :: resource
  sn_name :: "resource option"
  sn_array :: "resource option"
  sn_configs :: "config_node list"

record ini_node =
  in_self :: resource
  in_array :: "resource option"
  in_sections :: "section_node list"

fun free_configs :: "config_node list \<Rightarrow> heap \<Rightarrow> heap c_result" where
  "free_configs [] h = Inr h"
| "free_configs (c # cs) h =
     c_then (release (cn_key c) h) (\<lambda>h1. c_then (release (cn_value c) h1) (free_configs cs))"

fun free_sections :: "section_node list \<Rightarrow> heap \<Rightarrow> heap c_result" where
  "free_sections [] h = Inr h"
| "free_sections (s # ss) h =
     c_then (free_configs (sn_configs s) h) (\<lambda>h1.
     c_then (free_ptr (map_option Some (sn_name s)) h1) (\<lambda>h2.
     c_then (free_ptr (Some (sn_array s)) h2) (free_sections ss)))"

definition destroy_ini :: "ini_node \<Rightarrow> heap \<Rightarrow> heap c_result" where
  "destroy_ini ini h =
     c_then (free_sections (in_sections ini) h) (\<lambda>h1.
     c_then (free_ptr (Some (in_array ini)) h1) (release (in_self ini)))"

text \<open>\<open>cleanup_readini\<close>: the line buffer, then the reader.\<close>

definition cleanup_readini :: "resource \<times> resource \<Rightarrow> heap \<Rightarrow> heap c_result" where
  "cleanup_readini = (\<lambda>(self, tmp) h. c_then (release tmp h) (release self))"

section \<open>The parameters of a clone\<close>

record ccp_node =
  cc_self :: resource
  cc_run_params :: resource
  cc_sandbox :: resource
  cc_path :: resource
  cc_argv :: resource
  cc_args :: "resource list"

definition unserialize_blocks :: "picker \<Rightarrow> nat \<Rightarrow> heap \<Rightarrow> ccp_node \<times> heap" where
  "unserialize_blocks pick argc h0 =
     (case new_block pick h0 of (self, h1) \<Rightarrow>
      case new_block pick h1 of (rp, h2) \<Rightarrow>
      case new_block pick h2 of (sb, h3) \<Rightarrow>
      case new_block pick h3 of (path, h4) \<Rightarrow>
      case new_block pick h4 of (argv, h5) \<Rightarrow>
      case new_blocks pick argc h5 of (args, h6) \<Rightarrow>
        (\<lparr>cc_self = self, cc_run_params = rp, cc_sandbox = sb, cc_path = path, cc_argv = argv,
          cc_args = args\<rparr>, h6))"

definition jug_runner_template_freeccp :: "ccp_node \<Rightarrow> heap \<Rightarrow> heap c_result" where
  "jug_runner_template_freeccp ccp h =
     c_then (release (cc_run_params ccp) h) (\<lambda>h.
     c_then (release (cc_sandbox ccp) h) (\<lambda>h.
     c_then (release (cc_path ccp) h) (\<lambda>h.
     c_then (release_all (cc_args ccp) h) (\<lambda>h.
     c_then (release (cc_argv ccp) h) (release (cc_self ccp))))))"

text \<open>The signal handler of the template; \<open>stack_ok\<close>: the stack of the clone can be allocated.\<close>

definition sighandler_blocks :: "picker \<Rightarrow> bool \<Rightarrow> nat \<Rightarrow> heap \<Rightarrow> heap c_result" where
  "sighandler_blocks pick stack_ok argc h0 =
     (case new_block pick h0 of (tx_buf, h1) \<Rightarrow>
      case unserialize_blocks pick argc h1 of (ccp, h2) \<Rightarrow>
      c_then (release tx_buf h2) (\<lambda>h3.
        if \<not> stack_ok then Inr h3
        else case new_block pick h3 of (stack, h4) \<Rightarrow>
          c_then (release stack h4) (jug_runner_template_freeccp ccp)))"

section \<open>A judging request\<close>

text \<open>What happens on the way: whether the feed files are made, what \<open>lang_process\<close> returns and whether it got as far
  as allocating the command and the path, which files open, whether the run gets through.\<close>

record serve_path =
  sp_feed_in :: bool
  sp_feed_out :: bool
  sp_lang_error :: int
  sp_bin_set :: bool
  sp_open_in :: bool
  sp_open_right :: bool
  sp_erfs :: bool
  sp_cloned :: bool
  sp_fds_ok :: bool
  sp_flushed :: bool

definition run_resources :: "picker \<Rightarrow> serve_path \<Rightarrow> heap \<Rightarrow> heap c_result" where
  "run_resources pick p h0 =
     (case new_block pick h0 of (ccp, h1) \<Rightarrow>
      case new_block pick h1 of (serial, h2) \<Rightarrow>
      c_then (release serial h2) (\<lambda>h3.
        if \<not> sp_cloned p then Inr h3
        else if \<not> sp_fds_ok p then Inr h3
        else if \<not> sp_flushed p then Inr h3
        else release ccp h3))"

definition judge_resources :: "picker \<Rightarrow> serve_path \<Rightarrow> heap \<Rightarrow> heap c_result" where
  "judge_resources pick p h0 =
     (case new_fd pick (sp_open_in p) h0 of (infd, h1) \<Rightarrow>
      case new_fd pick (sp_open_right p) h1 of (rightfd, h2) \<Rightarrow>
      case (infd, rightfd) of
        (Some a, Some b) \<Rightarrow>
          if sp_erfs p then Inr h2
          else (case new_block pick h2 of (args, h3) \<Rightarrow>
                case new_block pick h3 of (arg0, h4) \<Rightarrow>
                c_then (run_resources pick p h4) (\<lambda>h5.
                c_then (release a h5) (\<lambda>h6. c_then (release b h6) (\<lambda>h7.
                c_then (release arg0 h7) (release args)))))
      | _ \<Rightarrow> Inr h2)"

record submission_ptrs =
  ptr_input :: "resource option option"
  ptr_output :: "resource option option"
  ptr_source :: "resource option option"
  ptr_bin_path :: "resource option option"
  ptr_bin_cmd :: "resource option option"

definition jug_runner_free_submission :: "submission_ptrs \<Rightarrow> heap \<Rightarrow> heap c_result" where
  "jug_runner_free_submission s h =
     c_then (free_ptr (ptr_input s) h) (\<lambda>h. c_then (free_ptr (ptr_output s) h) (\<lambda>h.
     c_then (free_ptr (ptr_source s) h) (\<lambda>h. c_then (free_ptr (ptr_bin_path s) h) (free_ptr (ptr_bin_cmd s)))))"

text \<open>The name of a feed file: \<open>NULL\<close> if it could not be made.\<close>

definition feed_name :: "picker \<Rightarrow> bool \<Rightarrow> heap \<Rightarrow> resource option \<times> heap" where
  "feed_name pick ok h = (case new_block pick h of (b, h1) \<Rightarrow> if ok then (Some b, h1) else (None, h))"

text \<open>The pointers of a decoded judging request. Nothing is ever stored in \<open>input\<close> or \<open>output\<close> (\<open>None\<close>) when the request
  gives a reference for them; \<open>jug_int_free_request\<close> frees all three.\<close>

record request_ptrs =
  rq_source :: resource
  rq_input :: "resource option"
  rq_output :: "resource option"

definition free_request_ptrs :: "request_ptrs \<Rightarrow> heap \<Rightarrow> heap c_result" where
  "free_request_ptrs req h =
     c_then (release (rq_source req) h) (\<lambda>h. c_then (free_ptr (map_option Some (rq_input req)) h)
       (free_ptr (map_option Some (rq_output req))))"

text \<open>The file of the worker for a part of the request; the field of the submission stays unset for a reference.\<close>

definition feed_part :: "picker \<Rightarrow> bool \<Rightarrow> resource option \<Rightarrow> heap \<Rightarrow> resource option option \<times> heap" where
  "feed_part pick ok part h = (case part of
       None \<Rightarrow> (None, h)
     | Some _ \<Rightarrow> (case feed_name pick ok h of (name, h1) \<Rightarrow> (Some name, h1)))"

text \<open>\<open>queue_worker_serv\<close> once a judging request has been decoded into the pointers \<open>req\<close>. When \<open>lang_process\<close> fails before
  it has allocated the two blocks of \<open>binInfo\<close>, \<open>lang_free_BinaryInformation\<close> frees what was never stored.\<close>

definition serve_resources :: "picker \<Rightarrow> serve_path \<Rightarrow> request_ptrs \<Rightarrow> heap \<Rightarrow> heap c_result" where
  "serve_resources pick p req h0 =
     (case feed_part pick (sp_feed_in p) (rq_input req) h0 of (input, h1) \<Rightarrow>
      case feed_part pick (sp_feed_out p) (rq_output req) h1 of (output_name, h2) \<Rightarrow>
      case new_block pick h2 of (source, h3) \<Rightarrow>
      case (if sp_bin_set p then (case new_blocks pick 2 h3 of (bs, h) \<Rightarrow> (Some bs, h)) else (None, h3)) of (bin, h4) \<Rightarrow>
      if sp_lang_error p \<noteq> 0 then
        (case bin of
           None \<Rightarrow> Inl Uninitialised
         | Some bs \<Rightarrow> c_then (release_all bs h4) (free_request_ptrs req))
      else
        (case bin of
           None \<Rightarrow> Inl Uninitialised
         | Some bs \<Rightarrow>
            (case new_block pick h4 of (bin_path, h5) \<Rightarrow>
             case new_block pick h5 of (bin_cmd, h6) \<Rightarrow>
             c_then (release_all bs h6) (\<lambda>h7. c_then (free_request_ptrs req h7) (\<lambda>h8.
             c_then (judge_resources pick p h8)
               (jug_runner_free_submission \<lparr>ptr_input = input, ptr_output = output_name,
                  ptr_source = Some (Some source), ptr_bin_path = Some (Some bin_path),
                  ptr_bin_cmd = Some (Some bin_cmd)\<rparr>))))))"

text \<open>How many resources are left over on each path.\<close>

definition run_left :: "serve_path \<Rightarrow> nat" where
  "run_left p = (if sp_cloned p \<and> sp_fds_ok p \<and> sp_flushed p then 0 else 1)"

definition judge_left :: "serve_path \<Rightarrow> nat" where
  "judge_left p =
     (if sp_open_in p \<and> sp_open_right p then (if sp_erfs p then 2 else run_left p)
      else of_bool (sp_open_in p) + of_bool (sp_open_right p))"

definition serve_left :: "serve_path \<Rightarrow> nat" where
  "serve_left p =
     (if sp_lang_error p \<noteq> 0 then of_bool (sp_feed_in p) + of_bool (sp_feed_out p) + 1 else judge_left p)"

section \<open>Laws\<close>

text \<open>\<open>owns h xs h'\<close>: the heap \<open>h'\<close> is \<open>h\<close> with the further resources \<open>xs\<close>.\<close>

definition owns :: "heap \<Rightarrow> resource list \<Rightarrow> heap \<Rightarrow> bool" where
  "owns h xs h' \<longleftrightarrow> h' = h \<union> set xs \<and> finite h \<and> distinct xs \<and> set xs \<inter> h = {}"

lemma owns_start: "finite h \<Longrightarrow> owns h [] h"
  by (simp add: owns_def)

lemma owns_end: "owns h [] h' \<Longrightarrow> h' = h"
  by (simp add: owns_def)

lemma owns_perm: "owns h xs h' \<Longrightarrow> mset xs = mset ys \<Longrightarrow> owns h ys h'"
  using mset_eq_setD [of xs ys] mset_eq_imp_distinct_iff [of xs ys] by (simp add: owns_def)

lemma new_block_owns:
  assumes "fresh_picker pick" "owns h xs h'"
  obtains b h'' where "new_block pick h' = (b, h'')" "owns h (b # xs) h''"
proof -
  have "finite h'" using assms(2) by (simp add: owns_def)
  then have "Block (pick h') \<notin> h'" using assms(1) by (simp add: fresh_picker_def)
  then show thesis using assms(2) by (intro that) (auto simp: new_block_def owns_def)
qed

lemma new_fd_owns:
  assumes "fresh_picker pick" "owns h xs h'"
  obtains f h'' where "new_fd pick True h' = (Some f, h'')" "owns h (f # xs) h''"
proof -
  have "finite h'" using assms(2) by (simp add: owns_def)
  then have "Fd (pick h') \<notin> h'" using assms(1) by (simp add: fresh_picker_def)
  then show thesis using assms(2) by (intro that) (auto simp: new_fd_def owns_def)
qed

lemma new_fd_False [simp]: "new_fd pick False h = (None, h)"
  by (simp add: new_fd_def)

lemma new_blocks_owns:
  assumes "fresh_picker pick"
  shows "owns h xs h' \<Longrightarrow> \<exists>bs h''. new_blocks pick n h' = (bs, h'') \<and> owns h (bs @ xs) h'' \<and> length bs = n"
proof (induction n arbitrary: xs h')
  case (Suc n)
  obtain b h1 where b: "new_block pick h' = (b, h1)" "owns h (b # xs) h1"
    using new_block_owns [OF assms Suc.prems] .
  obtain bs h2 where "new_blocks pick n h1 = (bs, h2)" "owns h (bs @ b # xs) h2" "length bs = n"
    using Suc.IH [OF b(2)] by blast
  then show ?case using b(1) owns_perm [of h "bs @ b # xs" h2 "(b # bs) @ xs"] by auto
qed simp

text \<open>Releasing something that is owned.\<close>

lemma release_owns:
  assumes "owns h (xs @ r # ys) h'"
  shows "release r h' = Inr (h' - {r})" "owns h (xs @ ys) (h' - {r})"
  using assms by (auto simp: release_def owns_def)

lemma release_owns_in:
  assumes "owns h xs h'" "r \<in> set xs"
  obtains h'' where "release r h' = Inr h''" "owns h (remove1 r xs) h''"
proof -
  obtain as bs where "xs = as @ r # bs" "r \<notin> set as" using split_list_first [OF assms(2)] by blast
  then show thesis
    using assms(1) release_owns [of h as r bs h'] by (intro that) (auto simp: remove1_append)
qed

lemma release_all_owns: "owns h (rs @ ys) h' \<Longrightarrow> \<exists>h''. release_all rs h' = Inr h'' \<and> owns h ys h''"
proof (induction rs arbitrary: h')
  case (Cons r rs)
  then show ?case using release_owns [of h "[]" r "rs @ ys" h'] by auto
qed simp

lemma free_ptr_simps [simp]:
  "free_ptr (Some None) h = Inr h" "free_ptr (Some (Some r)) h = release r h" "free_ptr None h = Inl Uninitialised"
  by (simp_all add: free_ptr_def)

lemma release_head:
  assumes "owns h xs h'" "mset xs = mset (r # ys)"
  obtains h'' where "release r h' = Inr h''" "owns h ys h''"
  using release_owns [of h "[]" r ys h'] owns_perm [OF assms] by simp

lemma release_list:
  assumes "owns h xs h'" "mset xs = mset (rs @ ys)"
  obtains h'' where "release_all rs h' = Inr h''" "owns h ys h''"
  using release_all_owns owns_perm [OF assms] by blast

text \<open>A run and a judgement, with what they leave over.\<close>

lemma run_resources_owns:
  assumes pick: "fresh_picker pick" and xs: "owns h xs h0"
  obtains L h' where "run_resources pick p h0 = Inr h'" "owns h (L @ xs) h'" "length L = run_left p"
proof -
  obtain ccp h1 where 1: "new_block pick h0 = (ccp, h1)" "owns h (ccp # xs) h1"
    by (rule new_block_owns [OF pick xs])
  obtain serial h2 where 2: "new_block pick h1 = (serial, h2)" "owns h (serial # ccp # xs) h2"
    by (rule new_block_owns [OF pick 1(2)])
  obtain h3 where 3: "release serial h2 = Inr h3" "owns h (ccp # xs) h3"
    by (rule release_head [OF 2(2), of serial "ccp # xs"]) simp
  obtain h4 where 4: "release ccp h3 = Inr h4" "owns h xs h4"
    by (rule release_head [OF 3(2), of ccp "xs"]) simp
  show thesis
  proof (cases "sp_cloned p \<and> sp_fds_ok p \<and> sp_flushed p")
    case True
    then show thesis using 1 2 3 4 by (intro that [of h4 "[]"]) (simp_all add: run_resources_def run_left_def)
  next
    case False
    then show thesis using 1 2 3 by (intro that [of h3 "[ccp]"]) (auto simp: run_resources_def run_left_def)
  qed
qed

lemma judge_resources_owns:
  assumes pick: "fresh_picker pick" and xs: "owns h xs h0"
  obtains L h' where "judge_resources pick p h0 = Inr h'" "owns h (L @ xs) h'" "length L = judge_left p"
proof (cases "sp_open_in p")
  case False
  show thesis
  proof (cases "sp_open_right p")
    case True
    obtain b h2 where "new_fd pick True h0 = (Some b, h2)" "owns h (b # xs) h2"
      by (rule new_fd_owns [OF pick xs])
    then show thesis using False True by (intro that [of h2 "[b]"]) (simp_all add: judge_resources_def judge_left_def)
  next
    case right: False
    then show thesis using False xs by (intro that [of h0 "[]"]) (simp_all add: judge_resources_def judge_left_def)
  qed
next
  case True
  obtain a h1 where a: "new_fd pick True h0 = (Some a, h1)" "owns h (a # xs) h1"
    by (rule new_fd_owns [OF pick xs])
  obtain b h2 where b: "new_fd pick True h1 = (Some b, h2)" "owns h (b # a # xs) h2"
    by (rule new_fd_owns [OF pick a(2)])
  consider "\<not> sp_open_right p" | "sp_open_right p" "sp_erfs p" | "sp_open_right p" "\<not> sp_erfs p" by blast
  then show thesis
  proof cases
    case 1
    then show thesis using True a by (intro that [of h1 "[a]"]) (simp_all add: judge_resources_def judge_left_def)
  next
    case 2
    then show thesis using True a b by (intro that [of h2 "[b, a]"]) (simp_all add: judge_resources_def judge_left_def)
  next
    case 3
    obtain args h3 where c: "new_block pick h2 = (args, h3)" "owns h (args # b # a # xs) h3"
      by (rule new_block_owns [OF pick b(2)])
    obtain arg0 h4 where d: "new_block pick h3 = (arg0, h4)" "owns h (arg0 # args # b # a # xs) h4"
      by (rule new_block_owns [OF pick c(2)])
    obtain L h5 where e: "run_resources pick p h4 = Inr h5" "owns h (L @ arg0 # args # b # a # xs) h5"
        "length L = run_left p"
      by (rule run_resources_owns [OF pick d(2)])
    obtain h6 where f: "release a h5 = Inr h6" "owns h (L @ arg0 # args # b # xs) h6"
      by (rule release_head [OF e(2), of a "L @ arg0 # args # b # xs"]) simp
    obtain h7 where g: "release b h6 = Inr h7" "owns h (L @ arg0 # args # xs) h7"
      by (rule release_head [OF f(2), of b "L @ arg0 # args # xs"]) simp
    obtain h8 where i: "release arg0 h7 = Inr h8" "owns h (L @ args # xs) h8"
      by (rule release_head [OF g(2), of arg0 "L @ args # xs"]) simp
    obtain h9 where j: "release args h8 = Inr h9" "owns h (L @ xs) h9"
      by (rule release_head [OF i(2), of args "L @ xs"]) simp
    show thesis
      using True 3 a(1) b(1) c(1) d(1) e(1,3) f(1) g(1) i(1) j
      by (intro that [of h9 L]) (simp_all add: judge_resources_def judge_left_def)
  qed
qed

lemma feed_name_owns:
  assumes "fresh_picker pick" "owns h xs h0"
  obtains b bs h' where "feed_name pick ok h0 = (b, h')" "owns h (bs @ xs) h'" "length bs = of_bool ok"
    "b = (case bs of [] \<Rightarrow> None | r # _ \<Rightarrow> Some r)"
proof -
  obtain r h1 where r: "new_block pick h0 = (r, h1)" "owns h (r # xs) h1"
    by (rule new_block_owns [OF assms])
  show thesis
  proof (cases ok)
    case True
    then show thesis using r by (intro that [of "Some r" h1 "[r]"]) (simp_all add: feed_name_def)
  next
    case False
    then show thesis using r assms(2) by (intro that [of None h0 "[]"]) (simp_all add: feed_name_def)
  qed
qed

text \<open>The name of a feed file, when there is one, is freed with the submission.\<close>

lemma free_feed_name:
  assumes "owns h xs h0" "mset xs = mset (bs @ ys)" "length bs = of_bool ok"
  obtains h' where "free_ptr (Some (case bs of [] \<Rightarrow> None | r # _ \<Rightarrow> Some r)) h0 = Inr h'" "owns h ys h'"
proof (cases bs)
  case Nil
  then show thesis using assms owns_perm [OF assms(1), of ys] by (intro that [of h0]) simp_all
next
  case (Cons r rs)
  then have rs: "rs = []" using assms(3) by (cases ok) simp_all
  obtain h' where "release r h0 = Inr h'" "owns h ys h'"
    by (rule release_head [OF assms(1)]) (simp add: assms(2) Cons rs)
  then show thesis using Cons by (intro that [of h']) simp_all
qed

lemma free_submission_owns:
  assumes "owns h xs h0" "mset xs = mset (bs @ cs @ source # path # cmd # L)"
    and "length bs = of_bool ok1" "length cs = of_bool ok2"
  obtains h' where "jug_runner_free_submission
      \<lparr>ptr_input = Some (case bs of [] \<Rightarrow> None | r # _ \<Rightarrow> Some r),
       ptr_output = Some (case cs of [] \<Rightarrow> None | r # _ \<Rightarrow> Some r), ptr_source = Some (Some source),
       ptr_bin_path = Some (Some path), ptr_bin_cmd = Some (Some cmd)\<rparr> h0 = Inr h'" "owns h L h'"
proof -
  obtain h1 where 1: "free_ptr (Some (case bs of [] \<Rightarrow> None | r # _ \<Rightarrow> Some r)) h0 = Inr h1"
      "owns h (cs @ source # path # cmd # L) h1"
    by (rule free_feed_name [OF assms(1) assms(2,3)])
  obtain h2 where 2: "free_ptr (Some (case cs of [] \<Rightarrow> None | r # _ \<Rightarrow> Some r)) h1 = Inr h2"
      "owns h (source # path # cmd # L) h2"
    by (rule free_feed_name [OF 1(2) refl assms(4)])
  obtain h3 where 3: "release source h2 = Inr h3" "owns h (path # cmd # L) h3"
    by (rule release_head [OF 2(2) refl])
  obtain h4 where 4: "release path h3 = Inr h4" "owns h (cmd # L) h4"
    by (rule release_head [OF 3(2) refl])
  obtain h5 where 5: "release cmd h4 = Inr h5" "owns h L h5"
    by (rule release_head [OF 4(2) refl])
  show thesis
    using 1(1) 2(1) 3(1) 4(1) 5 by (intro that [of h5]) (simp_all add: jug_runner_free_submission_def)
qed

definition request_blocks :: "request_ptrs \<Rightarrow> resource list" where
  "request_blocks req = rq_source req # (case rq_input req of None \<Rightarrow> [] | Some r \<Rightarrow> [r]) @
     (case rq_output req of None \<Rightarrow> [] | Some r \<Rightarrow> [r])"

definition inline_request :: "request_ptrs \<Rightarrow> bool" where
  "inline_request req \<longleftrightarrow> rq_input req \<noteq> None \<and> rq_output req \<noteq> None"

lemma feed_part_inline: "part \<noteq> None \<Longrightarrow> feed_part pick ok part h = map_prod Some id (feed_name pick ok h)"
  by (auto simp: feed_part_def split: prod.split)

lemma feed_part_owns:
  assumes "fresh_picker pick" "owns h xs h0"
  obtains b bs h' where "feed_part pick ok part h0 = (b, h')" "owns h (bs @ xs) h'"
proof (cases part)
  case None
  then show thesis using assms(2) by (intro that [of None h0 "[]"]) (simp_all add: feed_part_def)
next
  case (Some r)
  obtain b bs h' where "feed_name pick ok h0 = (b, h')" "owns h (bs @ xs) h'"
    by (rule feed_name_owns [OF assms])
  then show thesis using Some by (intro that [of "Some b" h' bs]) (simp_all add: feed_part_def)
qed

lemma free_request_inline:
  "inline_request req \<Longrightarrow> free_request_ptrs req h = release_all (request_blocks req) h"
  by (auto simp: inline_request_def free_request_ptrs_def request_blocks_def c_then_def split: sum.split)

text \<open>A request with a reference makes \<open>jug_int_free_request\<close> free a pointer that was never set.\<close>

lemma free_request_reference:
  assumes "owns h xs h0" "mset xs = mset (request_blocks req @ ys)" "\<not> inline_request req"
  shows "free_request_ptrs req h0 = Inl Uninitialised"
proof -
  obtain h1 where 1: "release (rq_source req) h0 = Inr h1"
      "owns h ((case rq_input req of None \<Rightarrow> [] | Some r \<Rightarrow> [r]) @ (case rq_output req of None \<Rightarrow> [] | Some r \<Rightarrow> [r]) @ ys) h1"
    by (rule release_head [OF assms(1)]) (simp only: assms(2) request_blocks_def append_Cons append_assoc)
  show ?thesis
  proof (cases "rq_input req")
    case None
    then show ?thesis using 1(1) by (simp add: free_request_ptrs_def)
  next
    case (Some r)
    then have "rq_output req = None" using assms(3) by (simp add: inline_request_def)
    then show ?thesis using 1 Some release_owns(1) [of h "[]" r ys h1] by (simp add: free_request_ptrs_def)
  qed
qed

lemma serve_resources_faults:
  assumes pick: "fresh_picker pick" and own: "owns h (request_blocks req) h0"
    and bad: "\<not> (inline_request req \<and> sp_bin_set p)"
  shows "serve_resources pick p req h0 = Inl Uninitialised"
proof -
  obtain input bs h1 where 1: "feed_part pick (sp_feed_in p) (rq_input req) h0 = (input, h1)"
      "owns h (bs @ request_blocks req) h1"
    by (rule feed_part_owns [OF pick own])
  obtain outname cs h2 where 2: "feed_part pick (sp_feed_out p) (rq_output req) h1 = (outname, h2)"
      "owns h (cs @ bs @ request_blocks req) h2"
    by (rule feed_part_owns [OF pick 1(2)])
  obtain source h3 where 3: "new_block pick h2 = (source, h3)" "owns h (source # cs @ bs @ request_blocks req) h3"
    by (rule new_block_owns [OF pick 2(2)])
  show ?thesis
  proof (cases "sp_bin_set p")
    case False
    then show ?thesis using 1(1) 2(1) 3(1) by (simp add: serve_resources_def)
  next
    case True
    then have ref: "\<not> inline_request req" using bad by simp
    obtain bins h4 where 4: "new_blocks pick 2 h3 = (bins, h4)" "owns h (bins @ source # cs @ bs @ request_blocks req) h4"
      using new_blocks_owns [OF pick 3(2)] by blast
    obtain h' where a: "release_all bins h4 = Inr h'" "owns h (source # cs @ bs @ request_blocks req) h'"
      by (rule release_list [OF 4(2) refl])
    have "free_request_ptrs req h' = Inl Uninitialised"
      by (rule free_request_reference [OF a(2) _ ref, of "source # cs @ bs"]) simp
    moreover obtain path h5 where 5: "new_block pick h4 = (path, h5)" "owns h (path # bins @ source # cs @ bs @ request_blocks req) h5"
      by (rule new_block_owns [OF pick 4(2)])
    moreover obtain cmd h6 where 6: "new_block pick h5 = (cmd, h6)"
        "owns h (cmd # path # bins @ source # cs @ bs @ request_blocks req) h6"
      by (rule new_block_owns [OF pick 5(2)])
    moreover obtain h7 where 7: "release_all bins h6 = Inr h7" "owns h (cmd # path # source # cs @ bs @ request_blocks req) h7"
      by (rule release_list [OF 6(2), of bins "cmd # path # source # cs @ bs @ request_blocks req"]) simp
    moreover have "free_request_ptrs req h7 = Inl Uninitialised"
      by (rule free_request_reference [OF 7(2) _ ref, of "cmd # path # source # cs @ bs"]) simp
    ultimately show ?thesis
      using 1(1) 2(1) 3(1) 4(1) a(1) True by (simp add: serve_resources_def)
  qed
qed

lemma serve_resources_owns:
  assumes pick: "fresh_picker pick" and own: "owns h (request_blocks ptrs) h0" and bin: "sp_bin_set p"
    and inline: "inline_request ptrs"
  obtains L h' where "serve_resources pick p ptrs h0 = Inr h'" "owns h L h'" "length L = serve_left p"
proof -
  define req where "req = request_blocks ptrs"
  have req: "owns h req h0" using own by (simp add: req_def)
  have parts: "feed_part pick (sp_feed_in p) (rq_input ptrs) = map_prod Some id \<circ> feed_name pick (sp_feed_in p)"
      "feed_part pick (sp_feed_out p) (rq_output ptrs) = map_prod Some id \<circ> feed_name pick (sp_feed_out p)"
      "free_request_ptrs ptrs = release_all req"
    using inline by (auto simp: fun_eq_iff feed_part_inline free_request_inline req_def inline_request_def)
  obtain input bs h1 where 1: "feed_name pick (sp_feed_in p) h0 = (input, h1)" "owns h (bs @ req) h1"
      "length bs = of_bool (sp_feed_in p)" "input = (case bs of [] \<Rightarrow> None | r # _ \<Rightarrow> Some r)"
    by (rule feed_name_owns [OF pick req])
  obtain outname cs h2 where 2: "feed_name pick (sp_feed_out p) h1 = (outname, h2)" "owns h (cs @ bs @ req) h2"
      "length cs = of_bool (sp_feed_out p)" "outname = (case cs of [] \<Rightarrow> None | r # _ \<Rightarrow> Some r)"
    by (rule feed_name_owns [OF pick 1(2)])
  obtain source h3 where 3: "new_block pick h2 = (source, h3)" "owns h (source # cs @ bs @ req) h3"
    by (rule new_block_owns [OF pick 2(2)])
  obtain bins h4 where 4: "new_blocks pick 2 h3 = (bins, h4)" "owns h (bins @ source # cs @ bs @ req) h4"
    using new_blocks_owns [OF pick 3(2)] by blast
  note start = 1(1) 2(1) 3(1) 4(1) bin parts
  show thesis
  proof (cases "sp_lang_error p = 0")
    case False
    obtain h5 where 5: "release_all bins h4 = Inr h5" "owns h (source # cs @ bs @ req) h5"
      by (rule release_list [OF 4(2) refl])
    obtain h6 where 6: "release_all req h5 = Inr h6" "owns h (source # cs @ bs) h6"
      by (rule release_list [OF 5(2), of req "source # cs @ bs"]) simp
    show thesis
      using False start 5(1) 6 1(3) 2(3)
      by (intro that [of h6 "source # cs @ bs"]) (simp_all add: serve_resources_def serve_left_def)
  next
    case True
    obtain path h5 where 5: "new_block pick h4 = (path, h5)" "owns h (path # bins @ source # cs @ bs @ req) h5"
      by (rule new_block_owns [OF pick 4(2)])
    obtain cmd h6 where 6: "new_block pick h5 = (cmd, h6)" "owns h (cmd # path # bins @ source # cs @ bs @ req) h6"
      by (rule new_block_owns [OF pick 5(2)])
    obtain h7 where 7: "release_all bins h6 = Inr h7" "owns h (cmd # path # source # cs @ bs @ req) h7"
      by (rule release_list [OF 6(2), of bins "cmd # path # source # cs @ bs @ req"]) simp
    obtain h8 where 8: "release_all req h7 = Inr h8" "owns h (cmd # path # source # cs @ bs) h8"
      by (rule release_list [OF 7(2), of req "cmd # path # source # cs @ bs"]) simp
    obtain L h9 where 9: "judge_resources pick p h8 = Inr h9" "owns h (L @ cmd # path # source # cs @ bs) h9"
        "length L = judge_left p"
      by (rule judge_resources_owns [OF pick 8(2)])
    obtain h10 where 10: "jug_runner_free_submission \<lparr>ptr_input = Some input, ptr_output = Some outname,
        ptr_source = Some (Some source), ptr_bin_path = Some (Some path), ptr_bin_cmd = Some (Some cmd)\<rparr> h9 =
        Inr h10" "owns h L h10"
      unfolding 1(4) 2(4)
      by (rule free_submission_owns [OF 9(2) _ 1(3) 2(3), of source path cmd L]) simp
    show thesis
      using True start 5(1) 6(1) 7(1) 8(1) 9(1,3) 10
      by (intro that [of h10 L]) (simp_all add: serve_resources_def serve_left_def)
  qed
qed

text \<open>The clone parameters.\<close>

definition ccp_blocks :: "ccp_node \<Rightarrow> resource list" where
  "ccp_blocks c = [cc_self c, cc_run_params c, cc_sandbox c, cc_path c, cc_argv c] @ cc_args c"

lemma unserialize_owns:
  assumes pick: "fresh_picker pick" and xs: "owns h xs h0"
  obtains ccp h' where "unserialize_blocks pick argc h0 = (ccp, h')" "owns h (ccp_blocks ccp @ xs) h'"
    "length (cc_args ccp) = argc"
proof -
  obtain a h1 where 1: "new_block pick h0 = (a, h1)" "owns h (a # xs) h1"
    by (rule new_block_owns [OF pick xs])
  obtain b h2 where 2: "new_block pick h1 = (b, h2)" "owns h (b # a # xs) h2"
    by (rule new_block_owns [OF pick 1(2)])
  obtain c h3 where 3: "new_block pick h2 = (c, h3)" "owns h (c # b # a # xs) h3"
    by (rule new_block_owns [OF pick 2(2)])
  obtain d h4 where 4: "new_block pick h3 = (d, h4)" "owns h (d # c # b # a # xs) h4"
    by (rule new_block_owns [OF pick 3(2)])
  obtain e h5 where 5: "new_block pick h4 = (e, h5)" "owns h (e # d # c # b # a # xs) h5"
    by (rule new_block_owns [OF pick 4(2)])
  obtain args h6 where 6: "new_blocks pick argc h5 = (args, h6)" "owns h (args @ e # d # c # b # a # xs) h6"
      "length args = argc"
    using new_blocks_owns [OF pick 5(2)] by blast
  have "owns h (a # b # c # d # e # args @ xs) h6" by (rule owns_perm [OF 6(2)]) simp
  then show thesis
    using 1(1) 2(1) 3(1) 4(1) 5(1) 6(1,3)
    by (intro that [of "\<lparr>cc_self = a, cc_run_params = b, cc_sandbox = c, cc_path = d, cc_argv = e, cc_args = args\<rparr>" h6])
      (simp_all add: unserialize_blocks_def ccp_blocks_def)
qed

lemma freeccp_owns:
  assumes "owns h (ccp_blocks ccp @ xs) h0"
  obtains h' where "jug_runner_template_freeccp ccp h0 = Inr h'" "owns h xs h'"
proof -
  have o: "owns h (cc_run_params ccp # cc_sandbox ccp # cc_path ccp # cc_args ccp @ cc_argv ccp # cc_self ccp # xs) h0"
    by (rule owns_perm [OF assms]) (simp add: ccp_blocks_def)
  obtain h1 where 1: "release (cc_run_params ccp) h0 = Inr h1"
      "owns h (cc_sandbox ccp # cc_path ccp # cc_args ccp @ cc_argv ccp # cc_self ccp # xs) h1"
    by (rule release_head [OF o refl])
  obtain h2 where 2: "release (cc_sandbox ccp) h1 = Inr h2"
      "owns h (cc_path ccp # cc_args ccp @ cc_argv ccp # cc_self ccp # xs) h2"
    by (rule release_head [OF 1(2) refl])
  obtain h3 where 3: "release (cc_path ccp) h2 = Inr h3" "owns h (cc_args ccp @ cc_argv ccp # cc_self ccp # xs) h3"
    by (rule release_head [OF 2(2) refl])
  obtain h4 where 4: "release_all (cc_args ccp) h3 = Inr h4" "owns h (cc_argv ccp # cc_self ccp # xs) h4"
    by (rule release_list [OF 3(2) refl])
  obtain h5 where 5: "release (cc_argv ccp) h4 = Inr h5" "owns h (cc_self ccp # xs) h5"
    by (rule release_head [OF 4(2) refl])
  obtain h6 where 6: "release (cc_self ccp) h5 = Inr h6" "owns h xs h6"
    by (rule release_head [OF 5(2) refl])
  show thesis
    using 1(1) 2(1) 3(1) 4(1) 5(1) 6
    by (intro that [of h6]) (simp_all add: jug_runner_template_freeccp_def)
qed

text \<open>The ini structure: the blocks that are freed, and those that are not.\<close>

definition config_texts :: "config_node \<Rightarrow> resource list" where
  "config_texts c = [cn_key c, cn_value c]"

definition section_freed :: "section_node \<Rightarrow> resource list" where
  "section_freed s = concat (map config_texts (sn_configs s)) @
     (case sn_name s of None \<Rightarrow> [] | Some n \<Rightarrow> [n]) @ (case sn_array s of None \<Rightarrow> [] | Some a \<Rightarrow> [a])"

definition ini_freed :: "ini_node \<Rightarrow> resource list" where
  "ini_freed ini = concat (map section_freed (in_sections ini)) @
     (case in_array ini of None \<Rightarrow> [] | Some a \<Rightarrow> [a]) @ [in_self ini]"

definition ini_structs :: "ini_node \<Rightarrow> resource list" where
  "ini_structs ini = concat (map (\<lambda>s. sn_self s # map cn_self (sn_configs s)) (in_sections ini))"

lemma release_all_append: "release_all (xs @ ys) h = c_then (release_all xs h) (release_all ys)"
  by (induction xs arbitrary: h) (simp_all add: c_then_def split: sum.split)

lemma free_configs_all: "free_configs cs h = release_all (concat (map config_texts cs)) h"
  by (induction cs arbitrary: h) (simp_all add: config_texts_def c_then_def split: sum.split)

lemma free_sections_all:
  "\<forall>s \<in> set ss. sn_name s \<noteq> None \<Longrightarrow> free_sections ss h = release_all (concat (map section_freed ss)) h"
proof (induction ss arbitrary: h)
  case (Cons s ss)
  then obtain n where "sn_name s = Some n" by auto
  with Cons show ?case
    by (cases "sn_array s")
      (auto simp: section_freed_def free_configs_all release_all_append c_then_def split: sum.split)
qed simp

lemma destroy_ini_all:
  "\<forall>s \<in> set (in_sections ini). sn_name s \<noteq> None \<Longrightarrow> destroy_ini ini h = release_all (ini_freed ini) h"
  by (cases "in_array ini")
    (auto simp: destroy_ini_def free_sections_all ini_freed_def release_all_append c_then_def split: sum.split)

lemma owns_subset: "finite h \<Longrightarrow> distinct xs \<Longrightarrow> set xs \<subseteq> h \<Longrightarrow> owns (h - set xs) xs h"
  by (auto simp: owns_def)

section \<open>Properties\<close>

text \<open>An allocator: the number after the greatest in use.\<close>

definition resource_number :: "resource \<Rightarrow> nat" where
  "resource_number r = (case r of Block n \<Rightarrow> n | Fd n \<Rightarrow> n)"

definition top_pick :: picker where
  "top_pick h = Suc (Max (insert 0 (resource_number ` h)))"

lemma top_pick_fresh: "fresh_picker top_pick"
proof -
  have "n \<le> Max (insert 0 (resource_number ` h))" if "finite h" "Block n \<in> h \<or> Fd n \<in> h" for n h
    using that by (intro Max_ge) (force simp: resource_number_def image_iff)+
  then show ?thesis unfolding fresh_picker_def top_pick_def by (meson Suc_n_not_le_n)
qed

text \<open>C12: What the worker leaves behind of a decoded judging request, for every path through it: whether the feed files are
  made, what \<open>lang_process\<close> answers, which files open, whether the watcher is cloned and the pipes can be set
  up and emptied. If the request carries its input and its output and \<open>lang_process\<close> gets as far as
  allocating the two blocks of \<open>binInfo\<close>, the worker frees the three blocks of the request and everything it
  acquired, except for exactly the number of resources that \<open>serve_left\<close> gives: none when the run gets through; after a
  compile error the names of the feed files and the source text; the clone parameters of a run that fails to start
  or whose pipes cannot be emptied; with an execution root file system the two descriptors; and the descriptor of the
  other feed file when one does not open. In every other case, a request with a reference or a
  \<open>lang_process\<close> that fails early, the worker frees a pointer that was never set.\<close>

theorem serve_leaves:
  assumes "fresh_picker pick" "finite h" "distinct (request_blocks req)" "set (request_blocks req) \<subseteq> h"
  shows "if inline_request req \<and> sp_bin_set p
    then \<exists>L. serve_resources pick p req h = Inr ((h - set (request_blocks req)) \<union> L) \<and>
      L \<inter> (h - set (request_blocks req)) = {} \<and> finite L \<and> card L = serve_left p
    else serve_resources pick p req h = Inl Uninitialised"
proof -
  have own: "owns (h - set (request_blocks req)) (request_blocks req) h" using assms by (intro owns_subset) simp_all
  show ?thesis
  proof (cases "inline_request req \<and> sp_bin_set p")
    case True
    obtain xs h' where "serve_resources pick p req h = Inr h'" "owns (h - set (request_blocks req)) xs h'"
        "length xs = serve_left p"
      using serve_resources_owns [OF assms(1) own] True by blast
    then have "\<exists>L. serve_resources pick p req h = Inr ((h - set (request_blocks req)) \<union> L) \<and>
        L \<inter> (h - set (request_blocks req)) = {} \<and> finite L \<and> card L = serve_left p"
      by (intro exI [of _ "set xs"]) (auto simp: owns_def distinct_card)
    with True show ?thesis by simp
  next
    case False
    from serve_resources_faults [OF assms(1) own this] False show ?thesis by simp
  qed
qed

definition clean_path :: serve_path where
  "clean_path = \<lparr>sp_feed_in = True, sp_feed_out = True, sp_lang_error = 0, sp_bin_set = True, sp_open_in = True,
     sp_open_right = True, sp_erfs = False, sp_cloned = True, sp_fds_ok = True, sp_flushed = True\<rparr>"

definition sample_ptrs :: request_ptrs where
  "sample_ptrs = \<lparr>rq_source = Block 1, rq_input = Some (Block 2), rq_output = Some (Block 3)\<rparr>"

theorem serve_leaves_witness:
  "serve_resources top_pick clean_path sample_ptrs {Block 1, Block 2, Block 3, Fd 4} = Inr {Fd 4} \<and>
   (\<exists>L. serve_resources top_pick (clean_path\<lparr>sp_lang_error := -3\<rparr>) sample_ptrs
      {Block 1, Block 2, Block 3, Fd 4} = Inr ({Fd 4} \<union> L) \<and> card L = 3) \<and>
   serve_resources top_pick (clean_path\<lparr>sp_lang_error := -2, sp_bin_set := False\<rparr>) sample_ptrs
      {Block 1, Block 2, Block 3, Fd 4} = Inl Uninitialised \<and>
   serve_resources top_pick clean_path (sample_ptrs\<lparr>rq_input := None\<rparr>)
      {Block 1, Block 2, Block 3, Fd 4} = Inl Uninitialised"
proof -
  let ?h = "{Block 1, Block 2, Block 3, Fd 4}"
  have h: "?h - set (request_blocks sample_ptrs) = {Fd 4}" by (auto simp: request_blocks_def sample_ptrs_def)
  have i: "inline_request sample_ptrs" "\<not> inline_request (sample_ptrs\<lparr>rq_input := None\<rparr>)"
    by (simp_all add: inline_request_def sample_ptrs_def)
  have "\<exists>L. serve_resources top_pick p sample_ptrs ?h = Inr ({Fd 4} \<union> L) \<and> finite L \<and> card L = serve_left p"
    if "sp_bin_set p" for p
    using serve_leaves [OF top_pick_fresh, of ?h sample_ptrs p] that i(1) unfolding h
    by (auto simp: request_blocks_def sample_ptrs_def)
  from this [of clean_path] this [of "clean_path\<lparr>sp_lang_error := -3\<rparr>"]
    serve_leaves [OF top_pick_fresh, of ?h sample_ptrs "clean_path\<lparr>sp_lang_error := -2, sp_bin_set := False\<rparr>"]
    serve_leaves [OF top_pick_fresh, of ?h "sample_ptrs\<lparr>rq_input := None\<rparr>" clean_path] i(2)
  show ?thesis
    by (auto simp: serve_left_def judge_left_def run_left_def clean_path_def request_blocks_def sample_ptrs_def)
qed

text \<open>\<open>destroy_ini\<close> frees no block twice, and of the blocks of a parsed file it leaves exactly the structures of the
  sections and of their configurations: it frees the arrays that point to them, and the texts they point to.\<close>

theorem destroy_ini_leaves_structs:
  assumes "finite h" "\<forall>s \<in> set (in_sections ini). sn_name s \<noteq> None"
    and "distinct (ini_freed ini @ ini_structs ini)" "set (ini_freed ini @ ini_structs ini) \<subseteq> h"
  shows "destroy_ini ini h = Inr (h - set (ini_freed ini)) \<and> set (ini_structs ini) \<subseteq> h - set (ini_freed ini)"
proof -
  have "owns (h - set (ini_freed ini)) (ini_freed ini @ []) h" using assms by (simp add: owns_subset)
  then obtain h' where "release_all (ini_freed ini) h = Inr h'" "owns (h - set (ini_freed ini)) [] h'"
    using release_all_owns by blast
  then have "destroy_ini ini h = Inr (h - set (ini_freed ini))"
    using destroy_ini_all [OF assms(2)] by (auto dest: owns_end)
  with assms(3,4) show ?thesis by auto
qed

definition sample_ini_node :: ini_node where
  "sample_ini_node = \<lparr>in_self = Block 1, in_array = Some (Block 2), in_sections =
     [\<lparr>sn_self = Block 3, sn_name = Some (Block 4), sn_array = Some (Block 5), sn_configs =
        [\<lparr>cn_self = Block 6, cn_key = Block 7, cn_value = Block 8\<rparr>]\<rparr>]\<rparr>"

theorem destroy_ini_leaves_structs_witness:
  "destroy_ini sample_ini_node (Block ` {1, 2, 3, 4, 5, 6, 7, 8}) = Inr {Block 3, Block 6}"
proof -
  have "Block ` {1, 2, 3, 4, 5, 6, 7, 8} - set (ini_freed sample_ini_node) = {Block 3, Block 6}"
    by (auto simp: sample_ini_node_def ini_freed_def section_freed_def config_texts_def)
  then show ?thesis
    using destroy_ini_leaves_structs [of "Block ` {1, 2, 3, 4, 5, 6, 7, 8}" sample_ini_node]
    by (simp add: sample_ini_node_def ini_freed_def ini_structs_def section_freed_def config_texts_def)
qed

text \<open>The handler of the template gives back everything it allocates, except when there is no stack for the clone: then
  the parameters stay, five blocks and one for each argument.\<close>

theorem sighandler_balance:
  assumes pick: "fresh_picker pick" and "finite h"
  shows "sighandler_blocks pick True argc h = Inr h"
    "\<exists>L. sighandler_blocks pick False argc h = Inr (h \<union> L) \<and> L \<inter> h = {} \<and> card L = 5 + argc"
proof -
  obtain tx h1 where 1: "new_block pick h = (tx, h1)" "owns h [tx] h1"
    by (rule new_block_owns [OF pick owns_start [OF assms(2)]])
  obtain ccp h2 where 2: "unserialize_blocks pick argc h1 = (ccp, h2)" "owns h (ccp_blocks ccp @ [tx]) h2"
      "length (cc_args ccp) = argc"
    by (rule unserialize_owns [OF pick 1(2)])
  obtain h3 where 3: "release tx h2 = Inr h3" "owns h (ccp_blocks ccp @ []) h3"
    by (rule release_head [OF 2(2), of tx "ccp_blocks ccp @ []"]) simp
  obtain stack h4 where 4: "new_block pick h3 = (stack, h4)" "owns h (stack # ccp_blocks ccp @ []) h4"
    by (rule new_block_owns [OF pick 3(2)])
  obtain h5 where 5: "release stack h4 = Inr h5" "owns h (ccp_blocks ccp @ []) h5"
    by (rule release_head [OF 4(2) refl])
  obtain h6 where 6: "jug_runner_template_freeccp ccp h5 = Inr h6" "owns h [] h6"
    by (rule freeccp_owns [OF 5(2)])
  show "sighandler_blocks pick True argc h = Inr h"
    using 1(1) 2(1) 3(1) 4(1) 5(1) 6(1) owns_end [OF 6(2)] by (simp add: sighandler_blocks_def)
  have "length (ccp_blocks ccp) = 5 + argc" using 2(3) by (simp add: ccp_blocks_def)
  then show "\<exists>L. sighandler_blocks pick False argc h = Inr (h \<union> L) \<and> L \<inter> h = {} \<and> card L = 5 + argc"
    using 1(1) 2(1) 3 by (intro exI [of _ "set (ccp_blocks ccp)"])
      (simp add: sighandler_blocks_def owns_def distinct_card)
qed

end
