(* ===== verification/Spec2Isabelle.thy ===== *)
theory Spec2Isabelle
  imports Kudosd Service Pmparser Thread_Debug Buffer_Test Old_Sandbox Ownership Utilities
begin

text \<open>
  KudosJudge: a verification development of the judge daemon, its client and its libraries.

  \<^bold>\<open>The program.\<close> A client (\<open>src/client.c\<close>) sends a source, an input and an expected output. The daemon
  (\<open>src/kudosd.c\<close>) accepts the connection and puts it into a queue (\<open>src/queue.c\<close>); a worker thread receives and
  decodes the request (\<open>src/interface.c\<close> on \<open>src/buffer\<close>), stores the two feeds (\<open>src/feed.c\<close>) in a memory file
  system (\<open>src/ramfs.c\<close>), has the source compiled (\<open>src/lang.c\<close>) and asks the runner (\<open>src/runner.c\<close>) to judge the
  result. The runner asks a template process, through shared memory, for a watcher (\<open>src/sandbox.c\<close>), feeds
  the submission through the watcher and checks its output while it comes (\<open>src/compare.c\<close>); the verdict goes
  back to the client. Everything is configured by an \<open>.ini\<close> file (\<open>src/config.c\<close>, \<open>src/iniparser\<close>).

  \<^bold>\<open>The theories\<close>, in the order in which they build on each other:

  \<^item> \<open>Prelude_C\<close>: what the sources use of C. Faults (\<open>c_fault\<close>) are values, so that every write outside an object,
    every use of an unset or freed one is a result one can state a theorem about (one use of an unset variable, which only
    chooses whether a line is logged, is left out: see the last paragraph); strings in memory,
    \<open>atoi\<close>, printing of numbers, \<open>int\<close> and \<open>size_t\<close> with their widths; the collections of simplification rules.
  \<^item> \<open>Judge_Types\<close>: the enumerations of \<open>src/def.h\<close> and \<open>src/sandbox.h\<close> with their integers.
  \<^item> \<open>Buffer\<close>: \<open>buffer_t\<close> and its operations; the locale \<open>byte_buffer\<close> is what the network code needs of it.
  \<^item> \<open>Interface\<close>: receiving, decoding, sending. Requests survive any cutting by the network, except those whose
    length is a multiple of 1024. \<open>Client\<close>: the other end.
  \<^item> \<open>Compare\<close>: the checker; the locale \<open>comparator\<close> gives what a run in pieces decides.
  \<^item> \<open>Iniparser\<close> and \<open>Config\<close>: reading what was printed gives what was printed, and so does reading a file written by hand, with
    comments, empty lines and blanks around keys and values; the first value of a key counts. The configuration
    \<open>src/etc/config.ini\<close> that the repository ships is such a file, and the witnesses of the daemon's theorems use it. The
    locale \<open>settings\<close> is what the components that read settings rely on.
  \<^item> \<open>Template\<close>: the handshake as a step relation with every access to the shared flag a step, with the refusal when there is no
    template and the requests that do not fit into the shared memory, its invariant, and the serialisation of requests.
  \<^item> \<open>Runner\<close>: the loop that feeds, reads, shows and checks, and the verdict; the fault of a piece of output that is too
    long to be shown is part of its state. \<open>Sandbox\<close>: the watcher, refined to a
    specification that speaks of the events alone.
  \<^item> \<open>Ramfs\<close>, \<open>Feed\<close>, \<open>Lang\<close>: files as a map from paths to contents; the table of languages as the arrays of bytes it
    consists of, with its well-formedness.
  \<^item> \<open>Conn_Queue\<close>: the linked list on a heap, an instance of the locale \<open>fifo\<close> as long as its functions are atomic,
    and the races that follow from the missing lock as steps of single reads and writes.
  \<^item> \<open>Worker\<close>: \<open>queue_worker_serv\<close>, the whole handler of a connection, on top of all of these. What a run meets depends on the
    content of the binary and of the input file at that moment.
  \<^item> \<open>Serving\<close>: the main thread and all workers at once, as a step relation in which every call a handler makes is a
    step; the locale \<open>handlers\<close> is the contract between the threads, from which it follows, for connections on which
    nothing fails and as long as the operations of the queue do not overlap, that no interleaving crashes the
    daemon, answers a connection twice or leaves one without an answer, and that every client gets the answer it
    would get if it were alone.
  \<^item> \<open>Service\<close>: the daemon as an outside observer sees it, a service that tells every waiting connection a right reply
    once, and the proof that the threads refine it; the locale \<open>tidy_handlers\<close>, an extension of \<open>handlers\<close>, and with it
    that no interleaving leaves a file behind.
  \<^item> \<open>Kudosd\<close>: the command line, the file with the process id, the start of the components in the order of the code
    with its exit codes, the accept loop, the dispositions of signals and the handler; what a daemon that has started guarantees,
    and how an incomplete configuration is refused.
  \<^item> \<open>Pmparser\<close>, \<open>Log\<close> and \<open>Thread_Debug\<close>: the parser of \<open>/proc/<pid>/maps\<close>, the debugging messages with their focus on tags,
    and the record of what the threads do.
  \<^item> \<open>Ownership\<close>: who frees what. The heap is the set of the live blocks and descriptors, and freeing one that is not
    live is a fault; for every path of a judging request, with inline data or by reference, the theory counts what is
    left over or shows the fault.
  \<^item> \<open>Old_Sandbox\<close>: \<open>src/sandbox.old.c\<close>, the first version of the runner and the sandbox, and the test that uses it. The
    locale \<open>feeding_loop\<close> is what the loops of both versions have in common, and both are interpretations of it:
    where \<open>sendfile\<close> finds room they give the same result, and so do the two watchers for the same events, of which one waits
    and the other polls; the theory also shows where they differ.
  \<^item> \<open>Buffer_Test\<close>: \<open>src/buffer/test.c\<close>; its assertions hold for every allocator that does not fail. \<open>Utilities\<close>: the functions that
    print, the example programs \<open>src/iniparser/main.c\<close> and \<open>src/proc_maps_parser/examples/map.c\<close>, and what no
    one calls (\<open>factor\<close>, \<open>compiler_new\<close>).
  \<^item> This theory: what only the components together show. The exit status of the watcher reaches the client as
    its verdict; the path from the configuration file and three files of the client to the verdict on the
    client's screen; and the same for any number of clients that are served at the same time.

  \<^bold>\<open>State and environment.\<close> The global and local state of a component is a record, its functions pass it on, and
  error codes are results. What the code meets outside (answers of system calls, the allocator, pieces
  the network delivers, the compiler) are arguments or fields of environment records; theorems name what
  they assume of them. A failing \<open>malloc\<close> is one of these answers: where the code does not test for it, the result
  is the fault \<open>Null_deref\<close>. The template handshake, the queue and the threads of the daemon also have step relations,
  because there the interleaving matters: the handshake and the queue at the grain of single reads and writes,
  the handlers of connections at the grain of their calls, with the operations of the queue as single steps.

  \<^bold>\<open>Loops.\<close> Loops over data are recursive functions with a proof of termination: the measure is the rest of the file,
  the socket or the list. Loops that wait for the system (\<open>run_loop\<close>, \<open>flush_in\<close>, \<open>flush_out\<close>, \<open>watch_loop\<close>,
  \<open>watch_flush\<close>, \<open>poll\<close>) consume a list of answers; \<open>None\<close> means that the answers were used up and the loop is still
  running, so a statement that such a loop has a result says that it ends. A loop of the code that can
  never end is the fault \<open>Diverges\<close>. Fuel is used twice: by \<open>free_loop\<close>, one unit for each node, and \<open>pmparser_free\<close> (also at
  the end of \<open>map_main\<close>) is shown to need no more than there are nodes; and by \<open>solo\<close>, one unit for each step of a handler, and six are shown
  to be the whole handler. The loops of \<open>pmparser_print\<close> and of \<open>map.c\<close> follow a list that can be a circle: they are partial
  functions, with \<open>None\<close> for not returning, and are shown to return on every list that \<open>pmparser_parse\<close> builds from two or
  more lines. The workers' steps have a measure, so that they come to an end whenever no new
  connection arrives.

  \<^bold>\<open>Not modelled.\<close> \<open>src/lab\<close> consists of experiments with system calls and of sample submissions; \<open>test_config.c\<close>,
  \<open>test_ramfs.c\<close> and \<open>test_sandbox_tpl.c\<close> under \<open>src/tests\<close> only call interfaces that are modelled, and print. The template process
  of \<open>src/sandbox.old.c\<close>, its signal handler and \<open>jug_sandbox_template_clone\<close> have the handshake of \<open>src/runner.c\<close>, which is
  modelled once, in \<open>Template\<close>. Except in \<open>Ownership\<close>, the freeing of memory nobody uses again is left
  out. \<open>jug_runner_judge\<close> tests a variable that was never set to choose whether a line is logged; since the line has no
  effect on anything else, the test is left out. The kernel is not modelled: that \<open>ptrace\<close>, name spaces and resource limits do what their manual says is what
  the events of the watcher stand for.
\<close>

section \<open>The watcher and the runner\<close>

text \<open>The watcher passes its result to the runner as an exit status of eight bits. In a run whose only watcher is one
  that exits with \<open>status\<close>, the runner knows nothing while the watcher lives and has read it afterwards.\<close>

definition status_inv :: "8 word \<Rightarrow> 'f run_state \<Rightarrow> bool" where
  "status_inv status st \<longleftrightarrow> set (waits st) \<subseteq> {No_change, Exited status} \<and>
     (if watcher_alive st then watcher_result st = None \<and> spawn_succeeded st \<and> \<not> were_done st
      else if sint status < 0 then \<not> spawn_succeeded st
      else spawn_succeeded st \<and> watcher_result st = Some (sint status))"

lemma status_inv_pull: "status_inv status st \<Longrightarrow> pull_watcher st = Some st1 \<Longrightarrow> status_inv status st1"
  by (auto simp: status_inv_def pull_watcher_def watcher_event_def Let_def
      split: list.splits wait_event.splits if_splits)

lemma status_inv_feed: "status_inv status st \<Longrightarrow> feed_watcher cf st = Some st1 \<Longrightarrow> status_inv status st1"
  by (auto simp: status_inv_def feed_watcher_def kill_if_def split: list.splits send_event.splits if_splits)

lemma check_fields:
  "waits (check_piece cmp cf d st) = waits st" "watcher_alive (check_piece cmp cf d st) = watcher_alive st"
  "watcher_result (check_piece cmp cf d st) = watcher_result st"
  "spawn_succeeded (check_piece cmp cf d st) = spawn_succeeded st" "were_done (check_piece cmp cf d st) = were_done st"
  "waits (check_end cmp st) = waits st" "watcher_alive (check_end cmp st) = watcher_alive st"
  "watcher_result (check_end cmp st) = watcher_result st" "spawn_succeeded (check_end cmp st) = spawn_succeeded st"
  "were_done (check_end cmp st) = were_done st" "were_done (kill_if b st) = were_done st"
  by (simp_all add: check_piece_def check_end_def Let_def kill_if_def split: prod.split)

lemma status_inv_same:
  assumes "status_inv status st" "waits st1 = waits st" "watcher_alive st1 = watcher_alive st"
    "watcher_result st1 = watcher_result st" "spawn_succeeded st1 = spawn_succeeded st"
    "were_done st1 \<longrightarrow> were_done st \<or> \<not> watcher_alive st"
  shows "status_inv status st1"
  using assms unfolding status_inv_def by (cases "watcher_alive st") simp_all

lemma status_inv_output:
  assumes "status_inv status st" "take_output cmp cf st = Some (st1, brk)"
  shows "status_inv status st1 \<and> (brk \<longrightarrow> \<not> watcher_alive st1 \<or> run_fault st1 \<noteq> None)"
  using take_output_cases [OF assms(2)]
proof
  assume out: "check_output cmp cf st = Some (st1, brk)"
  show ?thesis
  proof (cases "endoffile st \<or> compout_detected st")
    case True
    then show ?thesis using assms(1) out by (auto simp: check_output_def)
  next
    case False
    then obtain e es where "reads st = e # es" using out by (auto simp: check_output_def split: list.splits)
    then have "waits st1 = waits st \<and> watcher_alive st1 = watcher_alive st \<and> watcher_result st1 = watcher_result st \<and>
        spawn_succeeded st1 = spawn_succeeded st \<and> (were_done st1 \<longrightarrow> were_done st \<or> \<not> watcher_alive st) \<and> \<not> brk"
      using out False by (cases e) (auto simp: check_output_def Let_def check_fields split: if_splits)
    then show ?thesis using status_inv_same [OF assms(1)] by blast
  qed
next
  assume "\<exists>x e es. reads st = e # es \<and> \<not> endoffile st \<and> \<not> compout_detected st \<and> show_event cf e = Some x \<and>
    st1 = st\<lparr>reads := es, run_fault := Some x\<rparr> \<and> brk"
  then obtain x es where "st1 = st\<lparr>reads := es, run_fault := Some x\<rparr>" by blast
  then show ?thesis using assms(1) by (simp add: status_inv_def)
qed

lemma status_inv_loop:
  "run_loop cmp cf st = Some st' \<Longrightarrow> status_inv status st \<Longrightarrow>
     status_inv status st' \<and> (\<not> watcher_alive st' \<or> run_fault st' \<noteq> None)"
proof (induction cmp cf st rule: run_loop.induct)
  case (1 cmp cf st)
  show ?case
  proof (cases "were_done st")
    case True
    then show ?thesis using 1 by (auto simp: run_loop.simps [of cmp cf st] status_inv_def split: if_splits)
  next
    case False
    then obtain st1 brk where it: "run_iteration cmp cf st = Some (st1, brk)"
        "(if brk then Some st1 else run_loop cmp cf st1) = Some st'"
      using 1(2) by (auto simp: run_loop.simps [of cmp cf st] split: option.splits)
    then obtain st2 st3 where "pull_watcher st = Some st2" "feed_watcher cf st2 = Some st3"
        "take_output cmp cf st3 = Some (st1, brk)"
      by (auto simp: run_iteration_def split: option.splits)
    then have "status_inv status st1 \<and> (brk \<longrightarrow> \<not> watcher_alive st1 \<or> run_fault st1 \<noteq> None)"
      using 1(3) status_inv_pull status_inv_feed status_inv_output by metis
    then show ?thesis using 1(1) [OF False it(1) refl] it(2) by (cases brk) auto
  qed
qed

text \<open>Every code the watcher can exit with fits into eight signed bits.\<close>

lemma watch_loop_code: "watch_loop m ds is st = Some (Inl code) \<Longrightarrow> code = -22 \<or> code = -60"
  by (induction m ds "is" st rule: watch_loop.induct)
    (auto simp: watch_iteration_def Let_def split: sum.splits bool.splits poll_answer.splits if_splits)

lemma watcher_setup_code: "watcher_setup sb e = Some c \<Longrightarrow> -50 \<le> c \<and> c \<le> -2"
  by (auto simp: watcher_setup_def split: if_splits)

lemma watcher_code:
  assumes "jug_sandbox_watcher sb m ds e inputs fl = Some c"
  shows "-60 \<le> c \<and> c \<le> 9"
proof -
  have low: "-60 \<le> result_int r \<and> result_int r \<le> 9" for r using result_int_range [of r] by simp
  show ?thesis
    using assms low
    by (auto simp: jug_sandbox_watcher_def split: option.splits sum.splits bool.splits
        dest!: watcher_setup_code watch_loop_code)
qed

lemma exit_status: "-60 \<le> c \<Longrightarrow> c \<le> 9 \<Longrightarrow> sint (word_of_int c :: 8 word) = c"
  by (simp add: sint_sbintrunc' signed_take_bit_int_eq_self)

lemma final_result_no_fault: "final_result st = Inr r \<Longrightarrow> run_fault st = None"
  by (auto simp: final_result_def split: if_splits)

lemma final_result_status:
  assumes "run_loop cmp cf (run_start ws ss rs f) = Some st" "set ws \<subseteq> {No_change, Exited status}"
    and "run_fault st = None"
  shows "final_result st = (if sint status < 0 then Inr (result_int JS_UNKNOWN)
    else if sint status = 0 then
      (case comp_result st of None \<Rightarrow> Inl Uninitialised | Some c \<Rightarrow> Inr (result_int c))
    else Inr (sint status))"
proof -
  have "status_inv status (run_start ws ss rs f)" using assms(2) by (simp add: status_inv_def run_start_def)
  then have "status_inv status st \<and> \<not> watcher_alive st" using status_inv_loop [OF assms(1)] assms(3) by blast
  then show ?thesis using assms(3) by (auto simp: final_result_def status_inv_def split: if_splits)
qed

lemma judge_result:
  assumes "jug_runner_judge cmp g limits erfs w True True f sub = Inr (Some v)" "v \<noteq> VERDICT_INTERNAL"
  obtains cf st r where "run_loop cmp cf (run_start (rw_waits w) (rw_sends w) (rw_reads w) f) = Some st"
    "final_result st = Inr r" "v = verdict_of_result r"
proof -
  let ?rp = "\<lparr>mem_limit_mb = -1, time_limit_ms = -1, rp_datasource_size = input_size sub, watcher_pid = 0,
    result = None\<rparr>"
  obtain rp z where run: "jug_runner_run cmp g limits w f (thread_id sub) ?rp = Inr (Some (0, rp))" "result rp = Some z"
      and v: "v = verdict_of_result z"
    using assms by (auto simp: jug_runner_judge_def c_cases split: if_splits)
  have "z \<noteq> result_int JS_UNKNOWN" using assms(2) v by (auto simp: verdict_of_result_def)
  from run_result [OF run this] show thesis using that v by metis
qed

text \<open>C8: The verdict of the watcher is the verdict of the judge: if the watcher exits with a time limit, a memory limit
  or a run time error, or fails before or while it watches, and the runner sees this exit and nothing
  else of it, then the client is never told \<open>ACCEPTED\<close> or \<open>WRONG\<close>: the verdict is the one that belongs to the
  code, or \<open>INTERNAL\<close>; for a code of failure, which arrives as a negative \<open>char\<close>, it is \<open>INTERNAL\<close>.\<close>

theorem watcher_result_reaches_client:
  assumes "jug_sandbox_watcher sb m ds e inputs fl = Some c" "c \<noteq> result_int JS_CORRECT"
    and "set (rw_waits w) \<subseteq> {No_change, Exited (word_of_int c)}"
    and "jug_runner_judge cmp g limits erfs w True True f sub = Inr (Some v)"
  shows "v = VERDICT_INTERNAL \<or> 0 < c \<and> v = verdict_of_result c"
proof (rule disjCI)
  assume *: "\<not> (0 < c \<and> v = verdict_of_result c)"
  show "v = VERDICT_INTERNAL"
  proof (rule ccontr)
    assume "v \<noteq> VERDICT_INTERNAL"
    then obtain cf st r where run: "run_loop cmp cf (run_start (rw_waits w) (rw_sends w) (rw_reads w) f) = Some st"
        "final_result st = Inr r" "v = verdict_of_result r"
      using judge_result [OF assms(4)] by blast
    have "sint (word_of_int c :: 8 word) = c" using watcher_code [OF assms(1)] by (simp add: exit_status)
    then have "r = (if c < 0 then result_int JS_UNKNOWN else c)"
      using final_result_status [OF run(1) assms(3)] final_result_no_fault [OF run(2)] run(2) assms(2)
      by (auto split: if_splits)
    then show False
      using * run(3) assms(2) \<open>v \<noteq> VERDICT_INTERNAL\<close> by (auto simp: verdict_of_result_def split: if_splits)
  qed
qed

lemma segv_watcher: "jug_sandbox_watcher sample_sandbox 64 4 sample_setup segv_run [Flush_again, Flushed 4] = Some 6"
  by code_simp

lemma segv_judged:
  "jug_runner_judge compare_output sample_runner (255, 3000) 0
     ((sample_world [''2''])\<lparr>rw_waits := [No_change, Exited (word_of_int 6)]\<rparr>) True True
     \<lparr>content = ''2'', offset = 0, fd_valid = True, fd_flags = O_RDWR, read_error = False\<rparr> sample_submission =
   Inr (Some VERDICT_RUNTIME)"
  by code_simp

theorem watcher_result_reaches_client_witness:
  "\<exists>v. jug_runner_judge compare_output sample_runner (255, 3000) 0
     ((sample_world [''2''])\<lparr>rw_waits := [No_change, Exited (word_of_int 6)]\<rparr>) True True
     \<lparr>content = ''2'', offset = 0, fd_valid = True, fd_flags = O_RDWR, read_error = False\<rparr> sample_submission =
   Inr (Some v) \<and> (v = VERDICT_INTERNAL \<or> v = VERDICT_RUNTIME)"
  using watcher_result_reaches_client [OF segv_watcher _ _ segv_judged] segv_judged by simp

section \<open>From the configuration to the verdict\<close>

text \<open>A worker of a daemon: it works with what the daemon has set up, on a table of languages the daemon's workers
  can have, and none of its system calls fails.\<close>

definition served_by :: "kjd \<Rightarrow> serv_env \<Rightarrow> serv_state \<Rightarrow> bool" where
  "served_by d env st \<longleftrightarrow> sv_ramfs env = d_ramfs d \<and> sv_feed_workspace env = d_feed_workspace d \<and>
     sv_runner env = d_runner d \<and> sv_erfs env = use_ERFS (d_sandbox d) \<and>
     sv_limits env = (mem_limit_mb_default (d_sandbox d), time_limit_ms_default (d_sandbox d)) \<and>
     lang_runs (d_langs d) (sv_langs st) \<and>
     ample (sv_mem env) \<and> (\<forall>k. 0 < sv_send env k) \<and>
     le_mkdir (sv_lang env) \<noteq> Mkdir_error \<and> le_open (sv_lang env) \<and> le_puts (sv_lang env) \<and>
     fe_open (sv_feed_in env) \<and> fe_puts (sv_feed_in env) \<and> fe_open (sv_feed_out env) \<and> fe_puts (sv_feed_out env) \<and>
     sv_open_in env \<and> sv_open_right env \<and> \<not> sv_read_error env"

lemma served_ready:
  assumes "kjd_ok d" "served_by d env st" "lang_get (d_langs d) ''c'' = Some l" "lang_kind l = LANG_COMPILED"
    and "use_ERFS (d_sandbox d) \<noteq> 1" "length (cstr (cmd_compile l)) < 100" "show_submission_output (d_runner d) = 0"
  shows "daemon_ready env st RAMFS_DIR l"
proof -
  have wf: "lang_state_wf (d_langs d)" using assms(1) by (simp add: kjd_ok_def)
  have runs: "lang_runs (d_langs d) (sv_langs st)" using assms(2) by (simp add: served_by_def)
  have l: "lang_wf l \<and> lang_named l" using lang_get_named [OF wf assms(3)] by simp
  moreover have "NUL \<in> set (cmd_compile l)" by (rule cstr_shorter) (use assms(6) l in \<open>simp add: lang_wf_def\<close>)
  ultimately show ?thesis
    using assms lang_runs_wf [OF runs wf] lang_get_runs [OF runs wf]
    by (auto simp: daemon_ready_def served_by_def kjd_ok_def lang_state_wf_def LANG_WORKERS_MAX_NBR_def
        lang_wf_def lang_named_def RAMFS_DIR_def)
qed

lemma verdict_string: "NUL \<notin> set (jug_int_verdict_to_string v)" "length (with_length (jug_int_verdict_to_string v)) < 100"
  by (cases v; simp add: with_length_def; simp add: dec_nat.simps)+

lemma client_reads_reply:
  "ample mem \<Longrightarrow> kudosjudge_receive mem [Chunk (with_length (jug_int_verdict_to_string v))] =
     Inr (Some (jug_int_verdict_to_string v), [])"
  using kudosjudge_receive_ok [of mem "with_length (jug_int_verdict_to_string v)" "jug_int_verdict_to_string v"
      "jug_int_verdict_to_string v" "[]"] verdict_string [of v]
  by (simp add: with_length_def)

lemma forge_short:
  assumes "length inp < 10000" "length out < 4000" "length src < 1000"
  shows "length (with_length (request_body inp out src)) < 30000000"
proof -
  have "length (dec_nat (length inp)) \<le> 5" "length (dec_nat (length out)) \<le> 5" "length (dec_nat (length src)) \<le> 5"
    using assms by (simp_all add: length_dec_nat_5)
  then have "length (request_body inp out src) < 20000"
    using assms by (simp add: request_body_def request_head_def)
  then show ?thesis using length_dec_nat_5 [of "length (request_body inp out src)"] by (simp add: with_length_def)
qed

text \<open>C1: The whole path. A configuration file, however it is written, that has every setting, whose first language is
  \<open>c\<close> (others may follow), that uses no execution root file system and does not show the output, starts a daemon on a
  system where no call fails; the client forges a request from a source, an input and an expected output, which are
  without NUL bytes and within the sizes of its buffers (999, 9999 and 3999 bytes) and of which the source is not empty, and sends it, and the network
  cuts it into any pieces; one of the workers serves the connection with what the daemon has set up
  (\<open>served_by\<close>: none of its calls fails). If the request is not a multiple of 1024 bytes long, the command line of
  the compiler is shorter than 200 bytes, the compiler writes only its result, the source compiles, and the watcher of the run of what it
  compiles to, on the input, ends with \<open>JS_CORRECT\<close>, with no call failing (\<open>clean_run\<close>) and no carriage return in the output,
  then the worker answers and closes the connection, and the client, if the reply comes in one piece, shows \<open>ACCEPTED\<close> exactly if the output is the
  expected one (up to line ends at the end and carriage returns of the expected output); and no file is left behind. The size of the output does not matter, whatever \<open>output_size_limit_mb\<close> says.\<close>

theorem configured_daemon_judges:
  assumes conf: "config_at (ds_conf se) conf" "complete_conf conf" "first_compiler conf ''c'' ver la c x" "healthy se"
    and erfs: "atoi_str (conf_value conf ''Executer'' ''use_ERFS'') \<noteq> 1"
    and quiet: "atoi_str (conf_value conf ''Executer'' ''show_submission_output'') = 0"
    and start: "kudosd_start se config_start = Inr (Inr d)" and worker: "w \<in> set (d_workers d)"
    and serving: "served_by d env st" "g_ready (sv_int st) (sv_sockopt env)" and cm: "ample cm"
    and limits: "NUL \<notin> set inp" "NUL \<notin> set out" "NUL \<notin> set src" "src \<noteq> []"
      "length inp < 10000" "length out < 4000" "length src < 1000"
    and forged: "kudosdjudge_forge_dd cm (Some src) (Some inp) (Some out) = Inr (Some m)" "\<not> 1024 dvd length m"
    and net: "sv_sock env = map Chunk cs @ rest" "concat cs = m" "\<forall>c \<in> set cs. c \<noteq> []"
    and ws: "ws = RAMFS_DIR @ ''/lang-workspace''"
    and cmd: "c_fmt c [submission_ext ws (int w) x, submission_file ws (int w)] = Inr cmd" "length cmd < 200"
    and cc: "compiler_ok (compiler (sv_lang env)) cmd (submission_ext ws (int w) x) (submission_file ws (int w)) code" "code src = Some b"
    and run: "clean_run (sv_run env (Some b) (Some inp)) (int (length inp)) bs ps" "CR \<notin> set (concat (pieces bs @ ps))"
  shows "\<exists>r st' v. queue_worker_serv env (int w) st = Inr (Some (r, st')) \<and> reply_closed r \<and>
    kudosjudge_receive cm [Chunk (reply r)] = Inr (Some (jug_int_verdict_to_string v), []) \<and>
    (v = VERDICT_ACCEPTED \<longleftrightarrow> strip_LF (concat (pieces bs @ ps)) = strip_LF (filter (\<lambda>c. c \<noteq> CR) out)) \<and>
    (\<forall>q. sv_files st q = None \<longrightarrow> sv_files st' q = None)"
proof -
  have ok: "kjd_ok d" using kudosd_start_ok(1) [OF start] .
  obtain l where l: "lang_get (d_langs d) ''c'' = Some l" "lang_kind l = LANG_COMPILED"
      "cstr (cmd_compile l) = c" "cstr (ext_compile l) = x" "use_ERFS (d_sandbox d) \<noteq> 1"
      "show_submission_output (d_runner d) = 0"
    using start_decides [OF conf refl] start erfs quiet by (cases "24 < atoi_str (conf_value conf ''Queue'' ''num_worker_threads'')") auto
  have ready: "daemon_ready env st RAMFS_DIR l" 
    by (rule served_ready [OF ok serving(1) l(1,2,5) _ l(6)]) (use conf(3) l(3) in \<open>simp add: first_compiler_def field_ok_def\<close>)
  have w: "0 \<le> int w" "int w < 24" using worker ok by (auto simp: kjd_ok_def)
  have m: "m = with_length (request_body inp out src)" using forged(1) forge_ok [OF cm limits(1-3,5-7)] by simp
  have "length m < 30000000" using forge_short [OF limits(5-7)] m by simp
  then have msg: "message env st inp out src"
    using limits serving(2) net m by (auto simp: message_defs)
  have files: "file_src RAMFS_DIR l (int w) = submission_ext ws (int w) x" "file_bin RAMFS_DIR (int w) = submission_file ws (int w)"
    by (simp_all add: file_src_def file_bin_def ws l(4))
  have "\<exists>v st'. queue_worker_serv env (int w) st =
      Inr (Some (\<lparr>reply = with_length (jug_int_verdict_to_string v), reply_closed = True\<rparr>, st')) \<and>
    (v = VERDICT_ACCEPTED \<longleftrightarrow> strip_LF (concat (pieces bs @ ps)) = strip_LF (filter (\<lambda>c. c \<noteq> CR) out)) \<and>
    (\<forall>q. sv_files st' q = (if q \<in> {file_in env RAMFS_DIR (int w), file_out env RAMFS_DIR (int w),
       file_src RAMFS_DIR l (int w), file_bin RAMFS_DIR (int w)} then None else sv_files st q))"
    by (rule submission_judged [where code = code and b = b, OF ready w msg _ _ _ _ cc(2) run]) (use forged(2) m cmd cc(1) files l(3) in simp_all)
  then obtain v st' where serv: "queue_worker_serv env (int w) st =
      Inr (Some (\<lparr>reply = with_length (jug_int_verdict_to_string v), reply_closed = True\<rparr>, st'))"
    and v: "v = VERDICT_ACCEPTED \<longleftrightarrow> strip_LF (concat (pieces bs @ ps)) = strip_LF (filter (\<lambda>c. c \<noteq> CR) out)"
    and left: "\<And>q. sv_files st q = None \<Longrightarrow> sv_files st' q = None"
    by (elim exE conjE) (rule that, assumption, assumption, simp)
  show ?thesis
    using serv v left client_reads_reply [OF cm, of v]
    by (intro exI [of _ "\<lparr>reply = with_length (jug_int_verdict_to_string v), reply_closed = True\<rparr>"] exI [of _ st'] exI [of _ v]) simp
qed

text \<open>A worker of the sample daemon, with a compiler that copies, and a submission that prints \<open>2\<close>.\<close>

definition sample_worker :: "kjd \<Rightarrow> serv_env" where
  "sample_worker d = (sample_serv ''2'')\<lparr>sv_feed_workspace := d_feed_workspace d, sv_ramfs := d_ramfs d,
     sv_lang := \<lparr>le_mkdir = Made, le_open = True, le_puts = True, compiler = (\<lambda>_ fs.
       fs(submission_file (RAMFS_DIR @ ''/lang-workspace'') 3 := fs (submission_ext (RAMFS_DIR @ ''/lang-workspace'') 3 ''c'')))\<rparr>,
     sv_runner := d_runner d, sv_erfs := use_ERFS (d_sandbox d),
     sv_limits := (mem_limit_mb_default (d_sandbox d), time_limit_ms_default (d_sandbox d))\<rparr>"

lemma sample_worker_served:
  "served_by d (sample_worker d) (sample_serv_state\<lparr>sv_langs := d_langs d\<rparr>)"
  by (simp add: served_by_def sample_worker_def sample_serv_def lang_runs_start)

lemma sample_worker_fields:
  "sv_sock (sample_worker d) = map Chunk [''17'' @ [LF], request_body ''1'' ''2'' ''m''] @ []"
  "sv_run (sample_worker d) = sv_run (sample_serv ''2'')" "sv_sockopt (sample_worker d) = None"
  by (simp_all add: sample_worker_def sample_serv_def)

lemma sample_compiler:
  "compiler_ok (compiler (sv_lang (sample_worker d))) cmd (submission_ext (RAMFS_DIR @ ''/lang-workspace'') 3 ''c'')
     (submission_file (RAMFS_DIR @ ''/lang-workspace'') 3) Some"
  by (simp add: compiler_ok_def sample_worker_def)

lemma sample_erfs: "atoi_str (conf_value sample_conf ''Executer'' ''use_ERFS'') \<noteq> 1"
proof -
  have "conf_value sample_conf ''Executer'' ''use_ERFS'' = ''0''"
    by (simp add: conf_value_def sample_conf_def flat_conf_def)
  moreover have "atoi_str ''0'' = 0" by code_simp
  ultimately show ?thesis by simp
qed

lemma sample_quiet: "atoi_str (conf_value sample_conf ''Executer'' ''show_submission_output'') = 0"
proof -
  have "conf_value sample_conf ''Executer'' ''show_submission_output'' = ''0''"
    by (simp add: conf_value_def sample_conf_def flat_conf_def)
  moreover have "atoi_str ''0'' = 0" by code_simp
  ultimately show ?thesis by simp
qed

theorem configured_daemon_judges_witness:
  "\<exists>d r st'. kudosd_start sample_start config_start = Inr (Inr d) \<and>
    queue_worker_serv (sample_worker d) 3 (sample_serv_state\<lparr>sv_langs := d_langs d\<rparr>) = Inr (Some (r, st')) \<and>
    kudosjudge_receive roomy [Chunk (reply r)] = Inr (Some ''ACCEPTED'', [])"
proof -
  obtain d where d: "kudosd_start sample_start config_start = Inr (Inr d)" "g_num_worker_threads (d_queue d) = 5"
    using sample_daemon by blast
  let ?ws = "RAMFS_DIR @ ''/lang-workspace''" and ?m = "with_length (request_body ''1'' ''2'' ''m'')"
  let ?cmd = "'' gcc '' @ submission_ext ?ws 3 ''c'' @ '' -o '' @ submission_file ?ws 3"
  let ?st = "sample_serv_state\<lparr>sv_langs := d_langs d\<rparr>"
  have three: "dec_int 3 = ''3''" by code_simp
  have worker: "3 \<in> set (d_workers d)" using kudosd_start_ok(1) [OF d(1)] d(2) by (simp add: kjd_ok_def)
  have forged: "kudosdjudge_forge_dd roomy (Some ''m'') (Some ''1'') (Some ''2'') = Inr (Some ?m)" by (rule forge_ok) simp_all
  have len: "\<not> 1024 dvd length ?m" by (auto simp: small_message_text small_request dest: dvd_imp_le)
  have net: "concat [''17'' @ [LF], request_body ''1'' ''2'' ''m''] = ?m"
    by (simp add: small_message_text small_request)
  have short: "length ?cmd < 200" by (simp add: submission_ext_def submission_file_def RAMFS_DIR_def three)
  have "\<exists>r st' v. queue_worker_serv (sample_worker d) (int 3) ?st = Inr (Some (r, st')) \<and> reply_closed r \<and>
    kudosjudge_receive roomy [Chunk (reply r)] = Inr (Some (jug_int_verdict_to_string v), []) \<and>
    (v = VERDICT_ACCEPTED \<longleftrightarrow> strip_LF (concat (pieces [Read_again] @ [''2''])) = strip_LF (filter (\<lambda>c. c \<noteq> CR) ''2'')) \<and>
    (\<forall>q. sv_files ?st q = None \<longrightarrow> sv_files st' q = None)"
    by (rule configured_daemon_judges [where code = Some and b = "''m''" and cmd = ?cmd and inp = "''1''" and src = "''m''",
          OF sample_starts sample_erfs sample_quiet d(1) worker sample_worker_served _ _ _ _ _ _ _ _ _ forged len
            sample_worker_fields(1) net _ refl _ _ _ refl])
      (use sample_run_clean [of "''2''"] sample_compiler short
       in \<open>simp_all add: sample_worker_fields sample_serv_state_def small_request\<close>)
  then show ?thesis using d(1) by auto
qed

section \<open>Many clients\<close>

lemma started_admits:
  assumes "kudosd_start se config_start = Inr (Inr d)" "served_by d env st" "g_ready (sv_int st) (sv_sockopt env)"
    and "lang_get (d_langs d) ''c'' = Some l" "lang_kind l = LANG_COMPILED" "use_ERFS (d_sandbox d) \<noteq> 1"
    and "length (cstr (cmd_compile l)) < 100" "show_submission_output (d_runner d) = 0" "submits (length (d_workers d)) RAMFS_DIR l env sub"
  shows "admits (length (d_workers d)) RAMFS_DIR l st env sub"
proof -
  have ok: "kjd_ok d" by (rule kudosd_start_ok(1) [OF assms(1)])
  then have "length (d_workers d) \<le> 24" by (simp add: kjd_ok_def nat_le_iff)
  then show ?thesis using served_ready [OF ok assms(2,4-8)] assms(3,9) by (simp add: admits_def)
qed

text \<open>C2: Any number of clients of a configured daemon. The configuration has every setting, \<open>c\<close> as its first language, at least
  one worker, no execution root file system and does not show the output, and no call of the start fails. Connections
  arrive, and the workers, as many as the configuration says, serve them at the same time, in any order of their steps,
  where the operations of the queue are single steps that do not overlap. Each connection that has arrived is a judging request
  with inline data, without NUL bytes, with a non-empty source, shorter than 30 MB and not a multiple of 1024 bytes long, with a
  compiler whose command line fits and that writes only its result, and with a run, if the source compiles, whose watcher ends with
  \<open>JS_CORRECT\<close> and whose output has no carriage return (\<open>submits\<close>); the worker's own calls do not fail (\<open>served_by\<close>).
  Then every client that has been answered sees, if its reply comes in one piece, the verdict on its own submission: \<open>ACCEPTED\<close> exactly if its source compiles
  and what the program prints is what this client expects, up to line ends at the end and carriage returns of
  the expected output; and from every state the workers can go on until every connection that has arrived is answered.\<close>

theorem every_client_sees_its_verdict:
  assumes conf: "config_at (ds_conf se) conf" "complete_conf conf" "first_compiler conf ''c'' ver la c x" "healthy se"
    and erfs: "atoi_str (conf_value conf ''Executer'' ''use_ERFS'') \<noteq> 1"
    and quiet: "atoi_str (conf_value conf ''Executer'' ''show_submission_output'') = 0"
    and workers: "0 < atoi_str (conf_value conf ''Queue'' ''num_worker_threads'')"
    and start: "kudosd_start se config_start = Inr (Inr d)" "lang_get (d_langs d) ''c'' = Some l"
    and reach: "daemon_reach (length (d_workers d)) (serve env) job_outcome J_begin st s"
    and clients: "\<forall>k \<in> set (arrived s). served_by d (env k) st \<and> g_ready (sv_int st) (sv_sockopt (env k)) \<and>
      submits (length (d_workers d)) RAMFS_DIR l (env k) (sub k)"
    and cm: "ample cm"
  shows "(\<forall>(k, w, out) \<in> set (answered s). \<exists>v.
      kudosjudge_receive cm [Chunk (reply out)] = Inr (Some (jug_int_verdict_to_string v), []) \<and>
      (v = VERDICT_ACCEPTED \<longleftrightarrow> sub_compiles (sub k) \<and>
         strip_LF (sub_prints (sub k)) = strip_LF (filter (\<lambda>x. x \<noteq> CR) (sub_output (sub k))))) \<and>
    (\<exists>s'. (worker_step (length (d_workers d)) (serve env) job_outcome J_begin)\<^sup>*\<^sup>* s s' \<and>
      mset (map fst (answered s')) = mset (arrived s))"
proof -
  let ?n = "length (d_workers d)" and ?k = "atoi_str (conf_value conf ''Queue'' ''num_worker_threads'')"
  obtain l' where "lang_get (d_langs d) ''c'' = Some l'" "lang_kind l' = LANG_COMPILED" "cstr (cmd_compile l') = c"
      "use_ERFS (d_sandbox d) \<noteq> 1" "show_submission_output (d_runner d) = 0" "g_num_worker_threads (d_queue d) = ?k"
    using start_decides [OF conf refl] start(1) erfs quiet by (cases "24 < ?k") auto
  then have l: "lang_kind l = LANG_COMPILED" "use_ERFS (d_sandbox d) \<noteq> 1" "length (cstr (cmd_compile l)) < 100" "0 < ?n"
      "show_submission_output (d_runner d) = 0"
    using start conf(3) workers kudosd_start_ok(1) [OF start(1)]
    by (simp_all add: first_compiler_def field_ok_def kjd_ok_def)
  then have "\<forall>k \<in> set (arrived s). admits ?n RAMFS_DIR l st (env k) (sub k)"
    using started_admits [OF start(1) _ _ start(2)] clients by blast
  then have keeps: "serving.keeps ?n RAMFS_DIR l st env sub s"
    by (rule serving.reach_keeps [OF reach ready_for_start])
  have "\<exists>v. kudosjudge_receive cm [Chunk (reply out)] = Inr (Some (jug_int_verdict_to_string v), []) \<and>
      (v = VERDICT_ACCEPTED \<longleftrightarrow> sub_compiles (sub k) \<and>
         strip_LF (sub_prints (sub k)) = strip_LF (filter (\<lambda>x. x \<noteq> CR) (sub_output (sub k))))"
    if "(k, w, out) \<in> set (answered s)" for k w out
  proof -
    have "admits ?n RAMFS_DIR l st (env k) (sub k)" "w < ?n" "as_alone (env k) (int w) st out"
      using answered_alone [OF keeps that] by simp_all
    from alone_verdict [OF this]
    obtain v where "out = \<lparr>reply = with_length (jug_int_verdict_to_string v), reply_closed = True\<rparr>"
        "v = VERDICT_ACCEPTED \<longleftrightarrow> sub_compiles (sub k) \<and>
           strip_LF (sub_prints (sub k)) = strip_LF (filter (\<lambda>x. x \<noteq> CR) (sub_output (sub k)))" by blast
    then show ?thesis using client_reads_reply [OF cm, of v] by (intro exI [of _ v]) simp
  qed
  then show ?thesis using serving.workers_drain [OF keeps l(4)] by blast
qed

text \<open>Two clients of the sample daemon with its five workers send the same; the submission of the first prints what
  both expect.\<close>

definition gcc_job :: "nat \<Rightarrow> string \<times> string \<times> string" where
  "gcc_job w = (let ws = RAMFS_DIR @ ''/lang-workspace''; s = submission_ext ws (int w) ''c''; t = submission_file ws (int w)
     in ('' gcc '' @ s @ '' -o '' @ t, s, t))"

definition crowd_env :: "kjd \<Rightarrow> nat \<Rightarrow> serv_env" where
  "crowd_env d k = (sample_worker d)\<lparr>sv_run := sv_run (sample_serv (sub_prints (pair_sub k))),
     sv_lang := \<lparr>le_mkdir = Made, le_open = True, le_puts = True, compiler = toolbox (map gcc_job [0..<5])\<rparr>\<rparr>"

lemma gcc_jobs:
  assumes "w < 5"
  shows "map_of (map gcc_job [0..<5]) (fst (gcc_job w)) = Some (snd (gcc_job w))" "length (fst (gcc_job w)) < 200"
proof -
  have "list_all (\<lambda>w. map_of (map gcc_job [0..<5]) (fst (gcc_job w)) = Some (snd (gcc_job w)) \<and>
      length (fst (gcc_job w)) < 200) [0..<5]" by code_simp
  then show "map_of (map gcc_job [0..<5]) (fst (gcc_job w)) = Some (snd (gcc_job w))" "length (fst (gcc_job w)) < 200"
    using assms by (simp_all only: list_all_iff atLeastLessThan_upt [symmetric]) simp_all
qed

lemma crowd_submits:
  assumes "cstr (cmd_compile l) = '' gcc %s -o %s''" "cstr (ext_compile l) = ''c''"
  shows "submits 5 RAMFS_DIR l (crowd_env d k) (pair_sub k)"
proof -
  have sock: "sv_sock (crowd_env d k) = map Chunk [''17'' @ [LF], request_body ''1'' ''2'' ''m''] @ []"
    by (simp add: crowd_env_def sample_worker_fields)
  have sends: "sends_request (crowd_env d k) ''1'' ''2'' ''m''"
    using sample_message [of "''2''"] by (simp add: message_defs sock sample_serv_def)
  have len: "\<not> 1024 dvd length (with_length (request_body ''1'' ''2'' ''m''))"
    by (auto simp: small_message_text small_request dest: dvd_imp_le)
  have run: "clean_run (sv_run (crowd_env d k) (Some ''m'') (Some ''1'')) (int (length ''1'')) [Read_again] [sub_prints (pair_sub k)]"
    using sample_run_clean [of "sub_prints (pair_sub k)"] by (simp add: crowd_env_def pair_sub_def)
  have "\<exists>cmd code. c_fmt (cstr (cmd_compile l)) [file_src RAMFS_DIR l (int w), file_bin RAMFS_DIR (int w)] = Inr cmd \<and>
      length cmd < length RAMFS_DIR + 200 \<and>
      compiler_ok (compiler (sv_lang (crowd_env d k))) cmd (file_src RAMFS_DIR l (int w)) (file_bin RAMFS_DIR (int w)) code \<and>
      code ''m'' = Some ''m''" if "w < 5" for w
  proof -
    have job: "gcc_job w = ('' gcc '' @ file_src RAMFS_DIR l (int w) @ '' -o '' @ file_bin RAMFS_DIR (int w),
        file_src RAMFS_DIR l (int w), file_bin RAMFS_DIR (int w))"
      by (simp add: gcc_job_def file_src_def file_bin_def assms(2) Let_def)
    from toolbox_ok [OF gcc_jobs(1) [OF that, unfolded job fst_conv snd_conv]] gcc_jobs(2) [OF that]
    show ?thesis
      by (intro exI [of _ "fst (gcc_job w)"] exI [of _ Some]) (simp add: job assms(1) crowd_env_def)
  qed
  then show ?thesis
    using sends len run by (auto simp: submits_def pair_sub_def pieces_def intro!: exI [of _ "[Read_again]"])
qed

lemma crowd_served:
  "served_by d (crowd_env d k) (sample_serv_state\<lparr>sv_langs := d_langs d\<rparr>)"
  "g_ready (sv_int (sample_serv_state\<lparr>sv_langs := d_langs d\<rparr>)) (sv_sockopt (crowd_env d k))"
  using sample_worker_served [of d] by (simp_all add: served_by_def crowd_env_def sample_worker_fields sample_serv_state_def)

theorem every_client_sees_its_verdict_witness:
  "\<exists>d st s. kudosd_start sample_start config_start = Inr (Inr d) \<and>
    daemon_reach 5 (serve (crowd_env d)) job_outcome J_begin st s \<and> mset (map fst (answered s)) = {#1, 2#} \<and>
    (\<forall>(k, w, out) \<in> set (answered s). \<exists>v.
       kudosjudge_receive roomy [Chunk (reply out)] = Inr (Some (jug_int_verdict_to_string v), []) \<and>
       (v = VERDICT_ACCEPTED \<longleftrightarrow> k = 1))"
proof -
  obtain d l where d: "kudosd_start sample_start config_start = Inr (Inr d)" "g_num_worker_threads (d_queue d) = 5"
      "lang_get (d_langs d) ''c'' = Some l" "cstr (cmd_compile l) = '' gcc %s -o %s''" "cstr (ext_compile l) = ''c''"
    using start_decides(2) [OF sample_starts refl] sample_conf_workers by auto
  let ?st = "sample_serv_state\<lparr>sv_langs := d_langs d\<rparr>"
  have n: "length (d_workers d) = 5" using kudosd_start_ok(1) [OF d(1)] d(2) by (simp add: kjd_ok_def)
  have ok: "\<forall>k \<in> set (arrived s). served_by d (crowd_env d k) ?st \<and> g_ready (sv_int ?st) (sv_sockopt (crowd_env d k)) \<and>
      submits (length (d_workers d)) RAMFS_DIR l (crowd_env d k) (pair_sub k)" for s :: "(nat, job, serv_state, serv_out) system"
    by (simp only: crowd_served n crowd_submits [OF d(4,5)]) simp
  have pos: "0 < atoi_str (conf_value sample_conf ''Queue'' ''num_worker_threads'')" by (simp add: sample_conf_workers)
  note sees = every_client_sees_its_verdict [OF sample_starts sample_erfs sample_quiet pos d(1,3) _ ok roomy_ample]
  obtain s where s: "daemon_reach 5 (serve (crowd_env d)) job_outcome J_begin ?st s" "arrived s = [1, 2 :: nat]"
    by (rule pair_arrived)
  then obtain s' where s': "(worker_step 5 (serve (crowd_env d)) job_outcome J_begin)\<^sup>*\<^sup>* s s'"
      "mset (map fst (answered s')) = mset [1, 2]"
    using sees [of s] n by auto
  have r: "daemon_reach 5 (serve (crowd_env d)) job_outcome J_begin ?st s'" by (rule reach_workers [OF s'(1) s(1)])
  have "sub_compiles (pair_sub k) \<and> strip_LF (sub_prints (pair_sub k)) = strip_LF (filter (\<lambda>x. x \<noteq> CR) (sub_output (pair_sub k)))
      \<longleftrightarrow> k = 1" for k
    by (simp add: pair_sub_def strip_LF_def)
  then show ?thesis
    using d(1) r s'(2) sees [of s'] n by (intro exI [of _ d] exI [of _ ?st] exI [of _ s']) simp
qed

end
